(* ===== verification/Prelude.thy ===== *)
theory Prelude
  imports Main "HOL-Library.Word"
begin

text \<open>
  What every component shares: names for the machine types of the Rust code, the
  arithmetic of \<open>u64\<close> the code calls from the standard library, the state-and-error
  computations in which the operations are written, their weakest preconditions, and the
  generic lemmas on words and lists.
\<close>

unbundle bit_operations_syntax

section \<open>Machine types\<close>

type_synonym u8 = "8 word"
type_synonym u16 = "16 word"
type_synonym u32 = "32 word"
type_synonym u64 = "64 word"

text \<open>\<open>usize\<close> is 64 bits wide on the targets this crate supports.\<close>
type_synonym usize = "64 word"

text \<open>An \<open>f32\<close> is its bit pattern, as \<open>to_bits\<close> and \<open>from_bits\<close> read it.\<close>
type_synonym f32 = "32 word"

named_theorems arith_defs \<open>definitions of the standard library's u64 arithmetic\<close>
named_theorems wp \<open>weakest preconditions of the computations\<close>
named_theorems unat_simps \<open>machine words read as natural numbers\<close>

section \<open>Arithmetic of the standard library\<close>

definition checked_add :: "'a::len word \<Rightarrow> 'a word \<Rightarrow> 'a word option" where
  "checked_add a b = (if unat a + unat b < 2 ^ LENGTH('a) then Some (a + b) else None)"

definition checked_mul :: "'a::len word \<Rightarrow> 'a word \<Rightarrow> 'a word option" where
  "checked_mul a b = (if unat a * unat b < 2 ^ LENGTH('a) then Some (a * b) else None)"

definition saturating_add :: "'a::len word \<Rightarrow> 'a word \<Rightarrow> 'a word" where
  "saturating_add a b = (case checked_add a b of Some c \<Rightarrow> c | None \<Rightarrow> - 1)"

definition div_ceil :: "'a::len word \<Rightarrow> 'a word \<Rightarrow> 'a word" where
  "div_ceil a b = (if a mod b = 0 then a div b else a div b + 1)"

definition is_multiple_of :: "'a::len word \<Rightarrow> 'a word \<Rightarrow> bool" where
  "is_multiple_of a b = (if b = 0 then a = 0 else a mod b = 0)"

text \<open>The narrowing conversions: \<open>as u32\<close> truncates, \<open>u32::try_from\<close> checks.\<close>

definition as_u32 :: "u64 \<Rightarrow> u32" where
  "as_u32 x = ucast x"

definition try_u32 :: "u64 \<Rightarrow> u32 option" where
  "try_u32 x = (if unat x < 2 ^ 32 then Some (ucast x) else None)"

text \<open>The same on integers, for evaluation.\<close>

lemma checked_add_code [code]:
  "checked_add a b = (if uint a + uint b < 2 ^ LENGTH('a) then Some (a + b) else None)"
  for a b :: "'a::len word"
proof -
  have "int (unat a + unat b) < int (2 ^ LENGTH('a)) \<longleftrightarrow> uint a + uint b < 2 ^ LENGTH('a)"
    by (simp only: of_nat_add of_nat_unat of_nat_power of_nat_numeral)
  then show ?thesis by (simp only: checked_add_def of_nat_less_iff)
qed

lemma checked_mul_code [code]:
  "checked_mul a b = (if uint a * uint b < 2 ^ LENGTH('a) then Some (a * b) else None)"
  for a b :: "'a::len word"
proof -
  have "int (unat a * unat b) < int (2 ^ LENGTH('a)) \<longleftrightarrow> uint a * uint b < 2 ^ LENGTH('a)"
    by (simp only: of_nat_mult of_nat_unat of_nat_power of_nat_numeral)
  then show ?thesis by (simp only: checked_mul_def of_nat_less_iff)
qed

lemma try_u32_code [code]: "try_u32 x = (if x < 0x100000000 then Some (ucast x) else None)"
  by (simp add: try_u32_def word_less_nat_alt)

lemmas [arith_defs] = checked_add_def checked_mul_def saturating_add_def div_ceil_def
  is_multiple_of_def as_u32_def try_u32_def

lemma checked_add_Some: "checked_add a b = Some c \<Longrightarrow> unat c = unat a + unat b"
  by (auto simp: checked_add_def unat_word_ariths split: if_splits)

lemma checked_mul_Some: "checked_mul a b = Some c \<Longrightarrow> unat c = unat a * unat b"
  by (auto simp: checked_mul_def unat_word_ariths split: if_splits)

lemma checked_add_le:
  "checked_add a b = Some c \<Longrightarrow> c \<le> d \<longleftrightarrow> unat a + unat b \<le> unat d"
  by (simp add: word_le_nat_alt checked_add_Some)

lemma try_u32_Some: "try_u32 x = Some y \<Longrightarrow> unat y = unat x"
  by (auto simp: try_u32_def unsigned_ucast_eq take_bit_nat_eq_self_iff split: if_splits)

lemma unat_as_u32: "unat (as_u32 x) = unat x mod 2 ^ 32"
  by (simp add: as_u32_def unsigned_ucast_eq take_bit_eq_mod)

text \<open>Ceiling division on natural numbers, by quotient and remainder.\<close>

lemma ceil_div_eq:
  fixes a b :: nat
  assumes "0 < b"
  shows "(a + b - 1) div b = (if a mod b = 0 then a div b else a div b + 1)"
proof -
  obtain q r where a: "a = q * b + r" and r: "r < b"
    using assms by (metis mod_less_divisor div_mult_mod_eq)
  show ?thesis
  proof (cases "r = 0")
    case True
    then have "a + b - 1 = (b - 1) + q * b" using a assms by simp
    moreover have "((b - 1) + q * b) div b = q"
      using assms by (subst div_mult_self1) auto
    ultimately show ?thesis using a True assms by simp
  next
    case False
    then have "a + b - 1 = (r - 1) + (q + 1) * b" using a assms by simp
    moreover have "((r - 1) + (q + 1) * b) div b = q + 1"
      using r assms by (subst div_mult_self1) auto
    ultimately show ?thesis using a r False assms by simp
  qed
qed

lemma unat_div_ceil:
  assumes "b \<noteq> 0"
  shows "unat (div_ceil a b) = (unat a + unat b - 1) div unat b"
proof -
  have b: "0 < unat b" using assms by (simp add: unat_gt_0)
  have z: "a mod b = 0 \<longleftrightarrow> unat a mod unat b = 0"
    by (metis unat_mod_distrib unat_eq_zero)
  show ?thesis
  proof (cases "a mod b = 0")
    case True
    with z show ?thesis by (simp add: div_ceil_def ceil_div_eq [OF b, simplified] unat_div_distrib)
  next
    case False
    with z have m: "unat a mod unat b \<noteq> 0" by simp
    then have "unat b \<noteq> 1" by (metis mod_by_1 One_nat_def)
    moreover have "unat a \<noteq> 0" using m by (cases "unat a = 0") auto
    ultimately have "unat a div unat b < unat a" using b by (intro div_less_dividend) auto
    moreover have "unat a < 2 ^ LENGTH('a)" by simp
    ultimately have "unat a div unat b + 1 < 2 ^ LENGTH('a)" by linarith
    with False m show ?thesis
      by (simp add: div_ceil_def ceil_div_eq [OF b, simplified] unat_word_ariths unat_div_distrib)
  qed
qed

lemma div_ceil_covers:
  assumes "b \<noteq> 0"
  shows "unat a \<le> unat (div_ceil a b) * unat b"
proof -
  have b: "0 < unat b" using assms by (simp add: unat_gt_0)
  obtain q r where "unat a = q * unat b + r" "r < unat b"
    using b by (metis mod_less_divisor div_mult_mod_eq)
  then show ?thesis
    unfolding unat_div_ceil [OF assms] ceil_div_eq [OF b] by (auto simp: algebra_simps)
qed

lemma div_ceil_tight:
  assumes "b \<noteq> 0" "a \<noteq> 0"
  shows "(unat (div_ceil a b) - 1) * unat b < unat a"
proof -
  have b: "0 < unat b" and a: "0 < unat a" using assms by (simp_all add: unat_gt_0)
  obtain q r where qr: "unat a = q * unat b + r" "r < unat b"
    using b by (metis mod_less_divisor div_mult_mod_eq)
  then have "unat a mod unat b = r" "unat a div unat b = q" by simp_all
  with a b qr show ?thesis
    unfolding unat_div_ceil [OF assms(1)] ceil_div_eq [OF b]
    by (cases q) (auto simp: algebra_simps)
qed

lemma div_ceil_le:
  assumes "b \<noteq> 0" "unat a \<le> n * unat b"
  shows "unat (div_ceil a b) \<le> n"
proof -
  have b: "0 < unat b" using assms by (simp add: unat_gt_0)
  have "(unat a + unat b - 1) div unat b < n + 1"
    using assms(2) b by (intro less_mult_imp_div_less) (simp add: algebra_simps)
  then show ?thesis by (simp add: unat_div_ceil [OF assms(1)])
qed

section \<open>Words read as natural numbers\<close>

lemma unat_push_bit: "unat (push_bit n w) = unat w * 2 ^ n mod 2 ^ LENGTH('a)" for w :: "'a::len word"
  by (simp only: unsigned_push_bit_eq take_bit_eq_mod push_bit_eq_mult [of n "unat w"])

lemma unat_drop_bit: "unat (drop_bit n w) = unat w div 2 ^ n"
  by (simp only: unat_drop_bit_eq drop_bit_eq_div [of n "unat w"])

lemma unat_and_mask: "unat (w AND mask n) = unat w mod 2 ^ n" for w :: "'a::len word"
  by (simp flip: take_bit_eq_mask take_bit_eq_mod add: unsigned_take_bit_eq)

lemma unat_ucast_mod: "unat (ucast w :: 'b::len word) = unat w mod 2 ^ LENGTH('b)" for w :: "'a::len word"
  by (simp add: unsigned_ucast_eq take_bit_eq_mod)

lemma unat_or_disjoint:
  fixes a b :: "'a::len word"
  assumes "2 ^ k dvd unat a" "unat b < 2 ^ k"
  shows "unat (a OR b) = unat a + unat b"
proof -
  have "take_bit k (unat a) = 0" using assms(1) by (simp add: take_bit_eq_mod dvd_eq_mod_eq_0)
  moreover have b: "take_bit k (unat b) = unat b"
    using assms(2) by (simp add: take_bit_nat_eq_self_iff)
  ultimately have "take_bit k (unat a AND unat b) = 0" by simp
  moreover have "take_bit k (unat a AND unat b) = unat a AND unat b"
    by (metis b take_bit_and and.right_idem take_bit_nat_less_eq_self and.assoc take_bit_eq_mask)
  ultimately have "unat a AND unat b = 0" by simp
  then show ?thesis by (simp add: unsigned_or_eq disjunctive_add_eq_or)
qed

text \<open>A number splits in one way into a multiple of \<open>n\<close> and a rest below it.\<close>

lemma digits_eq:
  fixes x y c d n :: nat
  assumes "x * n + c = y * n + d" "c < n" "d < n"
  shows "x = y \<and> c = d"
proof -
  have "(x * n + c) div n = x" "(x * n + c) mod n = c" using assms(2) by simp_all
  moreover have "(y * n + d) div n = y" "(y * n + d) mod n = d" using assms(3) by simp_all
  ultimately show ?thesis using assms(1) by simp
qed

text \<open>Sums, products and differences of \<open>u64\<close> that do not wrap.\<close>

lemma unat_lt_u64: "unat (x :: u64) < 18446744073709551616"
  using unsigned_less [of x] by simp

lemma unat_add_u64: "unat a + unat b < 18446744073709551616 \<Longrightarrow> unat (a + b) = unat a + unat b"
  for a b :: u64
  by (simp add: unat_word_ariths)

lemma unat_mult_u64: "unat a * unat b < 18446744073709551616 \<Longrightarrow> unat (a * b) = unat a * unat b"
  for a b :: u64
  by (simp add: unat_word_ariths)

lemma unat_sub_le: "b \<le> a \<Longrightarrow> unat (a - b) = unat a - unat b" for a b :: "'a::len word"
  by (rule unat_sub)

lemmas [unat_simps] = unat_push_bit unat_drop_bit unat_and_mask unat_ucast_mod

section \<open>Decimal rendering\<close>

text \<open>What \<open>format!\<close> prints of a \<open>u64\<close>.\<close>

definition digit :: "nat \<Rightarrow> char" where
  "digit d = char_of (48 + d)"

fun decimal_nat :: "nat \<Rightarrow> string" where
  "decimal_nat n = (if n < 10 then [digit n] else decimal_nat (n div 10) @ [digit (n mod 10)])"

declare decimal_nat.simps [simp del]

definition decimal :: "u64 \<Rightarrow> string" where
  "decimal n = decimal_nat (unat n)"

lemma of_char_digit: "d < 10 \<Longrightarrow> of_char (digit d) = 48 + (d :: nat)"
  by (simp add: digit_def)

lemma decimal_nat_nonempty: "decimal_nat n \<noteq> []"
  by (subst decimal_nat.simps) simp

lemma decimal_nat_inj: "decimal_nat m = decimal_nat n \<Longrightarrow> m = n"
proof (induction m arbitrary: n rule: decimal_nat.induct)
  case (1 m)
  have last: "(of_char (last (decimal_nat k)) :: nat) = 48 + k mod 10" for k
    by (subst decimal_nat.simps) (simp add: of_char_digit)
  have short: "length (decimal_nat k) = 1 \<longleftrightarrow> k < 10" for k
    by (subst decimal_nat.simps) (simp add: decimal_nat_nonempty)
  have but: "butlast (decimal_nat k) = decimal_nat (k div 10)" if "\<not> k < 10" for k
    using that by (subst decimal_nat.simps) simp
  have mod: "m mod 10 = n mod 10" using last [of m] last [of n] "1.prems" by simp
  show ?case
  proof (cases "m < 10")
    case True
    then have "n < 10" using short "1.prems" by metis
    with True mod show ?thesis by simp
  next
    case False
    then have n: "\<not> n < 10" using short "1.prems" by metis
    have "decimal_nat (m div 10) = decimal_nat (n div 10)" using but [OF False] but [OF n] "1.prems" by simp
    then have "m div 10 = n div 10" using "1.IH" [OF False] by blast
    with mod show ?thesis by (metis div_mult_mod_eq)
  qed
qed

lemma decimal_digits: "c \<in> set (decimal_nat n) \<Longrightarrow> \<exists>d < 10. c = digit d"
proof (induction n rule: decimal_nat.induct)
  case (1 n)
  have "\<exists>d < 10. digit (n mod 10) = digit d" by (rule exI [of _ "n mod 10"]) simp
  with 1 show ?case by (subst (asm) (2) decimal_nat.simps) (auto split: if_splits)
qed

lemma decimal_no_colon: "CHR '':'' \<notin> set (decimal n)"
proof
  assume "CHR '':'' \<in> set (decimal n)"
  then obtain d where "d < 10" "CHR '':'' = digit d" using decimal_digits by (auto simp: decimal_def)
  moreover have "of_char (CHR '':'') = (58 :: nat)" by simp
  ultimately show False using of_char_digit [of d] by simp
qed

lemma decimal_inj: "decimal m = decimal n \<longleftrightarrow> m = n"
  by (auto simp: decimal_def word_unat_eq_iff dest: decimal_nat_inj)

text \<open>Two texts ending in a colon and a number are different when the numbers are.\<close>

lemma suffix_decimal_inj:
  assumes "p @ CHR '':'' # decimal m = q @ CHR '':'' # decimal n"
  shows "p = q \<and> m = n"
proof -
  have split: "xs = ys \<and> a = b" if "xs @ c # a = ys @ c # b" "c \<notin> set a" "c \<notin> set b"
    for xs ys a b :: string and c
    using that
  proof (induction xs arbitrary: ys)
    case Nil
    then show ?case by (cases ys) auto
  next
    case (Cons x xs)
    then show ?case by (cases ys) auto
  qed
  show ?thesis using split [OF assms decimal_no_colon decimal_no_colon] by (simp add: decimal_inj)
qed

section \<open>State-and-error computations\<close>

text \<open>
  An operation of the code reads and writes its object's state and returns a
  \<open>Result\<close>: it is a function from the state to the result (\<open>Inl\<close> the error) and
  the state it leaves. An error keeps the state changes made before it, as the code does.
\<close>

type_synonym ('s, 'e, 'a) exec = "'s \<Rightarrow> ('e + 'a) \<times> 's"

definition ret :: "'a \<Rightarrow> ('s, 'e, 'a) exec" where
  "ret x = (\<lambda>s. (Inr x, s))"

definition throw :: "'e \<Rightarrow> ('s, 'e, 'a) exec" where
  "throw e = (\<lambda>s. (Inl e, s))"

definition andthen :: "('s, 'e, 'a) exec \<Rightarrow> ('a \<Rightarrow> ('s, 'e, 'b) exec) \<Rightarrow> ('s, 'e, 'b) exec" where
  "andthen m f = (\<lambda>s. case m s of (Inl e, t) \<Rightarrow> (Inl e, t) | (Inr x, t) \<Rightarrow> f x t)"

definition gets :: "('s \<Rightarrow> 'a) \<Rightarrow> ('s, 'e, 'a) exec" where
  "gets f = (\<lambda>s. (Inr (f s), s))"

definition modify :: "('s \<Rightarrow> 's) \<Rightarrow> ('s, 'e, unit) exec" where
  "modify f = (\<lambda>s. (Inr (), f s))"

text \<open>\<open>if !cond return Err(e)\<close>, and a pure \<open>Result\<close> under \<open>?\<close>.\<close>

definition ensure :: "bool \<Rightarrow> 'e \<Rightarrow> ('s, 'e, unit) exec" where
  "ensure b e = (if b then ret () else throw e)"

definition lift :: "'e + 'a \<Rightarrow> ('s, 'e, 'a) exec" where
  "lift r = (\<lambda>s. (r, s))"

text \<open>\<open>map_err\<close>, and running an operation of a component inside the state that owns it.\<close>

definition map_err :: "('e \<Rightarrow> 'f) \<Rightarrow> ('s, 'e, 'a) exec \<Rightarrow> ('s, 'f, 'a) exec" where
  "map_err f m = (\<lambda>s. case m s of (Inl e, t) \<Rightarrow> (Inl (f e), t) | (Inr x, t) \<Rightarrow> (Inr x, t))"

definition inside :: "('s \<Rightarrow> 't) \<Rightarrow> ('t \<Rightarrow> 's \<Rightarrow> 's) \<Rightarrow> ('t, 'e, 'a) exec \<Rightarrow> ('s, 'e, 'a) exec" where
  "inside get put m = (\<lambda>s. case m (get s) of (r, t) \<Rightarrow> (r, put t s))"

text \<open>
  \<open>pre m Q E s\<close>: run from \<open>s\<close>, the computation \<open>m\<close> returns with
  \<open>Q\<close> of its value and final state, or fails with \<open>E\<close> of its error and final state.
\<close>

definition pre :: "('s, 'e, 'a) exec \<Rightarrow> ('a \<Rightarrow> 's \<Rightarrow> bool) \<Rightarrow> ('e \<Rightarrow> 's \<Rightarrow> bool) \<Rightarrow> 's \<Rightarrow> bool" where
  "pre m Q E s = (case m s of (Inl e, t) \<Rightarrow> E e t | (Inr x, t) \<Rightarrow> Q x t)"

lemma pre_ret [wp]: "pre (ret x) Q E s = Q x s"
  by (simp add: pre_def ret_def)

lemma pre_throw [wp]: "pre (throw e) Q E s = E e s"
  by (simp add: pre_def throw_def)

lemma pre_andthen [wp]: "pre (andthen m f) Q E s = pre m (\<lambda>x. pre (f x) Q E) E s"
  by (auto simp: pre_def andthen_def split: prod.splits sum.splits)

lemma pre_gets [wp]: "pre (gets f) Q E s = Q (f s) s"
  by (simp add: pre_def gets_def)

lemma pre_modify [wp]: "pre (modify f) Q E s = Q () (f s)"
  by (simp add: pre_def modify_def)

lemma pre_ensure [wp]: "pre (ensure b e) Q E s = (if b then Q () s else E e s)"
  by (simp add: ensure_def wp)

lemma pre_lift [wp]: "pre (lift r) Q E s = (case r of Inl e \<Rightarrow> E e s | Inr x \<Rightarrow> Q x s)"
  by (auto simp: pre_def lift_def split: sum.splits)

lemma pre_map_err [wp]: "pre (map_err f m) Q E s = pre m Q (\<lambda>e. E (f e)) s"
  by (auto simp: pre_def map_err_def split: prod.splits sum.splits)

lemma pre_inside [wp]:
  "pre (inside get put m) Q E s = pre m (\<lambda>x t. Q x (put t s)) (\<lambda>e t. E e (put t s)) (get s)"
  by (auto simp: pre_def inside_def split: prod.splits sum.splits)

text \<open>\<open>let _ = \<dots>\<close> and \<open>.ok()\<close>: a failed call whose error is dropped.\<close>

definition attempt :: "('s, 'e, 'a) exec \<Rightarrow> ('s, 'f, 'a option) exec" where
  "attempt m = (\<lambda>s. case m s of (Inl e, t) \<Rightarrow> (Inr None, t) | (Inr x, t) \<Rightarrow> (Inr (Some x), t))"

lemma pre_attempt [wp]:
  "pre (attempt m) Q E s = pre m (\<lambda>x. Q (Some x)) (\<lambda>_. Q None) s"
  by (auto simp: pre_def attempt_def split: prod.splits sum.splits)

lemma pre_mono:
  assumes "pre m Q E s" "\<And>x t. Q x t \<Longrightarrow> Q' x t" "\<And>e t. E e t \<Longrightarrow> E' e t"
  shows "pre m Q' E' s"
  using assms by (auto simp: pre_def split: prod.splits sum.splits)

lemma preD_Inr: "pre m Q E s \<Longrightarrow> m s = (Inr x, t) \<Longrightarrow> Q x t"
  by (simp add: pre_def)

lemma preD_Inl: "pre m Q E s \<Longrightarrow> m s = (Inl e, t) \<Longrightarrow> E e t"
  by (simp add: pre_def)

lemma preI:
  assumes "\<And>x t. m s = (Inr x, t) \<Longrightarrow> Q x t" "\<And>e t. m s = (Inl e, t) \<Longrightarrow> E e t"
  shows "pre m Q E s"
  using assms by (auto simp: pre_def split: prod.splits sum.splits)

lemmas exec_defs = ret_def throw_def andthen_def gets_def modify_def ensure_def lift_def
  map_err_def inside_def attempt_def

lemma run_eq: "fst p = r \<Longrightarrow> p = (r, snd p)"
  by (simp add: prod_eq_iff)

section \<open>What a computation returns, and what it keeps\<close>

named_theorems returns_intros \<open>what computations return\<close>
named_theorems keeps_intros \<open>what computations keep\<close>

text \<open>Every value \<open>m\<close> returns satisfies \<open>Q\<close>.\<close>

definition returns :: "('s, 'e, 'a) exec \<Rightarrow> ('a \<Rightarrow> bool) \<Rightarrow> bool" where
  "returns m Q \<longleftrightarrow> (\<forall>s x t. m s = (Inr x, t) \<longrightarrow> Q x)"

lemma returnsD: "returns m Q \<Longrightarrow> m s = (Inr x, t) \<Longrightarrow> Q x"
  by (auto simp: returns_def)

lemma returns_mono: "returns m Q' \<Longrightarrow> (\<And>x. Q' x \<Longrightarrow> Q x) \<Longrightarrow> returns m Q"
  by (auto simp: returns_def)

lemma returns_trivial: "returns m (\<lambda>_. True)"
  by (simp add: returns_def)

lemma returns_ret [returns_intros]: "Q x \<Longrightarrow> returns (ret x) Q"
  by (simp add: returns_def ret_def)

lemma returns_throw [returns_intros]: "returns (throw e) Q"
  by (simp add: returns_def throw_def)

lemma returns_andthen:
  "returns m Q' \<Longrightarrow> (\<And>x. Q' x \<Longrightarrow> returns (f x) Q) \<Longrightarrow> returns (andthen m f) Q"
  by (fastforce simp: returns_def andthen_def split: prod.splits sum.splits)

lemma returns_then [returns_intros]: "(\<And>x. returns (f x) Q) \<Longrightarrow> returns (andthen m f) Q"
  by (rule returns_andthen [OF returns_trivial]) simp

lemma returns_lift_then:
  "(\<And>x. r = Inr x \<Longrightarrow> returns (f x) Q) \<Longrightarrow> returns (andthen (lift r) f) Q"
  by (auto simp: returns_def andthen_def lift_def split: sum.splits)

lemma returns_ensure_then:
  "(b \<Longrightarrow> returns (f ()) Q) \<Longrightarrow> returns (andthen (ensure b e) f) Q"
  by (auto simp: returns_def andthen_def ensure_def ret_def throw_def)

lemma returns_if [returns_intros]:
  "(b \<Longrightarrow> returns m Q) \<Longrightarrow> (\<not> b \<Longrightarrow> returns n Q) \<Longrightarrow> returns (if b then m else n) Q"
  by simp

lemma returns_option [returns_intros]:
  "(x = None \<Longrightarrow> returns m Q) \<Longrightarrow> (\<And>y. x = Some y \<Longrightarrow> returns (f y) Q) \<Longrightarrow>
   returns (case x of None \<Rightarrow> m | Some y \<Rightarrow> f y) Q"
  by (cases x) simp_all

lemma returns_Let [returns_intros]: "returns (f x) Q \<Longrightarrow> returns (let y = x in f y) Q"
  by simp

lemma returns_prod [returns_intros]:
  "(\<And>a b. x = (a, b) \<Longrightarrow> returns (f a b) Q) \<Longrightarrow> returns (case x of (a, b) \<Rightarrow> f a b) Q"
  by (cases x) simp

lemma returns_list [returns_intros]:
  "(x = [] \<Longrightarrow> returns m Q) \<Longrightarrow> (\<And>y ys. x = y # ys \<Longrightarrow> returns (f y ys) Q) \<Longrightarrow>
   returns (case x of [] \<Rightarrow> m | y # ys \<Rightarrow> f y ys) Q"
  by (cases x) simp_all

text \<open>
  A computation keeps a relation when every run of it relates its first state to its
  last. For a preorder this is closed under the constructs of the computations, so an
  operation keeps it as soon as its primitive steps do.
\<close>

definition keeps :: "('s \<Rightarrow> 's \<Rightarrow> bool) \<Rightarrow> ('s, 'e, 'a) exec \<Rightarrow> bool" where
  "keeps R m \<longleftrightarrow> (\<forall>s. R s (snd (m s)))"

lemma keepsD: "keeps R m \<Longrightarrow> m s = (r, t) \<Longrightarrow> R s t"
  by (metis keeps_def snd_conv)

lemma keeps_if [keeps_intros]: "(b \<Longrightarrow> keeps R m) \<Longrightarrow> (\<not> b \<Longrightarrow> keeps R n) \<Longrightarrow> keeps R (if b then m else n)"
  by simp

lemma keeps_option [keeps_intros]:
  "(x = None \<Longrightarrow> keeps R m) \<Longrightarrow> (\<And>y. x = Some y \<Longrightarrow> keeps R (f y)) \<Longrightarrow>
   keeps R (case x of None \<Rightarrow> m | Some y \<Rightarrow> f y)"
  by (cases x) simp_all

lemma keeps_prod [keeps_intros]:
  "(\<And>a b. x = (a, b) \<Longrightarrow> keeps R (f a b)) \<Longrightarrow> keeps R (case x of (a, b) \<Rightarrow> f a b)"
  by (cases x) simp

lemma keeps_list [keeps_intros]:
  "(x = [] \<Longrightarrow> keeps R m) \<Longrightarrow> (\<And>y ys. x = y # ys \<Longrightarrow> keeps R (f y ys)) \<Longrightarrow>
   keeps R (case x of [] \<Rightarrow> m | y # ys \<Rightarrow> f y ys)"
  by (cases x) simp_all

lemma keeps_sum [keeps_intros]:
  "(\<And>e. x = Inl e \<Longrightarrow> keeps R (g e)) \<Longrightarrow> (\<And>y. x = Inr y \<Longrightarrow> keeps R (f y)) \<Longrightarrow>
   keeps R (case x of Inl e \<Rightarrow> g e | Inr y \<Rightarrow> f y)"
  by (cases x) simp_all

lemma keeps_Let [keeps_intros]: "keeps R (f x) \<Longrightarrow> keeps R (let y = x in f y)"
  by simp

locale frame =
  fixes R :: "'s \<Rightarrow> 's \<Rightarrow> bool"
  assumes refl: "R s s"
    and trans: "R s t \<Longrightarrow> R t u \<Longrightarrow> R s u"
begin

lemma keeps_ret: "keeps R (ret x)"
  by (simp add: keeps_def ret_def refl)

lemma keeps_throw: "keeps R (throw e)"
  by (simp add: keeps_def throw_def refl)

lemma keeps_gets: "keeps R (gets f)"
  by (simp add: keeps_def gets_def refl)

lemma keeps_lift: "keeps R (lift r)"
  by (simp add: keeps_def lift_def refl)

lemma keeps_ensure: "keeps R (ensure b e)"
  by (simp add: ensure_def keeps_ret keeps_throw)

lemma keeps_andthen:
  assumes "keeps R m" "\<And>x. keeps R (f x)"
  shows "keeps R (andthen m f)"
  unfolding keeps_def
proof
  fix s
  show "R s (snd (andthen m f s))"
  proof (cases "m s")
    case (Pair r t)
    have st: "R s t" using assms(1) Pair by (rule keepsD)
    show ?thesis
    proof (cases r)
      case (Inl e)
      then show ?thesis using st Pair by (simp add: andthen_def)
    next
      case (Inr x)
      have "R t (snd (f x t))" using assms(2) by (simp add: keeps_def)
      then show ?thesis using st Pair Inr trans by (simp add: andthen_def)
    qed
  qed
qed

lemma keeps_gets_then:
  assumes "\<And>s. R s (snd (f (g s) s))"
  shows "keeps R (andthen (gets g) f)"
  using assms by (simp add: keeps_def andthen_def gets_def)

lemma keeps_map_err: "keeps R m \<Longrightarrow> keeps R (map_err f m)"
  by (auto simp: keeps_def map_err_def split: prod.splits sum.splits) (metis snd_conv)+

lemma keeps_attempt: "keeps R m \<Longrightarrow> keeps R (attempt m)"
  by (auto simp: keeps_def attempt_def split: prod.splits sum.splits) (metis snd_conv)+

lemmas keeps_basic = keeps_ret keeps_throw keeps_gets keeps_lift keeps_ensure keeps_andthen

end

end
