(* ===== verification/Float_Bits.thy ===== *)
theory Float_Bits
  imports Prelude
begin

text \<open>
  Binary floating point by bit patterns. \<open>f32\<close> values are the 32-bit words of their
  encoding; the magnitude of a pattern is an exact natural number of units of the
  smallest subnormal, so every statement about rounding is about natural numbers. The
  last section has the comparisons and casts of \<open>f32\<close> the host code makes.
\<close>

section \<open>Magnitudes\<close>

text \<open>
  The value of a pattern \<open>p\<close> (its sign bit removed) of a format with \<open>mb\<close>
  mantissa bits, in units of the format's smallest subnormal. The pattern of infinity gets
  the value the next exponent would have, as IEEE 754 rounding does before it tests for
  overflow.
\<close>

definition mag :: "nat \<Rightarrow> nat \<Rightarrow> nat" where
  "mag mb p = (let e = p div 2 ^ mb; m = p mod 2 ^ mb
     in if e = 0 then m else (m + 2 ^ mb) * 2 ^ (e - 1))"

abbreviation mag32 :: "nat \<Rightarrow> nat" where "mag32 \<equiv> mag 23"
abbreviation mag16 :: "nat \<Rightarrow> nat" where "mag16 \<equiv> mag 10"
abbreviation magb16 :: "nat \<Rightarrow> nat" where "magb16 \<equiv> mag 7"

lemma mag_fields:
  "m < 2 ^ mb \<Longrightarrow> mag mb (e * 2 ^ mb + m) = (if e = 0 then m else (m + 2 ^ mb) * 2 ^ (e - 1))"
  by (simp add: mag_def)

lemma pattern_fields:
  obtains e m where "p = e * 2 ^ mb + m" "m < (2::nat) ^ mb" "p div 2 ^ mb = e" "p mod 2 ^ mb = m"
  by (rule that [of "p div 2 ^ mb" "p mod 2 ^ mb"]) (simp_all add: div_mult_mod_eq)

lemma mag_Suc: "mag mb (Suc p) = mag mb p + 2 ^ (p div 2 ^ mb - 1)"
proof -
  obtain e m where p: "p = e * 2 ^ mb + m" and m: "m < (2::nat) ^ mb" and e: "p div 2 ^ mb = e"
    by (rule pattern_fields [of p mb])
  show ?thesis
  proof (cases "Suc m = 2 ^ mb")
    case True
    have "Suc p = Suc e * 2 ^ mb + 0" using True p by simp
    with mag_fields [of 0 mb "Suc e"] have "mag mb (Suc p) = 2 ^ mb * 2 ^ e" by simp
    also have "\<dots> = (m + 1) * 2 ^ e" using True by simp
    also have "\<dots> = mag mb p + 2 ^ (e - 1)"
    proof (cases e)
      case 0
      then show ?thesis by (simp add: p mag_fields [OF m, of 0, simplified])
    next
      case (Suc k)
      have "mag mb p = (m + 2 ^ mb) * 2 ^ k" using mag_fields [OF m, of e] Suc by (simp add: p)
      also have "\<dots> = (m + (m + 1)) * 2 ^ k" using True by simp
      finally show ?thesis by (simp add: Suc algebra_simps)
    qed
    finally show ?thesis by (simp add: e)
  next
    case False
    with m have m': "Suc m < 2 ^ mb" by simp
    have "Suc p = e * 2 ^ mb + Suc m" using p by simp
    then show ?thesis
      by (simp only: e) (simp add: p mag_fields [OF m] mag_fields [OF m', simplified])
  qed
qed

lemma mag_strict_mono: "strict_mono (mag mb)"
  by (simp add: strict_mono_Suc_iff mag_Suc)

lemma mag_less_iff: "mag mb p < mag mb q \<longleftrightarrow> p < q"
  using mag_strict_mono by (rule strict_mono_less)

lemma mag_eq_iff: "mag mb p = mag mb q \<longleftrightarrow> p = q"
  using mag_strict_mono by (rule strict_mono_eq)

text \<open>Inside one binade the magnitude grows linearly with the pattern.\<close>

lemma mag_linear:
  assumes "p mod 2 ^ mb + x < 2 ^ mb"
  shows "mag mb (p + x) = mag mb p + x * 2 ^ (p div 2 ^ mb - 1)"
proof -
  obtain e m where p: "p = e * 2 ^ mb + m" and m: "m < (2::nat) ^ mb"
    and e: "p div 2 ^ mb = e" "p mod 2 ^ mb = m"
    by (rule pattern_fields [of p mb])
  have "m + x < 2 ^ mb" using assms e by simp
  from mag_fields [OF this, of e] mag_fields [OF m, of e] show ?thesis
    unfolding e by (simp add: p algebra_simps)
qed

lemma mag_linear_le:
  assumes "p mod 2 ^ mb + x \<le> 2 ^ mb"
  shows "mag mb (p + x) = mag mb p + x * 2 ^ (p div 2 ^ mb - 1)"
proof (cases x)
  case (Suc y)
  then have y: "p mod 2 ^ mb + y < 2 ^ mb" using assms by simp
  obtain e m where p: "p = e * 2 ^ mb + m" and m: "m < (2::nat) ^ mb"
    and e: "p div 2 ^ mb = e" "p mod 2 ^ mb = m"
    by (rule pattern_fields [of p mb])
  have "(p + y) div 2 ^ mb = e" using y m unfolding e p add.assoc by simp
  then show ?thesis using mag_Suc [of mb "p + y"] mag_linear [OF y] unfolding e
    by (simp add: Suc)
qed simp

section \<open>Rounding to nearest, ties to even\<close>

text \<open>\<open>n / 2 ^ k\<close> rounded to the nearest integer, ties to even.\<close>

definition rne :: "nat \<Rightarrow> nat \<Rightarrow> nat" where
  "rne n k = n div 2 ^ k +
     (if 2 ^ k < 2 * (n mod 2 ^ k) \<or> 2 * (n mod 2 ^ k) = 2 ^ k \<and> odd (n div 2 ^ k) then 1 else 0)"

definition dist :: "nat \<Rightarrow> nat \<Rightarrow> nat" where
  "dist a b = (a - b) + (b - a)"

text \<open>
  \<open>r\<close> is the correctly rounded encoding of the magnitude \<open>M\<close> among the
  patterns up to \<open>pmax\<close> whose magnitudes are \<open>f\<close>: no pattern is nearer, and
  where another is as near, \<open>r\<close> is the even one.
\<close>

definition rounds_to :: "(nat \<Rightarrow> nat) \<Rightarrow> nat \<Rightarrow> nat \<Rightarrow> nat \<Rightarrow> bool" where
  "rounds_to f pmax M r \<longleftrightarrow> r \<le> pmax \<and>
     (\<forall>g \<le> pmax. dist M (f r) \<le> dist M (f g) \<and> (dist M (f r) = dist M (f g) \<longrightarrow> g = r \<or> even r))"

lemma rounds_to_neighbour:
  assumes f: "strict_mono f" and lo: "f t \<le> M" and hi: "M < f (Suc t)" and pmax: "Suc t \<le> pmax"
    and r: "r = (if f t + f (Suc t) < 2 * M \<or> f t + f (Suc t) = 2 * M \<and> odd t then Suc t else t)"
  shows "rounds_to f pmax M r"
proof -
  have below: "f g \<le> f t" if "g \<le> t" for g
    using strict_mono_less_eq [OF f] that by simp
  have above: "f (Suc t) \<le> f g" if "\<not> g \<le> t" for g
    using strict_mono_less_eq [OF f] that by simp
  have eq: "f g = f g' \<longleftrightarrow> g = g'" for g g'
    using f by (rule strict_mono_eq)
  have "dist M (f r) \<le> dist M (f g) \<and> (dist M (f r) = dist M (f g) \<longrightarrow> g = r \<or> even r)" for g
  proof (cases "g \<le> t")
    case True
    with below [OF True] lo hi eq [of g t] show ?thesis
      by (auto simp: r dist_def)
  next
    case False
    with above [OF False] lo hi eq [of g "Suc t"] show ?thesis
      by (auto simp: r dist_def)
  qed
  moreover have "r \<le> pmax" using pmax r by simp
  ultimately show ?thesis by (simp add: rounds_to_def)
qed

text \<open>
  The usual case: in units of \<open>U\<close>, the magnitude is the integer \<open>n\<close> and the
  patterns around it are the multiples \<open>2 ^ k\<close> of it.
\<close>

lemma rounds_to_scaled:
  assumes f: "strict_mono f" and U: "0 < (U :: nat)" and pmax: "Suc t \<le> pmax"
    and lo: "f t = n div 2 ^ k * 2 ^ k * U" and hi: "f (Suc t) = (n div 2 ^ k + 1) * 2 ^ k * U"
    and par: "odd t = odd (n div 2 ^ k)"
    and r: "r = t + (rne n k - n div 2 ^ k)"
  shows "rounds_to f pmax (n * U) r"
proof (rule rounds_to_neighbour [OF f _ _ pmax])
  obtain q x where n: "n = q * 2 ^ k + x" and x: "x < 2 ^ k" and q: "n div 2 ^ k = q" "n mod 2 ^ k = x"
    by (rule that [of "n div 2 ^ k" "n mod 2 ^ k"]) (simp_all add: div_mult_mod_eq)
  show "f t \<le> n * U" unfolding lo q by (simp add: n)
  have "n < (q + 1) * 2 ^ k" using x by (simp add: n)
  then show "n * U < f (Suc t)" unfolding hi q using U by simp
  have sum: "f t + f (Suc t) = (2 * q + 1) * 2 ^ k * U" unfolding lo hi q by (simp add: algebra_simps)
  have "f t + f (Suc t) < 2 * (n * U) \<longleftrightarrow> (2 * q + 1) * 2 ^ k * U < (2 * n) * U"
    unfolding sum by (simp only: mult.assoc)
  also have "\<dots> \<longleftrightarrow> 2 ^ k < 2 * x" using U by (simp add: n)
  finally have gt: "f t + f (Suc t) < 2 * (n * U) \<longleftrightarrow> 2 ^ k < 2 * x" .
  have "f t + f (Suc t) = 2 * (n * U) \<longleftrightarrow> (2 * q + 1) * 2 ^ k * U = (2 * n) * U"
    unfolding sum by (simp only: mult.assoc)
  also have "\<dots> \<longleftrightarrow> 2 * x = 2 ^ k" using U by (auto simp: n)
  finally have eq: "f t + f (Suc t) = 2 * (n * U) \<longleftrightarrow> 2 * x = 2 ^ k" .
  show "r = (if f t + f (Suc t) < 2 * (n * U) \<or> f t + f (Suc t) = 2 * (n * U) \<and> odd t then Suc t else t)"
    unfolding gt eq r rne_def q using par q by simp
qed

text \<open>Past the last pattern, the last pattern is the nearest.\<close>

lemma rounds_to_last:
  assumes f: "strict_mono f" and M: "f pmax \<le> M"
  shows "rounds_to f pmax M pmax"
  unfolding rounds_to_def
proof (intro conjI allI impI)
  fix g assume "g \<le> pmax"
  then have "f g \<le> f pmax" using strict_mono_less_eq [OF f] by simp
  with M show "dist M (f pmax) \<le> dist M (f g)" by (simp add: dist_def)
  assume "dist M (f pmax) = dist M (f g)"
  with M \<open>f g \<le> f pmax\<close> have "f g = f pmax" by (simp add: dist_def)
  then show "g = pmax \<or> even pmax" using strict_mono_eq [OF f] by simp
qed simp

lemma rounds_to_exact:
  assumes f: "strict_mono f" and g: "g \<le> pmax" and r: "rounds_to f pmax (f g) r"
  shows "r = g"
proof -
  from r g have "dist (f g) (f r) \<le> dist (f g) (f g)" by (simp add: rounds_to_def)
  then have "f r = f g" by (auto simp: dist_def)
  then show ?thesis using strict_mono_eq [OF f] by simp
qed

lemma rne_le_Suc: "rne n k = n div 2 ^ k \<or> rne n k = Suc (n div 2 ^ k)"
  by (simp add: rne_def)

section \<open>Fields of an f32\<close>

definition f32_sign :: "f32 \<Rightarrow> nat" where "f32_sign v = unat v div 2 ^ 31"
definition f32_pattern :: "f32 \<Rightarrow> nat" where "f32_pattern v = unat v mod 2 ^ 31"
definition f32_exp :: "f32 \<Rightarrow> nat" where "f32_exp v = f32_pattern v div 2 ^ 23"
definition f32_man :: "f32 \<Rightarrow> nat" where "f32_man v = f32_pattern v mod 2 ^ 23"

lemmas f32_fields = f32_sign_def f32_pattern_def f32_exp_def f32_man_def

definition is_nan :: "f32 \<Rightarrow> bool" where
  "is_nan v \<longleftrightarrow> f32_exp v = 255 \<and> f32_man v \<noteq> 0"

definition is_finite :: "f32 \<Rightarrow> bool" where
  "is_finite v \<longleftrightarrow> f32_exp v < 255"

lemma f32_split: "unat v = f32_sign v * 2 ^ 31 + f32_exp v * 2 ^ 23 + f32_man v"
  by (simp add: f32_fields)

lemma f32_bounds: "f32_sign v < 2" "f32_exp v < 256" "f32_man v < 2 ^ 23" "f32_pattern v < 2 ^ 31"
proof -
  have "unat v < 2 ^ 32" using unsigned_less [of v] by simp
  then show "f32_sign v < 2" by (simp add: f32_sign_def)
  show "f32_pattern v < 2 ^ 31" by (simp add: f32_pattern_def)
  then show "f32_exp v < 256" by (simp add: f32_exp_def)
  show "f32_man v < 2 ^ 23" by (simp add: f32_man_def)
qed

section \<open>Comparisons and casts the host code makes\<close>

text \<open>The magnitude of a finite value in units of \<open>2 ^ -149\<close>, and its sign.\<close>

definition f32_mag :: "f32 \<Rightarrow> nat" where "f32_mag v = mag32 (f32_pattern v)"

text \<open>\<open>value >= 0.0\<close> and \<open>value <= 0.0\<close>: a NaN compares false with everything,
  and both zeros are equal to \<open>0.0\<close>.\<close>

definition f32_ge_zero :: "f32 \<Rightarrow> bool" where
  "f32_ge_zero v \<longleftrightarrow> \<not> is_nan v \<and> (f32_sign v = 0 \<or> f32_pattern v = 0)"

definition f32_le_zero :: "f32 \<Rightarrow> bool" where
  "f32_le_zero v \<longleftrightarrow> \<not> is_nan v \<and> (f32_sign v = 1 \<or> f32_pattern v = 0)"

text \<open>\<open>value == value.floor()\<close>: an integer, or an infinity (\<open>floor\<close> keeps it).\<close>

definition f32_is_integral :: "f32 \<Rightarrow> bool" where
  "f32_is_integral v \<longleftrightarrow>
     (if is_finite v then 2 ^ 149 dvd f32_mag v else \<not> is_nan v)"

text \<open>\<open>value as u64\<close> truncates towards zero and saturates; a NaN gives 0.\<close>

definition f32_as_u64 :: "f32 \<Rightarrow> u64" where
  "f32_as_u64 v =
     (if is_nan v \<or> f32_sign v = 1 then 0
      else if f32_exp v = 255 then - 1
      else of_nat (min (f32_mag v div 2 ^ 149) (2 ^ 64 - 1)))"

text \<open>
  \<open>value as f32\<close> of an \<open>f64\<close> (its bit pattern): round to nearest even, NaN to a quiet NaN.
\<close>

definition f64_as_f32 :: "u64 \<Rightarrow> f32" where
  "f64_as_f32 v =
     (let s = unat v div 2 ^ 63; e = unat v div 2 ^ 52 mod 2 ^ 11; m = unat v mod 2 ^ 52;
          p = (if e = 2047 then
                 (if m = 0 then 255 * 2 ^ 23 else 255 * 2 ^ 23 + 2 ^ 22 + m div 2 ^ 29 mod 2 ^ 22)
               else if e \<ge> 897 then min (255 * 2 ^ 23) (rne ((e - 896) * 2 ^ 52 + m) 29)
               else if e < 870 then 0
               else rne (m + 2 ^ 52) (926 - e))
      in of_nat (s * 2 ^ 31 + p))"

end
