(* ===== verification/Half_Precision.thy ===== *)
theory Half_Precision
  imports Float_Bits
begin

text \<open>
  \<open>src/half_precision.rs\<close>: the conversions between binary16, bfloat16 and \<open>f32\<close>,
  bit for bit, and what they compute: decoding is exact, encoding rounds to nearest with
  ties to even, and encoding a decoded value gives the pattern back.
\<close>

section \<open>The conversions\<close>

text \<open>
  The loop \<open>while mantissa & 0x400 == 0\<close> of \<open>f16_to_f32\<close>; \<open>None\<close> is a
  loop that never ends.
\<close>

partial_function (option) renormalize :: "u32 \<Rightarrow> u32 \<Rightarrow> (u32 \<times> u32) option" where
  "renormalize mantissa shift =
     (if mantissa AND 0x400 = 0 then renormalize (push_bit 1 mantissa) (shift + 1)
      else Some (mantissa, shift))"

definition f16_to_f32 :: "u16 \<Rightarrow> f32 option" where
  "f16_to_f32 bits =
     (let sign = push_bit 31 (ucast (drop_bit 15 bits) :: u32);
          exponent = drop_bit 10 bits AND 0x1F;
          mantissa = (ucast (bits AND 0x3FF) :: u32);
          magnitude_bits =
            (if exponent = 0 then
               (if mantissa = 0 then Some 0
                else (case renormalize mantissa 0 of
                  None \<Rightarrow> None
                | Some (mantissa, shift) \<Rightarrow>
                    (let mantissa = mantissa AND 0x3FF;
                         f32_exponent = 127 - 15 - shift + 1
                     in Some (push_bit 23 f32_exponent OR push_bit 13 mantissa))))
             else if exponent = 0x1F then Some (push_bit 23 0xFF OR push_bit 13 mantissa)
             else (let f32_exponent = (ucast exponent :: u32) - 15 + 127
                   in Some (push_bit 23 f32_exponent OR push_bit 13 mantissa)))
      in map_option (\<lambda>magnitude. sign OR magnitude) magnitude_bits)"

definition bf16_to_f32 :: "u16 \<Rightarrow> f32" where
  "bf16_to_f32 bits = push_bit 16 (ucast bits :: u32)"

text \<open>
  The \<open>i32\<close> values of \<open>f32_to_f16\<close> stay between \<open>-127\<close> and \<open>255\<close>, so they are
  integers here.
\<close>

definition f32_to_f16 :: "f32 \<Rightarrow> u16" where
  "f32_to_f16 bits =
     (let sign = (ucast (drop_bit 16 bits AND 0x8000) :: u16);
          mantissa_f32 = bits AND 0x007FFFFF;
          exp_f32 = uint (drop_bit 23 bits AND 0xFF)
      in if exp_f32 = 0xFF then
           (if mantissa_f32 = 0 then sign OR 0x7C00
            else (let payload = (ucast (drop_bit 13 mantissa_f32) :: u16);
                      payload = (if payload = 0 then 1 else payload)
                  in sign OR 0x7C00 OR payload))
         else
           (let unbiased = exp_f32 - 127
            in if unbiased > 15 then sign OR 0x7C00
               else if unbiased < - 14 then
                 (let significand = (if exp_f32 = 0 then mantissa_f32
                                     else mantissa_f32 OR 0x00800000)
                  in if significand = 0 then sign
                     else (let shift = (word_of_int (- (unbiased + 1)) :: u32)
                           in if shift \<ge> 32 then sign
                              else (let half = push_bit (unat (shift - 1)) 1;
                                        mask = push_bit (unat shift) 1 - 1;
                                        truncated = drop_bit (unat shift) significand;
                                        remainder = significand AND mask;
                                        result = truncated;
                                        result = (if remainder > half \<or>
                                                     remainder = half \<and> result AND 1 = 1
                                                  then result + 1 else result)
                                    in sign OR ucast result)))
               else
                 (let half = push_bit 12 1;
                      mask = push_bit 13 1 - 1;
                      truncated = drop_bit 13 mantissa_f32;
                      remainder = mantissa_f32 AND mask;
                      mantissa10 = truncated;
                      mantissa10 = (if remainder > half \<or>
                                       remainder = half \<and> mantissa10 AND 1 = 1
                                    then mantissa10 + 1 else mantissa10);
                      exp16 = (word_of_int (unbiased + 15) :: u32)
                  in if mantissa10 = 0x400 then
                       (let new_exp = exp16 + 1
                        in if new_exp \<ge> 0x1F then sign OR 0x7C00
                           else sign OR push_bit 10 (ucast new_exp :: u16))
                     else sign OR push_bit 10 (ucast exp16 :: u16) OR ucast mantissa10)))"

definition f32_to_bf16 :: "f32 \<Rightarrow> u16" where
  "f32_to_bf16 bits =
     (if is_nan bits then
        (let sign = (ucast (drop_bit 16 bits AND 0x8000) :: u16);
             mantissa7 = (ucast (drop_bit 16 bits) :: u16) AND 0x7F;
             mantissa7 = (if mantissa7 = 0 then 0x40 else mantissa7)
         in sign OR 0x7F80 OR mantissa7)
      else
        (let rounding_bias = 0x00007FFF + (drop_bit 16 bits AND 1);
             rounded = bits + rounding_bias
         in ucast (drop_bit 16 rounded)))"

section \<open>Fields of a half\<close>

definition half_sign :: "u16 \<Rightarrow> nat" where "half_sign h = unat h div 2 ^ 15"
definition half_pattern :: "u16 \<Rightarrow> nat" where "half_pattern h = unat h mod 2 ^ 15"

lemma unat_lt2p_16: "unat (h :: u16) < 2 ^ 16"
  using unsigned_less [of h] by simp

lemma half_bounds: "half_sign h < 2" "half_pattern h < 2 ^ 15"
  using unat_lt2p_16 [of h] by (auto simp: half_sign_def half_pattern_def)

lemma half_split: "unat h = half_sign h * 2 ^ 15 + half_pattern h"
  by (simp add: half_sign_def half_pattern_def)

lemma half_eqI: "half_sign g = half_sign h \<Longrightarrow> half_pattern g = half_pattern h \<Longrightarrow> g = h"
  by (metis half_split word_unat_eq_iff)

section \<open>Assembling words from fields\<close>

lemma pack_sign32: "unat (S :: u32) < 2 \<Longrightarrow> unat G < 2 ^ 31 \<Longrightarrow>
    unat (push_bit 31 S OR G) = unat S * 2 ^ 31 + unat G"
  by (subst unat_or_disjoint [of 31]) (auto simp: unat_push_bit)

lemma pack_fields32: "unat (A :: u32) < 256 \<Longrightarrow> unat B < 2 ^ 10 \<Longrightarrow>
    unat (push_bit 23 A OR push_bit 13 B) = unat A * 2 ^ 23 + unat B * 2 ^ 13"
  by (subst unat_or_disjoint [of 23]) (auto simp: unat_push_bit)

lemma pack_sign16:
  assumes "unat S = s * 2 ^ 15" "unat G < 2 ^ 15"
  shows "unat ((S :: u16) OR G) = s * 2 ^ 15 + unat G"
  using assms by (subst unat_or_disjoint [of 15]) auto

lemma and_0x400: "(w AND 0x400 = 0) = even (unat w div 2 ^ 10)" for w :: u32
proof -
  have "(w AND 0x400 = 0) = (unat (w AND 0x400) = 0)" by (simp only: unat_eq_zero)
  also have "\<dots> = (unat w AND 2 ^ 10 = 0)" by (simp add: unsigned_and_eq)
  also have "\<dots> = even (unat w div 2 ^ 10)"
    by (simp only: and_exp_eq_0_iff_not_bit bit_iff_odd not_not)
  finally show ?thesis .
qed

lemma renormalize_returns:
  assumes "0 < unat m" "unat m < 2 ^ 11"
  shows "\<exists>k \<le> 10. 2 ^ 10 \<le> unat m * 2 ^ k \<and> unat m * 2 ^ k < 2 ^ 11 \<and>
           (\<exists>m'. renormalize m s = Some (m', s + of_nat k) \<and> unat m' = unat m * 2 ^ k)"
  using assms
proof (induction "2 ^ 11 - unat m" arbitrary: m s rule: less_induct)
  case less
  show ?case
  proof (cases "unat m < 2 ^ 10")
    case True
    let ?m = "push_bit 1 m :: u32"
    have m: "unat ?m = unat m * 2" using True by (simp only: unat_push_bit) simp
    have "2 ^ 11 - unat ?m < 2 ^ 11 - unat m" using True less.prems(1) unfolding m by simp
    from less.hyps [OF this, of "s + 1"] less.prems True obtain k m' where
      k: "k \<le> 10" "2 ^ 10 \<le> unat m * 2 * 2 ^ k" "unat m * 2 * 2 ^ k < 2 ^ 11"
      and r: "renormalize ?m (s + 1) = Some (m', s + 1 + of_nat k)" "unat m' = unat m * 2 * 2 ^ k"
      unfolding m by auto
    have "m AND 0x400 = 0" using True by (simp add: and_0x400)
    then have "renormalize m s = renormalize ?m (s + 1)" by (subst renormalize.simps) simp
    moreover have "Suc k \<le> 10"
    proof (rule ccontr)
      assume "\<not> Suc k \<le> 10"
      with k(1) have "k = 10" by simp
      with k(3) less.prems show False by simp
    qed
    ultimately show ?thesis using k r
      by (intro exI [of _ "Suc k"]) (auto simp: algebra_simps)
  next
    case False
    with less.prems have "unat m div 2 ^ 10 = 1" by simp
    then have "m AND 0x400 \<noteq> 0" by (simp add: and_0x400)
    then have "renormalize m s = Some (m, s)" by (subst renormalize.simps) simp
    with False less.prems show ?thesis by (intro exI [of _ 0]) auto
  qed
qed

section \<open>Decoding, field by field\<close>

definition half_exp :: "u16 \<Rightarrow> nat" where "half_exp h = half_pattern h div 2 ^ 10"
definition half_man :: "u16 \<Rightarrow> nat" where "half_man h = half_pattern h mod 2 ^ 10"

lemma half_field_bounds: "half_exp h < 32" "half_man h < 2 ^ 10"
  using half_bounds [of h] by (auto simp: half_exp_def half_man_def)

lemma half_words:
  "unat (ucast (drop_bit 15 h) :: u32) = half_sign h"
  "unat (drop_bit 10 h AND 0x1F) = half_exp h"
  "unat (ucast (h AND 0x3FF) :: u32) = half_man h"
proof -
  have m: "(0x1F :: u16) = mask 5" "(0x3FF :: u16) = mask 10" by (simp_all add: mask_eq_exp_minus_1)
  have b: "unat h < 2 ^ 16" by (rule unat_lt2p_16)
  show "unat (ucast (drop_bit 15 h) :: u32) = half_sign h"
    using b by (simp add: unat_simps half_sign_def)
  show "unat (drop_bit 10 h AND 0x1F) = half_exp h"
    unfolding m unat_simps half_exp_def half_pattern_def by (simp add: mod_mult2_eq [of _ "2 ^ 10" "2 ^ 5", simplified])
  show "unat (ucast (h AND 0x3FF) :: u32) = half_man h"
    unfolding m unat_simps half_man_def half_pattern_def by (simp add: mod_mod_cancel)
qed

lemma f32_of_fields:
  assumes "unat v = s * 2 ^ 31 + e * 2 ^ 23 + m" "e < 256" "m < 2 ^ 23"
  shows "f32_sign v = s" "f32_pattern v = e * 2 ^ 23 + m" "f32_exp v = e" "f32_man v = m"
proof -
  have b: "e * 2 ^ 23 + m < 2 ^ 31" using assms(2,3) by simp
  show "f32_sign v = s" using b unfolding f32_sign_def assms(1) by simp
  show p: "f32_pattern v = e * 2 ^ 23 + m"
    using b unfolding f32_pattern_def assms(1) add.assoc by simp
  show "f32_exp v = e" "f32_man v = m" unfolding f32_exp_def f32_man_def p using assms(3) by auto
qed

text \<open>What the decoder returns in each of its four cases; in particular, it returns.\<close>

lemma decode_zero: "half_exp h = 0 \<Longrightarrow> half_man h = 0 \<Longrightarrow>
    \<exists>v. f16_to_f32 h = Some v \<and> unat v = half_sign h * 2 ^ 31"
proof -
  assume "half_exp h = 0" "half_man h = 0"
  with half_words [of h] have "drop_bit 10 h AND 0x1F = 0" "(ucast (h AND 0x3FF) :: u32) = 0"
    by (metis unat_eq_zero)+
  then show ?thesis using half_words [of h] half_bounds [of h]
    by (simp add: f16_to_f32_def unat_push_bit del: push_bit_numeral push_bit_of_1)
qed

lemma decode_packed:
  assumes "f16_to_f32 h = Some (push_bit 31 (ucast (drop_bit 15 h)) OR (push_bit 23 A OR push_bit 13 B))"
    and "unat A < 256" "unat B < 2 ^ 10"
  shows "\<exists>v. f16_to_f32 h = Some v \<and>
           unat v = half_sign h * 2 ^ 31 + unat A * 2 ^ 23 + unat B * 2 ^ 13"
proof -
  have f: "unat (push_bit 23 A OR push_bit 13 B) = unat A * 2 ^ 23 + unat B * 2 ^ 13"
    using assms by (intro pack_fields32)
  let ?v = "push_bit 31 (ucast (drop_bit 15 h)) OR (push_bit 23 A OR push_bit 13 B)"
  have "unat ?v = unat (ucast (drop_bit 15 h) :: u32) * 2 ^ 31 + unat (push_bit 23 A OR push_bit 13 B)"
  proof (rule pack_sign32)
    show "unat (ucast (drop_bit 15 h) :: u32) < 2" using half_words(1) [of h] half_bounds [of h] by simp
    show "unat (push_bit 23 A OR push_bit 13 B) < 2 ^ 31" unfolding f using assms(2,3) by simp
  qed
  then show ?thesis using assms(1) half_words(1) [of h] f by auto
qed

lemma decode_subnormal:
  assumes "half_exp h = 0" "half_man h \<noteq> 0"
  shows "\<exists>v k. f16_to_f32 h = Some v \<and> k \<le> 10 \<and> 2 ^ 10 \<le> half_man h * 2 ^ k \<and>
           half_man h * 2 ^ k < 2 ^ 11 \<and>
           unat v = half_sign h * 2 ^ 31 + (113 - k) * 2 ^ 23 + (half_man h * 2 ^ k - 2 ^ 10) * 2 ^ 13"
proof -
  let ?M = "ucast (h AND 0x3FF) :: u32"
  have z: "drop_bit 10 h AND 0x1F = 0" "?M \<noteq> 0"
    using half_words [of h] assms by (metis unat_eq_zero)+
  obtain k m' where k: "k \<le> 10" "2 ^ 10 \<le> half_man h * 2 ^ k" "half_man h * 2 ^ k < 2 ^ 11"
    and r: "renormalize ?M 0 = Some (m', of_nat k)" "unat m' = half_man h * 2 ^ k"
    using renormalize_returns [of ?M 0] half_words(3) [of h] half_field_bounds [of h] assms(2) by auto
  let ?A = "127 - 15 - of_nat k + 1 :: u32" and ?B = "m' AND 0x3FF"
  have A': "?A = of_nat (113 - k)" using k(1) by (simp add: of_nat_diff)
  have A: "unat ?A = 113 - k" unfolding A' using k(1) by (simp only: unat_of_nat) simp
  have m: "(0x3FF :: u32) = mask 10" by (simp add: mask_eq_exp_minus_1)
  have B: "unat ?B = half_man h * 2 ^ k - 2 ^ 10"
    unfolding m unat_and_mask r(2) using k by (simp add: le_mod_geq)
  have "f16_to_f32 h = Some (push_bit 31 (ucast (drop_bit 15 h)) OR (push_bit 23 ?A OR push_bit 13 ?B))"
    using z r(1) by (simp add: f16_to_f32_def Let_def)
  moreover have "unat ?A < 256" unfolding A by simp
  moreover have "unat ?B < 2 ^ 10" unfolding B using k by simp
  ultimately obtain v where "f16_to_f32 h = Some v"
    "unat v = half_sign h * 2 ^ 31 + unat ?A * 2 ^ 23 + unat ?B * 2 ^ 13"
    using decode_packed by blast
  with k show ?thesis unfolding A B by blast
qed

lemma decode_normal:
  assumes "half_exp h \<noteq> 0" "half_exp h \<noteq> 31"
  shows "\<exists>v. f16_to_f32 h = Some v \<and>
           unat v = half_sign h * 2 ^ 31 + (half_exp h + 112) * 2 ^ 23 + half_man h * 2 ^ 13"
proof -
  let ?E = "drop_bit 10 h AND 0x1F"
  let ?A = "(ucast ?E :: u32) - 15 + 127" and ?B = "ucast (h AND 0x3FF) :: u32"
  have z: "?E \<noteq> 0" "?E \<noteq> 0x1F" using half_words(2) [of h] assms by auto
  have "?A = ucast ?E + 112" by simp
  then have A: "unat ?A = half_exp h + 112"
    using half_words(2) [of h] half_field_bounds [of h]
    by (simp add: unat_word_ariths unat_ucast_mod)
  have "f16_to_f32 h = Some (push_bit 31 (ucast (drop_bit 15 h)) OR (push_bit 23 ?A OR push_bit 13 ?B))"
    using z by (simp add: f16_to_f32_def Let_def)
  from decode_packed [OF this] half_words(3) [of h] half_field_bounds [of h] show ?thesis
    unfolding A by auto
qed

lemma decode_special:
  assumes "half_exp h = 31"
  shows "\<exists>v. f16_to_f32 h = Some v \<and>
           unat v = half_sign h * 2 ^ 31 + 255 * 2 ^ 23 + half_man h * 2 ^ 13"
proof -
  let ?B = "ucast (h AND 0x3FF) :: u32"
  have "unat (drop_bit 10 h AND 0x1F) = unat (0x1F :: u16)" using half_words(2) [of h] assms by simp
  then have z: "drop_bit 10 h AND 0x1F = 0x1F" by (simp only: word_unat_eq_iff)
  have "f16_to_f32 h = Some (push_bit 31 (ucast (drop_bit 15 h)) OR (push_bit 23 0xFF OR push_bit 13 ?B))"
    unfolding f16_to_f32_def Let_def z by simp
  from decode_packed [OF this] half_words(3) [of h] half_field_bounds [of h] show ?thesis by auto
qed

text \<open>
  Decoding is exact: the loop ends, the sign is kept, and a finite half's magnitude (in
  units of \<open>2 ^ -24\<close>) is the \<open>f32\<close> result's (in units of \<open>2 ^ -149\<close>).
\<close>

lemma half_mag:
  "mag16 (half_pattern h) =
     (if half_exp h = 0 then half_man h else (half_man h + 2 ^ 10) * 2 ^ (half_exp h - 1))"
  by (simp add: mag_def half_exp_def half_man_def Let_def)

lemma f32_mag_fields:
  "f32_mag v = (if f32_exp v = 0 then f32_man v else (f32_man v + 2 ^ 23) * 2 ^ (f32_exp v - 1))"
  by (simp add: f32_mag_def mag_def f32_exp_def f32_man_def Let_def)

lemma decode_finite:
  assumes "half_exp h < 31"
  shows "\<exists>v. f16_to_f32 h = Some v \<and> f32_sign v = half_sign h \<and> f32_exp v < 143 \<and>
           f32_mag v = mag16 (half_pattern h) * 2 ^ 125"
proof -
  consider (zero) "half_exp h = 0" "half_man h = 0" | (subnormal) "half_exp h = 0" "half_man h \<noteq> 0"
    | (normal) "half_exp h \<noteq> 0" "half_exp h \<noteq> 31"
    using assms by linarith
  then show ?thesis
  proof cases
    case zero
    then obtain v where v: "f16_to_f32 h = Some v" and "unat v = half_sign h * 2 ^ 31"
      using decode_zero by blast
    then have "unat v = half_sign h * 2 ^ 31 + 0 * 2 ^ 23 + 0" by simp
    note f = f32_of_fields [OF this]
    show ?thesis using v f zero by (simp add: f32_mag_fields half_mag)
  next
    case subnormal
    then obtain v k where v: "f16_to_f32 h = Some v" and k: "k \<le> 10" "2 ^ 10 \<le> half_man h * 2 ^ k"
        "half_man h * 2 ^ k < 2 ^ 11" and
      u: "unat v = half_sign h * 2 ^ 31 + (113 - k) * 2 ^ 23 + (half_man h * 2 ^ k - 2 ^ 10) * 2 ^ 13"
      using decode_subnormal by blast
    have "(half_man h * 2 ^ k - 2 ^ 10) * 2 ^ 13 < 2 ^ 23" using k by simp
    note f = f32_of_fields [OF u _ this]
    have "(half_man h * 2 ^ k - 2 ^ 10) * 2 ^ 13 + 2 ^ 23 = half_man h * 2 ^ k * 2 ^ 13"
      using k(2) by (simp add: diff_mult_distrib)
    then have "f32_mag v = half_man h * 2 ^ k * 2 ^ 13 * 2 ^ (112 - k)"
      using f k(1) by (simp add: f32_mag_fields)
    also have "\<dots> = half_man h * (2 ^ k * 2 ^ (112 - k)) * 2 ^ 13" by (simp only: mult_ac)
    also have "(2::nat) ^ k * 2 ^ (112 - k) = 2 ^ 112" using k(1) by (simp flip: power_add)
    finally show ?thesis using v f k(1) subnormal by (simp add: half_mag)
  next
    case normal
    then obtain v where v: "f16_to_f32 h = Some v" and
      u: "unat v = half_sign h * 2 ^ 31 + (half_exp h + 112) * 2 ^ 23 + half_man h * 2 ^ 13"
      using decode_normal by blast
    have b: "half_exp h + 112 < 256" "half_man h * 2 ^ 13 < 2 ^ 23" "half_exp h + 112 < 143"
      using half_field_bounds [of h] normal by simp_all
    note f = f32_of_fields [OF u b(1,2)]
    have "f32_mag v = (half_man h + 2 ^ 10) * 2 ^ 13 * 2 ^ (half_exp h + 111)"
      using f normal by (simp add: f32_mag_fields)
    also have "half_exp h + 111 = (half_exp h - 1) + 112" using normal by simp
    finally have "f32_mag v = (half_man h + 2 ^ 10) * 2 ^ (half_exp h - 1) * (2 ^ 13 * 2 ^ 112)"
      by (simp only: power_add mult_ac)
    then show ?thesis using v f b(3) normal by (simp add: half_mag)
  qed
qed

section \<open>Encoding, field by field\<close>

lemma and_exp_nat: "(a :: nat) AND 2 ^ k = (a div 2 ^ k mod 2) * 2 ^ k"
proof -
  have "a AND 2 ^ k = push_bit k (drop_bit k a AND 1)"
    by (rule bit_eqI) (auto simp: bit_simps, simp_all add: bit_iff_odd_drop_bit)
  then show ?thesis by (simp add: push_bit_eq_mult drop_bit_eq_div and_one_eq)
qed

lemma sign_word: "unat (ucast (drop_bit 16 v AND 0x8000) :: u16) = f32_sign v * 2 ^ 15" for v :: f32
proof -
  have "unat (drop_bit 16 v AND 0x8000) = unat (drop_bit 16 v) AND 2 ^ 15"
    by (simp add: unsigned_and_eq)
  also have "\<dots> = (unat v div 2 ^ 16 div 2 ^ 15 mod 2) * 2 ^ 15"
    by (simp only: and_exp_nat unat_drop_bit)
  also have "unat v div 2 ^ 16 div 2 ^ 15 = f32_sign v"
    by (simp add: div_mult2_eq [symmetric] f32_sign_def)
  finally show ?thesis using f32_bounds(1) [of v] by (simp add: unat_ucast_mod)
qed

lemma f32_words:
  "unat (v AND 0x007FFFFF) = f32_man v" "unat (drop_bit 23 v AND 0xFF) = f32_exp v"
proof -
  have m: "(0x007FFFFF :: u32) = mask 23" "(0xFF :: u32) = mask 8" by (simp_all add: mask_eq_exp_minus_1)
  show "unat (v AND 0x007FFFFF) = f32_man v"
    unfolding m unat_simps f32_man_def f32_pattern_def by (simp add: mod_mod_cancel)
  have "unat v mod (2 ^ 23 * 2 ^ 8) div 2 ^ 23 = unat v div 2 ^ 23 mod 2 ^ 8"
    by (simp only: mod_mult2_eq) simp
  then show "unat (drop_bit 23 v AND 0xFF) = f32_exp v"
    unfolding m unat_simps f32_exp_def f32_pattern_def by simp
qed

text \<open>The rounding step of the code, on words, is \<open>rne\<close>.\<close>

lemma round_word:
  assumes k: "0 < k" "k < 32" and t: "unat w div 2 ^ k + 1 < 2 ^ 32"
  defines "r \<equiv> w AND (push_bit k 1 - 1)"
  shows "unat (if r > push_bit (k - 1) 1 \<or> r = push_bit (k - 1) 1 \<and> drop_bit k w AND 1 = 1
               then drop_bit k w + 1 else drop_bit k w) = rne (unat (w :: u32)) k"
proof -
  have "push_bit k 1 - 1 = (mask k :: u32)" by (simp add: mask_eq_exp_minus_1 push_bit_eq_mult)
  then have r: "unat r = unat w mod 2 ^ k" by (simp add: r_def unat_and_mask)
  have pk: "(2::nat) ^ (k - 1) < 2 ^ 32" using k by (intro power_strict_increasing) auto
  then have h: "unat (push_bit (k - 1) 1 :: u32) = 2 ^ (k - 1)" by (simp only: unat_push_bit) simp
  have half: "2 * 2 ^ (k - 1) = (2::nat) ^ k" using k(1) by (simp flip: power_Suc)
  have gt: "r > push_bit (k - 1) 1 \<longleftrightarrow> 2 ^ k < 2 * (unat w mod 2 ^ k)"
    unfolding word_less_nat_alt r h half [symmetric] by simp
  have eq: "r = push_bit (k - 1) 1 \<longleftrightarrow> 2 * (unat w mod 2 ^ k) = 2 ^ k"
    unfolding word_unat_eq_iff r h half [symmetric] by simp
  have odd: "drop_bit k w AND 1 = 1 \<longleftrightarrow> odd (unat w div 2 ^ k)"
    by (simp add: word_unat_eq_iff and_one_eq unat_mod unat_drop_bit odd_iff_mod_2_eq_one)
  have "unat (drop_bit k w + 1) = unat w div 2 ^ k + 1"
    using t by (simp add: unat_word_ariths unat_drop_bit)
  then show ?thesis unfolding gt eq odd rne_def by (simp add: unat_drop_bit)
qed

lemma rne_less:
  assumes "n < b * 2 ^ k" shows "rne n k \<le> b"
proof -
  have "n div 2 ^ k < b" using assms by (simp add: less_mult_imp_div_less)
  then show ?thesis using rne_le_Suc [of n k] by auto
qed

lemma rne_add: "even a \<Longrightarrow> rne (a * 2 ^ k + m) k = a + rne m k"
  by (auto simp: rne_def)

text \<open>
  The pattern \<open>f32_to_f16\<close> gives a finite magnitude: overflow, the subnormal path
  (zero where the shift passes 31), and the normal path, where a carry out of the
  mantissa is a carry into the exponent.
\<close>

definition encode16 :: "nat \<Rightarrow> nat \<Rightarrow> nat" where
  "encode16 e m =
     (if e > 142 then 31744
      else if e < 113 then
        (let significand = (if e = 0 then m else m + 2 ^ 23)
         in if 126 - e \<ge> 32 then 0 else rne significand (126 - e))
      else rne ((e - 112) * 2 ^ 23 + m) 13)"

lemma f32_exp_uint: "uint (drop_bit 23 v AND 0xFF) = int (f32_exp v)"
  by (metis f32_words(2) uint_nat)

lemma or_hidden_bit: "unat ((v AND 0x007FFFFF) OR 0x00800000) = f32_man v + 2 ^ 23" for v :: f32
proof -
  have "unat (0x00800000 OR (v AND 0x007FFFFF)) = unat (0x00800000 :: u32) + unat (v AND 0x007FFFFF)"
    by (rule unat_or_disjoint [of 23]) (simp_all only: f32_words f32_bounds, simp)
  then show ?thesis by (simp add: or.commute f32_words(1))
qed

lemma encode_small:
  assumes "f32_exp v < 113"
  shows "unat (f32_to_f16 v) = f32_sign v * 2 ^ 15 + encode16 (f32_exp v) (f32_man v)"
proof -
  define e where "e = f32_exp v"
  define sg where "sg = (if e = 0 then v AND 0x007FFFFF else (v AND 0x007FFFFF) OR 0x00800000)"
  define sh where "sh = (word_of_int (- (int e - 127 + 1)) :: u32)"
  let ?s = "ucast (drop_bit 16 v AND 0x8000) :: u16"
  have e: "e < 113" using assms by (simp add: e_def)
  have usg: "unat sg = (if e = 0 then f32_man v else f32_man v + 2 ^ 23)"
    by (simp add: sg_def f32_words or_hidden_bit)
  then have bsg: "unat sg < 2 ^ 24" using f32_bounds(3) [of v] by (simp split: if_splits)
  have "sh = of_nat (126 - e)" using e by (simp add: sh_def of_nat_diff)
  then have ush: "unat sh = 126 - e" by (simp add: unat_of_nat)
  define rw where "rw = (if sg AND (push_bit (unat sh) 1 - 1) > push_bit (unat (sh - 1)) 1 \<or>
          sg AND (push_bit (unat sh) 1 - 1) = push_bit (unat (sh - 1)) 1 \<and> drop_bit (unat sh) sg AND 1 = 1
       then drop_bit (unat sh) sg + 1 else drop_bit (unat sh) sg)"
  have def16: "f32_to_f16 v = (if sg = 0 \<or> sh \<ge> 32 then ?s else ?s OR ucast rw)"
    using e unfolding f32_to_f16_def Let_def f32_exp_uint e_def [symmetric] sg_def sh_def rw_def
    by simp
  show ?thesis
  proof (cases "sg = 0 \<or> 126 - e \<ge> 32")
    case True
    have "rne 0 (126 - e) = 0" by (simp add: rne_def)
    with True have "encode16 (f32_exp v) (f32_man v) = 0"
      using e usg by (auto simp: encode16_def e_def [symmetric] Let_def split: if_splits)
    moreover have "sg = 0 \<or> sh \<ge> 32" using True ush by (auto simp: word_le_nat_alt)
    ultimately show ?thesis using def16 by (simp add: sign_word)
  next
    case False
    let ?k = "126 - e"
    have k: "0 < ?k" "?k < 32" "14 \<le> ?k" using False e by auto
    have sh1: "unat (sh - 1) = ?k - 1"
      using ush k by (subst unat_sub) (auto simp: word_le_nat_alt)
    have pk: "(2::nat) ^ 14 \<le> 2 ^ ?k" using k(3) by (intro power_increasing) auto
    have "unat sg < 2 ^ 10 * 2 ^ 14" using bsg by simp
    also have "\<dots> \<le> 2 ^ 10 * 2 ^ ?k" using pk by simp
    finally have lt: "unat sg < 2 ^ 10 * 2 ^ ?k" .
    then have "unat sg div 2 ^ ?k < 2 ^ 10" by (simp add: less_mult_imp_div_less)
    then have "unat sg div 2 ^ ?k + 1 < 2 ^ 32" by simp
    from round_word [OF k(1,2) this] have rw: "unat rw = rne (unat sg) ?k"
      by (simp only: rw_def ush sh1)
    have r10: "rne (unat sg) ?k \<le> 2 ^ 10" using lt by (rule rne_less)
    then have urw: "unat (ucast rw :: u16) = rne (unat sg) ?k" by (simp add: unat_ucast_mod rw)
    have nlt: "\<not> (sg = 0 \<or> sh \<ge> 32)" using False ush by (auto simp: word_le_nat_alt)
    have "unat (f32_to_f16 v) = f32_sign v * 2 ^ 15 + rne (unat sg) ?k"
      unfolding def16 if_not_P [OF nlt] using r10
      by (subst pack_sign16 [OF sign_word]) (simp_all add: urw)
    then show ?thesis
      using e False usg by (auto simp: encode16_def e_def [symmetric] Let_def)
  qed
qed

lemma pack_or_or:
  assumes "unat S = s * 2 ^ 15" "unat A < 2 ^ 5" "unat B < 2 ^ 10"
  shows "unat ((S :: u16) OR push_bit 10 A OR B) = s * 2 ^ 15 + unat A * 2 ^ 10 + unat B"
proof -
  have a: "unat (push_bit 10 A :: u16) = unat A * 2 ^ 10"
    unfolding unat_push_bit using assms(2) by simp
  have "unat (S OR push_bit 10 A) = s * 2 ^ 15 + unat A * 2 ^ 10"
    unfolding a [symmetric] by (rule pack_sign16 [OF assms(1)]) (use assms(2) in \<open>simp only: a, simp\<close>)
  moreover have "unat ((S OR push_bit 10 A) OR B) = unat (S OR push_bit 10 A) + unat B"
  proof (rule unat_or_disjoint [of 10])
    have "s * 2 ^ 15 + unat A * 2 ^ 10 = 2 ^ 10 * (s * 2 ^ 5 + unat A)" by simp
    then show "2 ^ 10 dvd unat (S OR push_bit 10 A)" unfolding calculation by (metis dvd_triv_left)
  qed (rule assms(3))
  ultimately show ?thesis by (simp add: or.assoc)
qed

lemma encode_normal:
  assumes "113 \<le> f32_exp v" "f32_exp v \<le> 142"
  shows "unat (f32_to_f16 v) = f32_sign v * 2 ^ 15 + encode16 (f32_exp v) (f32_man v)"
proof -
  define e where "e = f32_exp v"
  define sg where "sg = v AND 0x007FFFFF"
  define rw where "rw = (if sg AND (push_bit 13 1 - 1) > push_bit 12 1 \<or>
          sg AND (push_bit 13 1 - 1) = push_bit 12 1 \<and> drop_bit 13 sg AND 1 = 1
       then drop_bit 13 sg + 1 else drop_bit 13 sg)"
  define ex where "ex = (word_of_int (int e - 127 + 15) :: u32)"
  let ?s = "ucast (drop_bit 16 v AND 0x8000) :: u16"
  have e: "113 \<le> e" "e \<le> 142" using assms by (simp_all add: e_def)
  have usg: "unat sg = f32_man v" by (simp add: sg_def f32_words)
  have ex: "ex = of_nat (e - 112)" using e by (simp add: ex_def of_nat_diff)
  have uex: "unat ex = e - 112" unfolding ex using e by (simp only: unat_of_nat) simp
  have bsg: "unat sg < 2 ^ 10 * 2 ^ 13" using usg f32_bounds(3) [of v] by simp
  then have "unat sg div 2 ^ 13 < 2 ^ 10" by (simp add: less_mult_imp_div_less)
  then have "unat sg div 2 ^ 13 + 1 < 2 ^ 32" by simp
  from round_word [of 13 sg] this have rw: "unat rw = rne (f32_man v) 13"
    by (simp add: rw_def usg)
  have r10: "rne (f32_man v) 13 \<le> 2 ^ 10" using rne_less [OF bsg] by (simp add: usg)
  have enc: "encode16 (f32_exp v) (f32_man v) = (e - 112) * 2 ^ 10 + rne (f32_man v) 13"
    using e rne_add [of "(e - 112) * 2 ^ 10" 13 "f32_man v"]
    by (simp add: encode16_def e_def [symmetric] mult.commute)
  have def16: "f32_to_f16 v = (if rw = 0x400 then
      (if ex + 1 \<ge> 0x1F then ?s OR 0x7C00 else ?s OR push_bit 10 (ucast (ex + 1) :: u16))
      else ?s OR push_bit 10 (ucast ex :: u16) OR ucast rw)"
    using e unfolding f32_to_f16_def Let_def f32_exp_uint e_def [symmetric] sg_def rw_def ex_def
    by (simp del: push_bit_of_1)
  have ex1: "unat (ex + 1) = e - 111" using e uex by (simp add: unat_word_ariths)
  show ?thesis
  proof (cases "rne (f32_man v) 13 = 2 ^ 10")
    case True
    then have "unat rw = unat (0x400 :: u32)" by (simp add: rw)
    then have rw4: "rw = 0x400" by (simp only: word_unat_eq_iff)
    show ?thesis
    proof (cases "e = 142")
      case True
      then have "ex + 1 \<ge> 0x1F" using ex1 by (simp add: word_le_nat_alt)
      with rw4 have "f32_to_f16 v = ?s OR 0x7C00" by (simp add: def16)
      then show ?thesis unfolding enc \<open>rne (f32_man v) 13 = 2 ^ 10\<close> True
        by (simp add: pack_sign16 [OF sign_word])
    next
      case False
      then have "\<not> ex + 1 \<ge> 0x1F" using ex1 e by (simp add: word_le_nat_alt)
      with rw4 have d: "f32_to_f16 v = ?s OR push_bit 10 (ucast (ex + 1)) OR 0" by (simp add: def16)
      have u: "unat (ucast (ex + 1) :: u16) = e - 111" using ex1 e by (simp add: unat_ucast_mod)
      have "unat (f32_to_f16 v) = f32_sign v * 2 ^ 15 + (e - 111) * 2 ^ 10 + 0"
        unfolding d using e False pack_or_or [OF sign_word, of "ucast (ex + 1)" 0] u by simp
      then show ?thesis unfolding enc True using e by simp
    qed
  next
    case False
    then have "unat rw \<noteq> unat (0x400 :: u32)" by (simp add: rw)
    then have rw4: "rw \<noteq> 0x400" by auto
    have u: "unat (ucast ex :: u16) = e - 112" "unat (ucast rw :: u16) = rne (f32_man v) 13"
      using uex e rw r10 by (simp_all add: unat_ucast_mod)
    from rw4 have "f32_to_f16 v = ?s OR push_bit 10 (ucast ex) OR ucast rw" by (simp add: def16)
    then have "unat (f32_to_f16 v) = f32_sign v * 2 ^ 15 + (e - 112) * 2 ^ 10 + rne (f32_man v) 13"
      using pack_or_or [OF sign_word, of "ucast ex" "ucast rw" v] u e False r10 by simp
    then show ?thesis unfolding enc by simp
  qed
qed

lemma encode_large:
  assumes "142 < f32_exp v" "is_finite v"
  shows "unat (f32_to_f16 v) = f32_sign v * 2 ^ 15 + encode16 (f32_exp v) (f32_man v)"
proof -
  let ?s = "ucast (drop_bit 16 v AND 0x8000) :: u16"
  have "f32_to_f16 v = ?s OR 0x7C00"
    using assms unfolding f32_to_f16_def Let_def f32_exp_uint is_finite_def by simp
  then show ?thesis using assms(1) by (simp add: encode16_def pack_sign16 [OF sign_word])
qed

lemma encode_finite:
  "is_finite v \<Longrightarrow> unat (f32_to_f16 v) = f32_sign v * 2 ^ 15 + encode16 (f32_exp v) (f32_man v)"
  by (meson encode_small encode_normal encode_large linorder_not_less not_le_imp_less)

end
