(* ===== verification/Half_Rounding.thy ===== *)
theory Half_Rounding
  imports Half_Precision
begin

text \<open>
  What the conversions of \<open>Half_Precision\<close> compute: encoding to binary16 and bfloat16
  rounds to nearest with ties to even, over the whole range (subnormals, overflow to
  infinity), decoding is exact, and encoding a decoded half returns its pattern.
\<close>

section \<open>Encoding to binary16 rounds to nearest even\<close>

text \<open>The value of a half's pattern in units of \<open>2 ^ -149\<close>; infinity counts as \<open>2 ^ 16\<close>.\<close>

definition half_value :: "nat \<Rightarrow> nat" where
  "half_value p = mag16 p * 2 ^ 125"

lemma half_value_mono: "strict_mono half_value"
  using mag_strict_mono [of 10] by (simp add: strict_mono_def half_value_def)

lemma f32_mag_unit:
  "f32_mag v = (if f32_exp v = 0 then f32_man v else f32_man v + 2 ^ 23) * 2 ^ (f32_exp v - 1)"
  by (simp add: f32_mag_fields)

lemma mag16_small: "t < 2 ^ 11 \<Longrightarrow> mag16 t = t"
  by (cases "t < 1024") (auto simp: mag_def Let_def div_if le_mod_geq)

lemma encode16_rounds_small:
  assumes e: "e < 113" and m: "m < 2 ^ 23"
  shows "rounds_to half_value 31744 ((if e = 0 then m else m + 2 ^ 23) * 2 ^ (e - 1)) (encode16 e m)"
proof -
  define sg where "sg = (if e = 0 then m else m + 2 ^ 23)"
  define k where "k = 126 - e"
  have sg: "sg < 2 ^ 24" using m by (simp add: sg_def)
  have enc: "encode16 e m = (if k \<ge> 32 then 0 else rne sg k)"
    using e by (simp add: encode16_def sg_def k_def)
  show ?thesis
  proof (cases "k \<ge> 32")
    case True
    have "sg * 2 ^ (e - 1) < 2 ^ 24 * 2 ^ 93"
    proof (rule mult_less_le_imp_less)
      show "(2::nat) ^ (e - 1) \<le> 2 ^ 93"
        using True by (intro power_increasing) (auto simp: k_def)
    qed (use sg in auto)
    then have M: "2 * (sg * 2 ^ (e - 1)) < 2 ^ 125" by simp
    have f: "half_value 0 = 0" "half_value (Suc 0) = 2 ^ 125"
      by (simp_all add: half_value_def mag16_small)
    have "rounds_to half_value 31744 (sg * 2 ^ (e - 1)) 0"
      by (rule rounds_to_neighbour [OF half_value_mono]) (use M f in auto)
    then show ?thesis using True by (simp add: enc sg_def)
  next
    case False
    then have e1: "95 \<le> e" and k14: "14 \<le> k" using e by (simp_all add: k_def)
    have pk: "(2::nat) ^ 14 \<le> 2 ^ k" using k14 by (intro power_increasing) auto
    have "sg < 2 ^ 10 * 2 ^ 14" using sg by simp
    also have "\<dots> \<le> 2 ^ 10 * 2 ^ k" using pk by simp
    finally have t: "sg div 2 ^ k < 2 ^ 10" by (simp add: less_mult_imp_div_less)
    have U: "(2::nat) ^ 125 = 2 ^ k * 2 ^ (e - 1)"
      using e e1 unfolding power_add [symmetric] by (simp add: k_def)
    have "rounds_to half_value 31744 (sg * 2 ^ (e - 1)) (sg div 2 ^ k + (rne sg k - sg div 2 ^ k))"
      by (rule rounds_to_scaled [OF half_value_mono])
        (use t in \<open>simp_all only: half_value_def U, simp_all add: mag16_small algebra_simps\<close>)
    moreover have "sg div 2 ^ k + (rne sg k - sg div 2 ^ k) = rne sg k"
      by (simp add: rne_def)
    ultimately show ?thesis using False by (simp add: enc sg_def)
  qed
qed

lemma encode16_rounds_normal:
  assumes e: "113 \<le> e" "e \<le> 142" and m: "m < 2 ^ 23"
  shows "rounds_to half_value 31744 ((m + 2 ^ 23) * 2 ^ (e - 1)) (encode16 e m)"
proof -
  let ?t = "(e - 112) * 2 ^ 10 + m div 2 ^ 13"
  have md: "m div 2 ^ 13 < 2 ^ 10" using m by (simp add: less_mult_imp_div_less)
  have q: "(m + 2 ^ 23) div 2 ^ 13 = m div 2 ^ 13 + 2 ^ 10"
  proof -
    have "m + 2 ^ 23 = m + 2 ^ 10 * 2 ^ 13" by simp
    then show ?thesis by (simp only: div_mult_self1) simp
  qed
  have r: "rne (m + 2 ^ 23) 13 = rne m 13 + 2 ^ 10"
    using rne_add [of "2 ^ 10" 13 m] by (simp add: add.commute)
  have enc: "encode16 e m = ?t + (rne (m + 2 ^ 23) 13 - (m + 2 ^ 23) div 2 ^ 13)"
    using e rne_add [of "(e - 112) * 2 ^ 10" 13 m] unfolding r q
    by (simp add: encode16_def mult.commute rne_def)
  have U: "(2::nat) ^ (e - 113) * 2 ^ 125 = 2 ^ 13 * 2 ^ (e - 1)"
    using e unfolding power_add [symmetric] by simp
  have ft: "half_value ?t = (m div 2 ^ 13 + 2 ^ 10) * 2 ^ 13 * 2 ^ (e - 1)"
  proof -
    have "half_value ?t = (m div 2 ^ 13 + 2 ^ 10) * (2 ^ (e - 113) * 2 ^ 125)"
      unfolding half_value_def mag_fields [OF md] using e by simp
    then show ?thesis by (simp only: U mult.assoc)
  qed
  have "half_value (Suc ?t) = half_value ?t + 2 ^ (e - 113) * 2 ^ 125"
    using md e by (simp add: half_value_def mag_Suc algebra_simps)
  then have ft1: "half_value (Suc ?t) = (m div 2 ^ 13 + 2 ^ 10 + 1) * 2 ^ 13 * 2 ^ (e - 1)"
    unfolding ft U by (simp add: algebra_simps)
  have t: "Suc ?t \<le> 31744" using e md by simp
  have par: "odd ?t = odd ((m + 2 ^ 23) div 2 ^ 13)" unfolding q by simp
  show ?thesis
    by (rule rounds_to_scaled [OF half_value_mono _ t _ _ par enc]) (simp_all only: q ft ft1, simp)
qed

lemma encode16_rounds_large:
  assumes "142 < e"
  shows "rounds_to half_value 31744 ((m + 2 ^ 23) * 2 ^ (e - 1)) (encode16 e m)"
proof -
  have "half_value 31744 = 2 ^ 23 * 2 ^ 142" by (simp add: half_value_def mag_def)
  also have "\<dots> \<le> (m + 2 ^ 23) * 2 ^ (e - 1)"
    using assms by (intro mult_le_mono power_increasing) auto
  finally have "rounds_to half_value 31744 ((m + 2 ^ 23) * 2 ^ (e - 1)) 31744"
    by (rule rounds_to_last [OF half_value_mono])
  then show ?thesis using assms by (simp add: encode16_def)
qed

lemma encode16_rounds:
  assumes "is_finite v"
  shows "rounds_to half_value 31744 (f32_mag v) (encode16 (f32_exp v) (f32_man v))"
proof -
  note m = f32_bounds(3) [of v]
  consider "f32_exp v < 113" | "113 \<le> f32_exp v" "f32_exp v \<le> 142" | "142 < f32_exp v" by linarith
  then show ?thesis
  proof cases
    case 1
    with m show ?thesis unfolding f32_mag_unit by (rule encode16_rounds_small [rotated])
  next
    case 2
    then have "f32_exp v \<noteq> 0" by simp
    with 2 m show ?thesis unfolding f32_mag_unit by (simp only: if_False encode16_rounds_normal)
  next
    case 3
    then have "f32_exp v \<noteq> 0" by simp
    with 3 show ?thesis unfolding f32_mag_unit by (simp only: if_False encode16_rounds_large)
  qed
qed

section \<open>Encoding to bfloat16\<close>

text \<open>The value of a bfloat16 pattern in units of \<open>2 ^ -149\<close>; infinity counts as \<open>2 ^ 128\<close>.\<close>

definition bhalf_value :: "nat \<Rightarrow> nat" where
  "bhalf_value p = mag32 (p * 2 ^ 16)"

lemma bhalf_value_mono: "strict_mono bhalf_value"
  using mag_strict_mono [of 23] by (simp add: strict_mono_def bhalf_value_def)

lemma low_bit_word: "unat (drop_bit 16 v AND 1) = unat v div 2 ^ 16 mod 2" for v :: f32
  by (simp add: and_one_eq unat_mod unat_drop_bit)

lemma div_eqI_if: "a < 2 * b \<Longrightarrow> a div b = (if b \<le> a then 1 else 0)" for a b :: nat
  by (cases "b \<le> a") (simp_all add: le_div_geq)

lemma rne_by_bias:
  assumes "0 < k"
  shows "(n + (2 ^ (k - 1) - 1 + n div 2 ^ k mod 2)) div 2 ^ k = rne n k"
proof -
  obtain q x where n: "n = q * 2 ^ k + x" and x: "x < 2 ^ k" and q: "n div 2 ^ k = q" "n mod 2 ^ k = x"
    by (rule that [of "n div 2 ^ k" "n mod 2 ^ k"]) (simp_all add: div_mult_mod_eq)
  obtain h where h: "h = (2::nat) ^ (k - 1)" "(2::nat) ^ k = 2 * h" "0 < h"
    using assms by (metis power_eq_if not_gr_zero zero_less_numeral zero_less_power)
  let ?b = "h - 1 + q mod 2"
  have "n + ?b = (x + ?b) + q * 2 ^ k" unfolding n by simp
  then have "(n + ?b) div 2 ^ k = ((x + ?b) + q * 2 ^ k) div 2 ^ k" by (rule arg_cong)
  also have "\<dots> = q + (x + ?b) div 2 ^ k" by (rule div_mult_self1) simp
  finally have "(n + ?b) div 2 ^ k = q + (x + ?b) div 2 ^ k" .
  moreover have "(x + ?b) div 2 ^ k = (if 2 ^ k \<le> x + ?b then 1 else 0)"
  proof -
    have "q mod 2 \<le> 1" by simp
    then have "x + ?b < 2 * 2 ^ k" using x h(2,3) by linarith
    then show ?thesis by (intro div_eqI_if)
  qed
  moreover have "2 ^ k \<le> x + ?b \<longleftrightarrow> 2 ^ k < 2 * x \<or> 2 * x = 2 ^ k \<and> odd q"
    unfolding h(2) using h(3) by (cases "odd q") (auto simp: mod2_eq_if)
  ultimately show ?thesis unfolding rne_def q h(1) [symmetric] by simp
qed

text \<open>Away from NaN the biased addition does not wrap, and rounds the pattern.\<close>

lemma bf16_encode:
  assumes "\<not> is_nan v"
  shows "unat (f32_to_bf16 v) = f32_sign v * 2 ^ 15 + rne (f32_pattern v) 16"
proof -
  let ?p = "f32_pattern v" and ?s = "f32_sign v"
  have v: "unat v = ?s * 2 ^ 31 + ?p" by (simp add: f32_sign_def f32_pattern_def)
  have s: "?s < 2" by (rule f32_bounds)
  have p: "?p \<le> 255 * 2 ^ 23"
  proof (cases "f32_exp v = 255")
    case True
    with assms have "f32_man v = 0" by (simp add: is_nan_def)
    with True have "f32_pattern v = 255 * 2 ^ 23 + 0"
      unfolding f32_exp_def f32_man_def by (metis div_mult_mod_eq)
    then show ?thesis by simp
  next
    case False
    then have "f32_exp v < 255" using f32_bounds(2) [of v] by simp
    then have "?p div 2 ^ 23 < 255" by (simp add: f32_exp_def)
    then show ?thesis by simp
  qed
  have dv: "unat v div 2 ^ 16 mod 2 = ?p div 2 ^ 16 mod 2"
  proof -
    have "unat v div 2 ^ 16 = ?s * 2 ^ 15 + ?p div 2 ^ 16" unfolding v by simp
    also have "\<dots> = ?p div 2 ^ 16 + (?s * 2 ^ 14) * 2" by simp
    finally show ?thesis by (simp only: mod_mult_self1)
  qed
  let ?b = "2 ^ (16 - 1) - 1 + ?p div 2 ^ 16 mod 2"
  have bias: "unat (0x00007FFF + (drop_bit 16 v AND 1) :: u32) = ?b"
    by (simp add: unat_word_ariths low_bit_word dv [simplified])
  have "?s * 2 ^ 31 + (?p + ?b) < 2 ^ 32" using s p by simp
  then have sum: "unat (v + (0x00007FFF + (drop_bit 16 v AND 1))) = ?s * 2 ^ 31 + (?p + ?b)"
    using unat_word_ariths(1) [of v "0x00007FFF + (drop_bit 16 v AND 1)"] unfolding bias v by simp
  have "(?s * 2 ^ 31 + (?p + ?b)) div 2 ^ 16 = ?s * 2 ^ 15 + (?p + ?b) div 2 ^ 16" by simp
  moreover have "(?p + ?b) div 2 ^ 16 = rne ?p 16" by (rule rne_by_bias) simp
  ultimately have "unat (drop_bit 16 (v + (0x00007FFF + (drop_bit 16 v AND 1)))) =
      ?s * 2 ^ 15 + rne ?p 16"
    by (simp only: unat_drop_bit sum)
  moreover have "rne ?p 16 \<le> 2 ^ 15" using p by (intro rne_less) simp
  then have "rne ?p 16 < 2 ^ 15"
  proof -
    have "?p div 2 ^ 16 < 2 ^ 15 - 1" using p by (simp add: less_mult_imp_div_less)
    then show ?thesis using rne_le_Suc [of ?p 16] by auto
  qed
  ultimately show ?thesis using assms s by (simp add: f32_to_bf16_def Let_def unat_ucast_mod)
qed

section \<open>Fields of the encoded results\<close>

lemma encode16_bound: "is_finite v \<Longrightarrow> encode16 (f32_exp v) (f32_man v) \<le> 31744"
  using encode16_rounds by (simp add: rounds_to_def)

lemma half_of_fields:
  assumes "unat h = s * 2 ^ 15 + p" "p < 2 ^ 15"
  shows "half_sign h = s" "half_pattern h = p"
  using assms by (auto simp: half_sign_def half_pattern_def)

lemma f32_to_f16_fields:
  assumes "is_finite v"
  shows "half_sign (f32_to_f16 v) = f32_sign v"
    and "half_pattern (f32_to_f16 v) = encode16 (f32_exp v) (f32_man v)"
  using half_of_fields [OF encode_finite [OF assms]] encode16_bound [OF assms] by simp_all

lemma f32_to_f16_special:
  assumes "f32_exp v = 255"
  shows "unat (f32_to_f16 v) = f32_sign v * 2 ^ 15 +
           (31744 + (if f32_man v = 0 then 0 else max 1 (f32_man v div 2 ^ 13)))"
proof -
  let ?s = "ucast (drop_bit 16 v AND 0x8000) :: u16" and ?m = "v AND 0x007FFFFF"
  let ?q = "ucast (drop_bit 13 ?m) :: u16"
  have z: "?m = 0 \<longleftrightarrow> f32_man v = 0" by (metis f32_words(1) unat_eq_zero)
  have qb: "f32_man v div 2 ^ 13 < 2 ^ 10"
    using f32_bounds(3) [of v] by (simp add: less_mult_imp_div_less)
  have "unat (drop_bit 13 ?m) = f32_man v div 2 ^ 13" by (simp only: unat_drop_bit f32_words)
  then have q: "unat ?q = f32_man v div 2 ^ 13" using qb by (simp only: unat_ucast_mod) simp
  have p: "unat (if ?q = 0 then 1 else ?q) = max 1 (f32_man v div 2 ^ 13)"
    using q by (auto simp: unat_eq_zero [symmetric])
  have d: "f32_to_f16 v = ?s OR (if ?m = 0 then 0x7C00 else 0x7C00 OR (if ?q = 0 then 1 else ?q))"
    using assms unfolding f32_to_f16_def Let_def f32_exp_uint by simp
  have "unat ((0x7C00 :: u16) OR (if ?q = 0 then 1 else ?q)) = unat (0x7C00 :: u16) + max 1 (f32_man v div 2 ^ 13)"
    unfolding p [symmetric] using qb by (intro unat_or_disjoint [of 10]) (simp_all only: p, simp_all)
  then have "unat (if ?m = 0 then 0x7C00 else 0x7C00 OR (if ?q = 0 then 1 else ?q)) =
      31744 + (if f32_man v = 0 then 0 else max 1 (f32_man v div 2 ^ 13))"
    by (simp add: z)
  then show ?thesis
    unfolding d using qb by (subst pack_sign16 [OF sign_word]) (auto split: if_splits)
qed

lemma bf16_to_f32_fields:
  "f32_sign (bf16_to_f32 h) = half_sign h" "f32_pattern (bf16_to_f32 h) = half_pattern h * 2 ^ 16"
proof -
  have "unat h < 2 ^ 16" by (rule unat_lt2p_16)
  then have u: "unat (bf16_to_f32 h) = unat h * 2 ^ 16"
    unfolding bf16_to_f32_def unat_push_bit by (simp add: unat_ucast_mod)
  then have "unat (bf16_to_f32 h) = half_sign h * 2 ^ 31 + half_pattern h * 2 ^ 16"
    unfolding half_split [of h] by simp
  moreover have "half_pattern h * 2 ^ 16 < 2 ^ 31" using half_bounds(2) [of h] by simp
  ultimately show "f32_sign (bf16_to_f32 h) = half_sign h"
    "f32_pattern (bf16_to_f32 h) = half_pattern h * 2 ^ 16"
    by (simp_all add: f32_sign_def f32_pattern_def)
qed

lemma half_pattern_fields: "half_pattern h = half_exp h * 2 ^ 10 + half_man h"
  by (simp add: half_exp_def half_man_def)

lemma not_nan_pattern: "is_nan v \<longleftrightarrow> 255 * 2 ^ 23 < f32_pattern v"
proof -
  have "f32_pattern v = f32_exp v * 2 ^ 23 + f32_man v" by (simp add: f32_exp_def f32_man_def)
  moreover have "f32_exp v < 255 \<or> f32_exp v = 255" using f32_bounds(2) [of v] by linarith
  ultimately show ?thesis using f32_bounds(3) [of v] by (auto simp: is_nan_def)
qed

lemma f32_to_bf16_number:
  assumes "\<not> is_nan v"
  shows "half_sign (f32_to_bf16 v) = f32_sign v" "half_pattern (f32_to_bf16 v) = rne (f32_pattern v) 16"
proof -
  have "f32_pattern v div 2 ^ 16 < 2 ^ 15 - 1"
    using assms by (simp add: not_nan_pattern less_mult_imp_div_less)
  then have "rne (f32_pattern v) 16 < 2 ^ 15" using rne_le_Suc [of "f32_pattern v" 16] by auto
  from half_of_fields [OF bf16_encode [OF assms] this]
  show "half_sign (f32_to_bf16 v) = f32_sign v" "half_pattern (f32_to_bf16 v) = rne (f32_pattern v) 16"
    by simp_all
qed

lemma f32_to_bf16_nan_payload:
  assumes "is_nan v"
  defines "q \<equiv> f32_man v div 2 ^ 16"
  shows "half_sign (f32_to_bf16 v) = f32_sign v"
    "half_pattern (f32_to_bf16 v) = 32640 + (if q = 0 then 64 else q)"
proof -
  let ?s = "ucast (drop_bit 16 v AND 0x8000) :: u16"
  let ?q = "(ucast (drop_bit 16 v) :: u16) AND 0x7F"
  have m: "(0x7F :: u16) = mask 7" by (simp add: mask_eq_exp_minus_1)
  have "q < 2 ^ 7" using f32_bounds(3) [of v] by (simp add: q_def less_mult_imp_div_less)
  have "unat ?q = unat v div 2 ^ 16 mod 2 ^ 16 mod 2 ^ 7"
    unfolding m by (simp only: unat_and_mask unat_ucast_mod unat_drop_bit) simp
  also have "\<dots> = unat v div 2 ^ 16 mod 2 ^ 7" by (simp add: mod_mod_cancel)
  also have "\<dots> = unat v mod (2 ^ 16 * 2 ^ 7) div 2 ^ 16" by (simp only: mod_mult2_eq) simp
  also have "\<dots> = q" by (simp add: q_def f32_man_def f32_pattern_def mod_mod_cancel)
  finally have q: "unat ?q = q" .
  then have p: "unat (if ?q = 0 then 0x40 else ?q) = (if q = 0 then 64 else q)"
    by (auto simp: unat_eq_zero [symmetric])
  have "unat ((0x7F80 :: u16) OR (if ?q = 0 then 0x40 else ?q)) = unat (0x7F80 :: u16) + (if q = 0 then 64 else q)"
    unfolding p [symmetric] using \<open>q < 2 ^ 7\<close>
    by (intro unat_or_disjoint [of 7]) (simp_all only: p, simp_all)
  then have f: "unat ((0x7F80 :: u16) OR (if ?q = 0 then 0x40 else ?q)) = 32640 + (if q = 0 then 64 else q)"
    by simp
  have d: "f32_to_bf16 v = ?s OR (0x7F80 OR (if ?q = 0 then 0x40 else ?q))"
    using assms(1) by (simp add: f32_to_bf16_def Let_def)
  have "unat (f32_to_bf16 v) = f32_sign v * 2 ^ 15 + (32640 + (if q = 0 then 64 else q))"
    unfolding d f [symmetric] using \<open>q < 2 ^ 7\<close>
    by (rule_tac pack_sign16 [OF sign_word]) (simp add: f)
  moreover have "32640 + (if q = 0 then 64 else q) < 2 ^ 15" using \<open>q < 2 ^ 7\<close> by simp
  ultimately show "half_sign (f32_to_bf16 v) = f32_sign v"
    "half_pattern (f32_to_bf16 v) = 32640 + (if q = 0 then 64 else q)"
    by (simp_all only: half_of_fields)
qed

lemma f32_to_bf16_nan:
  assumes "is_nan v"
  shows "half_sign (f32_to_bf16 v) = f32_sign v" "32640 < half_pattern (f32_to_bf16 v)"
  using f32_to_bf16_nan_payload [OF assms] by auto

lemma bf16_nan_payload:
  assumes "is_nan (bf16_to_f32 h)"
  defines "q \<equiv> f32_man (bf16_to_f32 h) div 2 ^ 16"
  shows "32640 + (if q = 0 then 64 else q) = half_pattern h"
proof -
  have p: "f32_pattern (bf16_to_f32 h) = half_pattern h * 2 ^ 16" by (rule bf16_to_f32_fields)
  have gt: "32640 < half_pattern h" using assms by (simp add: not_nan_pattern p)
  then obtain x where x: "half_pattern h = 32640 + x" "0 < x" by (metis less_imp_add_positive)
  then have xb: "x < 2 ^ 7" using half_bounds(2) [of h] by simp
  have "f32_man (bf16_to_f32 h) = (x * 2 ^ 16 + 255 * 2 ^ 23) mod 2 ^ 23"
    unfolding f32_man_def p x(1) by (rule arg_cong [of _ _ "\<lambda>z. z mod 2 ^ 23"]) simp
  also have "\<dots> = x * 2 ^ 16" using xb by (simp only: mod_mult_self1) simp
  finally have "q = x" by (simp add: q_def)
  then show ?thesis using x by simp
qed

text \<open>Rounding the pattern rounds the value: a bfloat16 step stays inside one binade.\<close>

lemma bf16_rounds:
  assumes "\<not> is_nan v"
  shows "rounds_to bhalf_value 32640 (f32_mag v) (rne (f32_pattern v) 16)"
proof -
  define p where "p = f32_pattern v"
  define t where "t = p div 2 ^ 16"
  define e where "e = p div 2 ^ 23"
  define m where "m = p mod 2 ^ 23"
  define n where "n = (if e = 0 then m else m + 2 ^ 23)"
  have pe: "p = e * 2 ^ 23 + m" and m: "m < 2 ^ 23" by (simp_all add: e_def m_def)
  have M: "f32_mag v = n * 2 ^ (e - 1)"
    by (simp add: f32_mag_unit n_def e_def m_def p_def f32_exp_def f32_man_def)
  have t: "t = m div 2 ^ 16 + e * 2 ^ 7"
  proof -
    have "p = m + (e * 2 ^ 7) * 2 ^ 16" unfolding pe by simp
    then show ?thesis unfolding t_def by (simp only: div_mult_self1) simp
  qed
  have q: "n div 2 ^ 16 = m div 2 ^ 16 + (if e = 0 then 0 else 2 ^ 7)"
  proof (cases "e = 0")
    case False
    then have "n = m + 2 ^ 7 * 2 ^ 16" by (simp add: n_def)
    then show ?thesis using False by (simp only: div_mult_self1) simp
  qed (simp add: n_def)
  have mx: "m div 2 ^ 16 * 2 ^ 16 \<le> m" by simp
  have mb: "m div 2 ^ 16 * 2 ^ 16 + 2 ^ 16 \<le> 2 ^ 23"
  proof -
    have "m div 2 ^ 16 < 2 ^ 7" using m by (simp add: less_mult_imp_div_less)
    then show ?thesis by simp
  qed
  have tm: "t * 2 ^ 16 = e * 2 ^ 23 + m div 2 ^ 16 * 2 ^ 16" unfolding t by simp
  have ml: "m div 2 ^ 16 * 2 ^ 16 < 2 ^ 23" using m mx by linarith
  have lo: "bhalf_value t = n div 2 ^ 16 * 2 ^ 16 * 2 ^ (e - 1)"
    unfolding bhalf_value_def tm mag_fields [OF ml] q by (simp add: algebra_simps)
  have te: "t * 2 ^ 16 div 2 ^ 23 = e" "t * 2 ^ 16 mod 2 ^ 23 = m div 2 ^ 16 * 2 ^ 16"
    unfolding tm using ml by simp_all
  have "t * 2 ^ 16 mod 2 ^ 23 + 2 ^ 16 \<le> 2 ^ 23" unfolding te using mb .
  from mag_linear_le [OF this] have "bhalf_value (Suc t) = bhalf_value t + 2 ^ 16 * 2 ^ (e - 1)"
    unfolding te bhalf_value_def by (simp add: add.commute)
  then have hi: "bhalf_value (Suc t) = (n div 2 ^ 16 + 1) * 2 ^ 16 * 2 ^ (e - 1)"
    unfolding lo by (simp add: algebra_simps)
  have par: "odd t = odd (n div 2 ^ 16)" unfolding t q by simp
  have nm: "n mod 2 ^ 16 = p mod 2 ^ 16"
  proof -
    have "p mod 2 ^ 16 = m mod 2 ^ 16" unfolding m_def by (simp add: mod_mod_cancel)
    moreover have "n mod 2 ^ 16 = m mod 2 ^ 16" unfolding n_def by (cases "e = 0") (simp_all add: mod_add_eq [symmetric, of m])
    ultimately show ?thesis by simp
  qed
  have r: "rne p 16 = t + (rne n 16 - n div 2 ^ 16)"
    unfolding rne_def nm t_def [symmetric] par by simp
  show ?thesis
  proof (cases "t < 32640")
    case True
    then have "Suc t \<le> 32640" by simp
    from rounds_to_scaled [OF bhalf_value_mono _ this lo hi par r] show ?thesis
      by (simp add: M p_def)
  next
    case False
    then have "32640 * 2 ^ 16 \<le> p" unfolding t_def by (simp add: less_eq_div_iff_mult_less_eq)
    with assms have "p = 32640 * 2 ^ 16" by (simp add: not_nan_pattern p_def)
    then have "rne p 16 = 32640" "bhalf_value 32640 = f32_mag v"
      by (simp_all add: rne_def bhalf_value_def f32_mag_def p_def)
    with rounds_to_last [OF bhalf_value_mono, of 32640 "f32_mag v"] show ?thesis by (simp add: p_def)
  qed
qed

section \<open>The contracts\<close>

text \<open>C27. Decoding a binary16 pattern always returns (the renormalizing loop ends), keeps the
  sign, and is exact: a finite half becomes the finite \<open>f32\<close> of the same value, an
  infinity an infinity, and a NaN a NaN.\<close>
theorem f16_to_f32_exact:
  "\<exists>v. f16_to_f32 h = Some v \<and> f32_sign v = half_sign h \<and>
     (if half_exp h < 31 then is_finite v \<and> f32_mag v = half_value (half_pattern h)
      else f32_exp v = 255 \<and> (is_nan v \<longleftrightarrow> half_man h \<noteq> 0))"
proof (cases "half_exp h < 31")
  case True
  then show ?thesis using decode_finite [OF True] by (fastforce simp: is_finite_def half_value_def)
next
  case False
  then have "half_exp h = 31" using half_field_bounds(1) [of h] by simp
  from decode_special [OF this] obtain v where v: "f16_to_f32 h = Some v" and
    u: "unat v = half_sign h * 2 ^ 31 + 255 * 2 ^ 23 + half_man h * 2 ^ 13" by blast
  have "half_man h * 2 ^ 13 < 2 ^ 23" using half_field_bounds(2) [of h] by simp
  from v f32_of_fields [OF u _ this] False show ?thesis by (simp add: is_nan_def)
qed

text \<open>C12. Encoding a finite \<open>f32\<close> to binary16 keeps its sign and rounds its magnitude to
  the nearest half, ties to the even pattern, subnormal halves and overflow to infinity
  included.\<close>
theorem f32_to_f16_nearest_even:
  assumes "is_finite v"
  shows "half_sign (f32_to_f16 v) = f32_sign v \<and>
         rounds_to half_value 31744 (f32_mag v) (half_pattern (f32_to_f16 v))"
  using f32_to_f16_fields [OF assms] encode16_rounds [OF assms] by simp

theorem f32_to_f16_nearest_even_witness:
  "is_finite 0x33000001 \<and> f32_to_f16 0x33000001 = 1 \<and>
   half_sign (f32_to_f16 0x33000001) = f32_sign 0x33000001 \<and>
   rounds_to half_value 31744 (f32_mag 0x33000001) (half_pattern (f32_to_f16 0x33000001))"
proof -
  have f: "is_finite 0x33000001" by (simp add: is_finite_def f32_fields)
  have e: "f32_to_f16 0x33000001 = 1" by (simp add: f32_to_f16_def Let_def)
  show ?thesis using f e f32_to_f16_nearest_even [OF f] by blast
qed

text \<open>C22. Encoding the decoded value of a half returns the half bit for bit, for every one of the
  65,536 patterns, NaN payloads included.\<close>
theorem f16_round_trip:
  assumes "f16_to_f32 h = Some v"
  shows "f32_to_f16 v = h"
proof (cases "half_exp h < 31")
  case True
  from decode_finite [OF True] assms have v: "f32_sign v = half_sign h" "is_finite v"
    "f32_mag v = half_value (half_pattern h)" by (auto simp: is_finite_def half_value_def)
  note f = f32_to_f16_fields [OF v(2)]
  have "half_pattern h \<le> 31744" using True half_bounds(2) [of h]
    by (simp add: half_exp_def div_less_iff_less_mult)
  from rounds_to_exact [OF half_value_mono this] encode16_rounds [OF v(2)] v(3)
  have "encode16 (f32_exp v) (f32_man v) = half_pattern h" by simp
  then show ?thesis using f v(1) by (intro half_eqI) simp_all
next
  case False
  then have e: "half_exp h = 31" using half_field_bounds(1) [of h] by simp
  have mb: "half_man h * 2 ^ 13 < 2 ^ 23" using half_field_bounds(2) [of h] by simp
  from decode_special [OF e] assms have "unat v = half_sign h * 2 ^ 31 + 255 * 2 ^ 23 + half_man h * 2 ^ 13"
    by auto
  note v = f32_of_fields [OF this _ mb]
  have u: "unat (f32_to_f16 v) = half_sign h * 2 ^ 15 + (31744 + half_man h)"
    using f32_to_f16_special [of v] v by simp
  have "31744 + half_man h < 2 ^ 15" using half_field_bounds(2) [of h] by simp
  from half_of_fields [OF u this] half_pattern_fields [of h] e show ?thesis
    by (intro half_eqI) simp_all
qed

theorem f16_round_trip_witness:
  "f16_to_f32 1 = Some 0x33800000 \<and> f32_to_f16 0x33800000 = 1"
proof -
  have d: "f16_to_f32 1 = Some 0x33800000"
    by (simp add: f16_to_f32_def renormalize.simps Let_def)
  from d f16_round_trip [OF d] show ?thesis by simp
qed

text \<open>C28. Encoding an \<open>f32\<close> that is not a NaN to bfloat16 keeps its sign and rounds its
  magnitude to the nearest bfloat16, ties to the even pattern; a NaN stays a NaN of the same sign.\<close>
theorem f32_to_bf16_nearest_even:
  "half_sign (f32_to_bf16 v) = f32_sign v \<and>
   (if is_nan v then 32640 < half_pattern (f32_to_bf16 v)
    else rounds_to bhalf_value 32640 (f32_mag v) (half_pattern (f32_to_bf16 v)))"
proof (cases "is_nan v")
  case True
  then show ?thesis using f32_to_bf16_nan [OF True] by simp
next
  case False
  then show ?thesis using f32_to_bf16_number [OF False] bf16_rounds [OF False] by simp
qed

text \<open>C29. Encoding a decoded bfloat16 returns the pattern bit for bit, for every pattern.\<close>
theorem bf16_round_trip: "f32_to_bf16 (bf16_to_f32 h) = h"
proof (cases "is_nan (bf16_to_f32 h)")
  case True
  from f32_to_bf16_nan_payload [OF True] bf16_to_f32_fields [of h] show ?thesis
    unfolding bf16_nan_payload [OF True] by (intro half_eqI) simp_all
next
  case False
  from f32_to_bf16_number [OF False] bf16_to_f32_fields [of h] show ?thesis
    by (intro half_eqI) (simp_all add: rne_def)
qed

end
