(* ===== verification/Cuda_Error.thy ===== *)
theory Cuda_Error
  imports Prelude
begin

text \<open>
  \<open>src/error.rs\<close>: the Provider's structured errors, and how a CUDA driver error becomes
  one and one becomes the Runtime's \<open>KernelError\<close>. A detail is the format string of the
  source, its interpolated values left out.
\<close>

datatype cuda_error_code =
    ShapeUnsupported
  | DTypeUnsupported
  | LayoutUnsupported
  | ExecutionFailed
  | OutOfDeviceMemory
  | CompilationFailed
  | DriverFailed
  | DeviceUnavailable
  | CaptureUnsupported

record cuda_error =
  code :: cuda_error_code
  detail :: string

definition cuda_error_new :: "cuda_error_code \<Rightarrow> string \<Rightarrow> cuda_error" where
  "cuda_error_new c d = \<lparr>code = c, detail = d\<rparr>"

abbreviation shape_error :: "string \<Rightarrow> cuda_error" where
  "shape_error \<equiv> cuda_error_new ShapeUnsupported"

abbreviation capture_error :: "string \<Rightarrow> cuda_error" where
  "capture_error \<equiv> cuda_error_new CaptureUnsupported"

text \<open>The results of the CUDA driver the source names; \<open>CUDA_OTHER\<close> is any other.\<close>

datatype cu_result =
    CUDA_SUCCESS
  | CUDA_ERROR_OUT_OF_MEMORY
  | CUDA_ERROR_NO_DEVICE
  | CUDA_ERROR_INVALID_DEVICE
  | CUDA_ERROR_PEER_ACCESS_ALREADY_ENABLED
  | CUDA_OTHER u32

text \<open>\<open>From<DriverError>\<close>; \<open>text\<close> is cudarc's own rendering of the error.\<close>

definition from_driver_error :: "(cu_result \<Rightarrow> string) \<Rightarrow> cu_result \<Rightarrow> cuda_error" where
  "from_driver_error text error =
     cuda_error_new
       (case error of
          CUDA_ERROR_OUT_OF_MEMORY \<Rightarrow> OutOfDeviceMemory
        | CUDA_ERROR_NO_DEVICE \<Rightarrow> DeviceUnavailable
        | CUDA_ERROR_INVALID_DEVICE \<Rightarrow> DeviceUnavailable
        | _ \<Rightarrow> DriverFailed)
       (text error)"

definition from_compile_error :: "string \<Rightarrow> cuda_error" where
  "from_compile_error text = cuda_error_new CompilationFailed text"

text \<open>
  The variants of the Runtime's \<open>KernelError\<close> this crate constructs;
  \<open>OtherKernelError\<close> is any other the Runtime's own validation may return.
\<close>

datatype kernel_error =
    KernelDTypeUnsupported string
  | KernelLayoutUnsupported string
  | KernelShapeUnsupported string
  | KernelDeviceUnsupported string
  | KernelOutOfDeviceMemory string
  | KernelExecutionFailed string
  | KernelAttributeUnsupported string
  | KernelNotFound string
  | KernelTimeout
  | OtherKernelError string

definition into_kernel_error :: "cuda_error \<Rightarrow> kernel_error" where
  "into_kernel_error error =
     (case code error of
        DTypeUnsupported \<Rightarrow> KernelDTypeUnsupported (detail error)
      | LayoutUnsupported \<Rightarrow> KernelLayoutUnsupported (detail error)
      | ShapeUnsupported \<Rightarrow> KernelShapeUnsupported (detail error)
      | DeviceUnavailable \<Rightarrow> KernelDeviceUnsupported (detail error)
      | OutOfDeviceMemory \<Rightarrow> KernelOutOfDeviceMemory (detail error)
      | ExecutionFailed \<Rightarrow> KernelExecutionFailed (detail error)
      | CompilationFailed \<Rightarrow> KernelExecutionFailed (detail error)
      | DriverFailed \<Rightarrow> KernelExecutionFailed (detail error)
      | CaptureUnsupported \<Rightarrow> KernelExecutionFailed (detail error))"

lemma code_new [simp]: "code (cuda_error_new c d) = c" "detail (cuda_error_new c d) = d"
  by (simp_all add: cuda_error_new_def)

end
