(* ===== verification/Driver.thy ===== *)
theory Driver
  imports Cuda_Error Float_Bits
begin

text \<open>
  What the crate calls and does not contain: the CUDA driver through cudarc, with the
  device memory it manages and the compiled device code it runs, and the Runtime's
  checked \<open>HostTensor\<close> constructor. It is a parameter, the record \<open>'d external\<close>
  over a state \<open>'d\<close> of the device; nothing about it is assumed here. What a property
  needs of it is a hypothesis of that property.
\<close>

section \<open>Values that cross the interface\<close>

text \<open>The Runtime's \<open>HostTensor\<close>: a shape and its row-major values.\<close>

record host_tensor =
  tshape :: "u64 list"
  tdata :: "f32 list"

text \<open>A \<open>CudaSlice\<close>: the address and the element count of a device allocation.\<close>

record cuda_slice =
  ptr :: u64
  slen :: usize

datatype elem = F32 | U16 | U64 | I32

datatype host_data = HF32 "f32 list" | HU16 "u16 list" | HU64 "u64 list"

text \<open>The arguments of a launch, as \<open>launch_builder\<close> collects them.\<close>

datatype karg = APtr u64 | AU64 u64 | AU32 u32 | AI32 u32 | AI64 u64 | AF32 f32

record launch_config =
  grid_dim :: "u32 \<times> u32 \<times> u32"
  block_dim :: "u32 \<times> u32 \<times> u32"
  shared_mem_bytes :: u32

record launch =
  function_name :: string
  kargs :: "karg list"
  config :: launch_config

text \<open>A \<open>CudaGraph\<close>: a handle.\<close>
type_synonym cuda_graph = u64

text \<open>
  The Runtime's \<open>RopeBandedFrequencyScaling\<close>: its four \<open>f64\<close> parameters, of which this
  crate only takes the \<open>f32\<close> values.
\<close>

record banded_scaling =
  factor :: u64
  low_freq_factor :: u64
  high_freq_factor :: u64
  original_context_length :: u64

section \<open>The external functions\<close>

record 'd external =
  cu_text :: "cu_result \<Rightarrow> string"
  cu_alloc :: "elem \<Rightarrow> usize \<Rightarrow> ('d, cu_result, u64) exec"
  cu_alloc_zeros :: "elem \<Rightarrow> usize \<Rightarrow> ('d, cu_result, u64) exec"
  cu_clone_htod :: "host_data \<Rightarrow> ('d, cu_result, u64) exec"
  cu_memcpy_htod :: "host_data \<Rightarrow> u64 \<Rightarrow> ('d, cu_result, unit) exec"
  cu_dtoh_f32 :: "u64 \<Rightarrow> usize \<Rightarrow> ('d, cu_result, f32 list) exec"
  cu_dtoh_u16 :: "u64 \<Rightarrow> usize \<Rightarrow> ('d, cu_result, u16 list) exec"
  cu_dtoh_u64 :: "u64 \<Rightarrow> ('d, cu_result, u64) exec"
  cu_dtoh_i32 :: "u64 \<Rightarrow> ('d, cu_result, u32) exec"
  cu_clone_dtod :: "elem \<Rightarrow> cuda_slice \<Rightarrow> ('d, cu_result, u64) exec"
  cu_memcpy_dtod :: "cuda_slice \<Rightarrow> u64 \<Rightarrow> ('d, cu_result, unit) exec"
  cu_memset_zeros :: "cuda_slice \<Rightarrow> ('d, cu_result, unit) exec"
  cu_synchronize :: "('d, cu_result, unit) exec"
  cu_load_function :: "string \<Rightarrow> ('d, cu_result, unit) exec"
  cu_load_tensor_function :: "string \<Rightarrow> ('d, cu_result, unit) exec"
  cu_set_max_shared :: "string \<Rightarrow> u32 \<Rightarrow> ('d, cu_result, unit) exec"
  cu_launch :: "launch \<Rightarrow> ('d, cu_result, unit) exec"
  cu_begin_capture :: "('d, cu_result, unit) exec"
  cu_end_capture :: "('d, cu_result, cuda_graph option) exec"
  cu_graph_launch :: "cuda_graph \<Rightarrow> ('d, cu_result, unit) exec"
  for_num_elems :: "u32 \<Rightarrow> launch_config"
  banded_validate :: "banded_scaling \<Rightarrow> string + unit"
  host_new :: "u64 list \<Rightarrow> f32 list \<Rightarrow> string + host_tensor"

end
