(* ===== verification/Buffers.thy ===== *)
theory Buffers
  imports Driver Half_Rounding
begin

text \<open>
  The device buffers of \<open>src/kernels.rs\<close>: \<open>CudaDeviceBuffer\<close> (plain \<open>f32\<close> or
  compact bfloat16 bits), \<open>CudaHalfBuffer\<close>, their shape checks, and the exactness test
  that decides which weights are stored compact.
\<close>

section \<open>Buffers\<close>

record device_buffer =
  buf_slice :: cuda_slice
  shape :: "u64 list"
  bf16 :: "cuda_slice option"

definition buffer_len :: "device_buffer \<Rightarrow> usize" where
  "buffer_len b = (case bf16 b of Some s \<Rightarrow> slen s | None \<Rightarrow> slen (buf_slice b))"

definition is_compact :: "device_buffer \<Rightarrow> bool" where
  "is_compact b \<longleftrightarrow> bf16 b \<noteq> None"

text \<open>\<open>CudaKernels::address\<close> and \<open>bf16_address\<close> (zero: no compact operand).\<close>

definition address :: "device_buffer \<Rightarrow> u64" where
  "address b = (case bf16 b of Some s \<Rightarrow> ptr s | None \<Rightarrow> ptr (buf_slice b))"

definition bf16_address :: "device_buffer \<Rightarrow> u64" where
  "bf16_address b = (case bf16 b of Some s \<Rightarrow> ptr s | None \<Rightarrow> 0)"

abbreviation plain :: "cuda_slice \<Rightarrow> u64 list \<Rightarrow> device_buffer" where
  "plain s sh \<equiv> \<lparr>buf_slice = s, shape = sh, bf16 = None\<rparr>"

datatype half_dtype = Float16 | BrainFloat16

record half_buffer =
  half_slice :: cuda_slice
  half_shape :: "u64 list"
  half_dtype :: half_dtype

text \<open>\<open>None\<close> is the \<open>unreachable!\<close> panic of an unknown operator.\<close>

definition half_kernel_name :: "string \<Rightarrow> half_dtype \<Rightarrow> string option" where
  "half_kernel_name op dtype =
     (if op = ''add'' \<and> dtype = Float16 then Some ''add_f16_kernel''
      else if op = ''add'' \<and> dtype = BrainFloat16 then Some ''add_bf16_kernel''
      else if op = ''mul'' \<and> dtype = Float16 then Some ''mul_f16_kernel''
      else if op = ''mul'' \<and> dtype = BrainFloat16 then Some ''mul_bf16_kernel''
      else None)"

section \<open>Shape checks\<close>

definition same_shape_buf :: "device_buffer \<Rightarrow> device_buffer \<Rightarrow> cuda_error + unit" where
  "same_shape_buf a b = (if shape a \<noteq> shape b then Inl (shape_error ''shape mismatch'') else Inr ())"

definition same_shape_half :: "half_buffer \<Rightarrow> half_buffer \<Rightarrow> cuda_error + unit" where
  "same_shape_half a b =
     (if half_shape a \<noteq> half_shape b then Inl (shape_error ''shape mismatch'')
      else if half_dtype a \<noteq> half_dtype b then Inl (shape_error ''dtype mismatch'')
      else Inr ())"

fun rows_cols :: "u64 list \<Rightarrow> cuda_error + (u64 \<times> u64)" where
  "rows_cols [rows, cols] = Inr (rows, cols)"
| "rows_cols _ = Inl (shape_error ''expected rank-2 tensor'')"

definition rows_cols_buf :: "device_buffer \<Rightarrow> cuda_error + (u64 \<times> u64)" where
  "rows_cols_buf b = rows_cols (shape b)"

lemma rows_cols_Inr: "rows_cols sh = Inr (r, c) \<longleftrightarrow> sh = [r, c]"
  by (induction sh rule: rows_cols.induct) auto

lemma rows_cols_buf_Inr [simp]: "rows_cols_buf b = Inr (r, c) \<longleftrightarrow> shape b = [r, c]"
  by (simp add: rows_cols_buf_def rows_cols_Inr)

definition require_f32 :: "device_buffer list \<Rightarrow> string \<Rightarrow> cuda_error + unit" where
  "require_f32 buffers what =
     (if list_ex is_compact buffers
      then Inl (cuda_error_new DTypeUnsupported (what @ '' does not read compact (bfloat16) operands''))
      else Inr ())"

lemma require_f32_Inr [simp]: "require_f32 bs what = Inr u \<longleftrightarrow> (\<forall>b \<in> set bs. bf16 b = None)"
  by (auto simp: require_f32_def list_ex_iff is_compact_def)

section \<open>Well-formed buffers\<close>

text \<open>
  The number of elements of a shape, in the wrapping \<open>u64\<close> arithmetic of the code.
\<close>

definition shape_len :: "u64 list \<Rightarrow> u64" where
  "shape_len sh = foldr (*) sh 1"

lemma shape_len_simps [simp]:
  "shape_len [] = 1" "shape_len (d # sh) = d * shape_len sh"
  by (simp_all add: shape_len_def)

text \<open>
  A well-formed buffer holds as many elements as its shape says; a compact one keeps a
  one-element placeholder beside its bits.
\<close>

definition wf_buffer :: "device_buffer \<Rightarrow> bool" where
  "wf_buffer b \<longleftrightarrow> buffer_len b = shape_len (shape b) \<and> (is_compact b \<longrightarrow> slen (buf_slice b) = 1)"

definition wf_half :: "half_buffer \<Rightarrow> bool" where
  "wf_half b \<longleftrightarrow> slen (half_slice b) = shape_len (half_shape b)"

definition wf_host :: "host_tensor \<Rightarrow> bool" where
  "wf_host t \<longleftrightarrow> of_nat (length (tdata t)) = shape_len (tshape t)"

lemma wf_plain [simp]: "wf_buffer (plain s sh) \<longleftrightarrow> slen s = shape_len sh"
  by (simp add: wf_buffer_def buffer_len_def is_compact_def)

lemma wf_buffer_f32: "wf_buffer b \<Longrightarrow> bf16 b = None \<Longrightarrow> slen (buf_slice b) = shape_len (shape b)"
  by (simp add: wf_buffer_def buffer_len_def)

section \<open>Compact weights\<close>

definition COMPACT_WEIGHT_MIN_ELEMENTS :: usize where
  "COMPACT_WEIGHT_MIN_ELEMENTS = push_bit 16 1"

definition exact_bf16_bits :: "f32 \<Rightarrow> u16 option" where
  "exact_bf16_bits value =
     (if value AND 0xFFFF = 0 then Some (ucast (drop_bit 16 value)) else None)"

lemma low_half_zero: "value AND 0xFFFF = 0 \<longleftrightarrow> unat value mod 2 ^ 16 = 0" for "value" :: f32
proof -
  have "(0xFFFF :: u32) = mask 16" by (simp add: mask_eq_exp_minus_1)
  then have "unat (value AND 0xFFFF) = unat value mod 2 ^ 16" by (simp only: unat_and_mask)
  then show ?thesis by (metis unat_eq_zero)
qed

lemma unat_bf16_to_f32: "unat (bf16_to_f32 b) = unat b * 2 ^ 16"
proof -
  have "unat b < 2 ^ 16" by (rule unat_lt2p_16)
  then show ?thesis unfolding bf16_to_f32_def unat_push_bit by (simp add: unat_ucast_mod)
qed

lemma high_half: "unat (ucast (drop_bit 16 v) :: u16) = unat v div 2 ^ 16" for v :: f32
proof -
  have "unat v < 2 ^ 32" using unsigned_less [of v] by simp
  then show ?thesis by (simp only: unat_ucast_mod unat_drop_bit) (simp add: less_mult_imp_div_less)
qed

text \<open>A value with a zero low half is the value of its high half.\<close>

lemma exact_bf16_value:
  assumes "exact_bf16_bits v = Some b"
  shows "b = ucast (drop_bit 16 v) \<and> bf16_to_f32 b = v"
proof -
  from assms have z: "unat v mod 2 ^ 16 = 0" and b: "b = ucast (drop_bit 16 v)"
    by (auto simp: exact_bf16_bits_def low_half_zero split: if_splits)
  have "unat (bf16_to_f32 b) = unat v" unfolding unat_bf16_to_f32 b high_half using z by (metis add_0_right div_mult_mod_eq)
  then have "bf16_to_f32 b = v" by (simp only: word_unat_eq_iff)
  then show ?thesis using b by simp
qed

text \<open>C30. The exactness test of a compact weight accepts a value exactly when converting its
  bfloat16 bits back gives the value bit for bit, so storing accepted weights compact loses nothing.\<close>
theorem exact_bf16_lossless:
  "exact_bf16_bits v = Some b \<longleftrightarrow> bf16_to_f32 b = v"
proof
  assume "exact_bf16_bits v = Some b"
  then show "bf16_to_f32 b = v" using exact_bf16_value by blast
next
  assume v: "bf16_to_f32 b = v"
  have "unat (ucast (drop_bit 16 v) :: u16) = unat b"
    unfolding high_half by (simp add: v [symmetric] unat_bf16_to_f32)
  then have "ucast (drop_bit 16 v) = b" by (simp only: word_unat_eq_iff)
  moreover have "unat v mod 2 ^ 16 = 0" by (simp add: v [symmetric] unat_bf16_to_f32)
  ultimately show "exact_bf16_bits v = Some b" by (simp add: exact_bf16_bits_def low_half_zero)
qed

end
