(* ===== verification/Launch_Plan.thy ===== *)
theory Launch_Plan
  imports Buffers
begin

text \<open>
  The launch geometry of \<open>src/kernels.rs\<close> that is computed before anything runs: the
  constants shared with the device code, the choice of the split-K Kernel and its grid,
  the attention Kernels per head dimension and their shared memory, and RoPE's checked
  launch size.
\<close>

section \<open>Constants\<close>

definition TC_BLOCK_M :: u64 where "TC_BLOCK_M = 64"
definition TC_BLOCK_N :: u64 where "TC_BLOCK_N = 64"
definition TC_THREADS :: u32 where "TC_THREADS = 128"
definition TCP_BLOCK_M :: u64 where "TCP_BLOCK_M = 128"
definition TCP_BLOCK_N :: u64 where "TCP_BLOCK_N = 64"
definition TCP_THREADS :: u32 where "TCP_THREADS = 256"
definition TCP_ALIGN :: u64 where "TCP_ALIGN = 8"
definition TCA_QUERIES :: u64 where "TCA_QUERIES = 64"
definition TCAP_KEYS :: u64 where "TCAP_KEYS = 32"
definition MATMUL_SPLIT_K :: u32 where "MATMUL_SPLIT_K = 16"
definition MATMUL_SPLIT_K_MAX_ROWS :: u64 where "MATMUL_SPLIT_K_MAX_ROWS = 65535"
definition MATMUL_ROWS :: u64 where "MATMUL_ROWS = 8"
definition MATMUL_TILE_MIN_ROWS :: u64 where "MATMUL_TILE_MIN_ROWS = 64"
definition MATMUL_TILE_BLOCK_COLUMNS :: u64 where "MATMUL_TILE_BLOCK_COLUMNS = 128"
definition RMSNORM_THREADS :: u32 where "RMSNORM_THREADS = 256"
definition ATTENTION_THREADS :: u32 where "ATTENTION_THREADS = 128"
definition ATTENTION_CHUNK_KEYS :: u64 where "ATTENTION_CHUNK_KEYS = 128"
definition ATTENTION_SPLIT_THREADS :: u32 where "ATTENTION_SPLIT_THREADS = 128"
definition ATTENTION_GQA_MAX_GROUP :: u64 where "ATTENTION_GQA_MAX_GROUP = 8"
definition ATTENTION_GQA_THREADS :: u32 where "ATTENTION_GQA_THREADS = 128"
definition ATTENTION_COMBINE_MAX_DYNAMIC_SHARED :: u32 where
  "ATTENTION_COMBINE_MAX_DYNAMIC_SHARED = 44 * 1024"
definition ATTENTION_TILE_QUERIES :: u64 where "ATTENTION_TILE_QUERIES = 64"
definition ATTENTION_MAX_SHARED_BYTES :: u64 where "ATTENTION_MAX_SHARED_BYTES = 48 * 1024"

lemmas plan_constants =
  TC_BLOCK_M_def TC_BLOCK_N_def TC_THREADS_def TCP_BLOCK_M_def TCP_BLOCK_N_def TCP_THREADS_def
  TCP_ALIGN_def TCA_QUERIES_def TCAP_KEYS_def MATMUL_SPLIT_K_def MATMUL_SPLIT_K_MAX_ROWS_def
  MATMUL_ROWS_def MATMUL_TILE_MIN_ROWS_def MATMUL_TILE_BLOCK_COLUMNS_def RMSNORM_THREADS_def
  ATTENTION_THREADS_def ATTENTION_CHUNK_KEYS_def ATTENTION_SPLIT_THREADS_def
  ATTENTION_GQA_MAX_GROUP_def ATTENTION_GQA_THREADS_def
  ATTENTION_COMBINE_MAX_DYNAMIC_SHARED_def ATTENTION_TILE_QUERIES_def ATTENTION_MAX_SHARED_BYTES_def

section \<open>Split-K matmul grids\<close>

text \<open>The three candidate Kernel names: one row per block, several rows, tiles.\<close>

definition split_k_rows ::
  "u64 \<Rightarrow> u64 \<Rightarrow> string \<times> string \<times> string \<Rightarrow> string \<times> (u32 \<times> u32 \<times> u32)" where
  "split_k_rows m n = (\<lambda>(single, multi, tile).
     if m \<ge> MATMUL_TILE_MIN_ROWS then
       (tile, (as_u32 (div_ceil n MATMUL_TILE_BLOCK_COLUMNS), as_u32 (div_ceil m MATMUL_ROWS), 1))
     else if m > 1 then
       (multi, (as_u32 (div_ceil n 32), as_u32 (div_ceil m MATMUL_ROWS), 1))
     else (single, (as_u32 (div_ceil n 32), as_u32 m, 1)))"

text \<open>
  Columns one block of the grid's x dimension and rows one block of its y dimension serve
  (\<open>kernels.cu\<close>: the tile Kernels take 8 rows by 128 columns, the multi-row ones 8 by
  32, the single-row ones 1 by 32).
\<close>

definition split_k_block :: "u64 \<Rightarrow> nat \<times> nat" where
  "split_k_block m = (if m \<ge> MATMUL_TILE_MIN_ROWS then (128, 8) else if m > 1 then (32, 8) else (32, 1))"

section \<open>Attention Kernels per head dimension\<close>

definition grouped_decode_kernel :: "u64 \<Rightarrow> (string \<times> u64) option" where
  "grouped_decode_kernel head_dimension =
     (if head_dimension = 64 then Some (''attention_split_gqa_kernel'', 64)
      else if head_dimension = 128 then Some (''attention_split_gqa128_kernel'', 32)
      else None)"

definition tensor_core_prefill_attention :: "u64 \<Rightarrow> (string \<times> u32) option" where
  "tensor_core_prefill_attention head_dimension =
     (let name = (if head_dimension = 64 then Some ''attention_tcp_kernel''
                  else if head_dimension = 128 then Some ''attention_tcp128_kernel''
                  else None)
      in case name of None \<Rightarrow> None
       | Some name \<Rightarrow>
           (let bytes = 4 * 2 * TCAP_KEYS * (head_dimension + 8) * 2
            in case try_u32 bytes of None \<Rightarrow> None | Some b \<Rightarrow> Some (name, b)))"

definition tiled_attention_kernel :: "u64 \<Rightarrow> string option" where
  "tiled_attention_kernel head_dimension =
     (if head_dimension = 4 then Some ''attention_tiled_1_kernel''
      else if head_dimension = 8 then Some ''attention_tiled_2_kernel''
      else if head_dimension = 16 then Some ''attention_tiled_4_kernel''
      else if head_dimension = 32 then Some ''attention_tiled_8_kernel''
      else if head_dimension = 64 then Some ''attention_tiled_16_kernel''
      else if head_dimension = 96 then Some ''attention_tiled_24_kernel''
      else if head_dimension = 128 then Some ''attention_tiled_32_kernel''
      else None)"

section \<open>RoPE\<close>

datatype rope_pairing = Interleaved | HalfSplit

definition from_attribute :: "string \<Rightarrow> rope_pairing option" where
  "from_attribute value =
     (if value = ''interleaved'' then Some Interleaved
      else if value = ''half_split'' then Some HalfSplit
      else None)"

definition rope_launch_work_items :: "u64 \<Rightarrow> u64 \<Rightarrow> u64 \<Rightarrow> cuda_error + u32" where
  "rope_launch_work_items rows head_count half =
     (case (case checked_mul rows head_count of None \<Rightarrow> None | Some v \<Rightarrow> checked_mul v half) of
        None \<Rightarrow> Inl (shape_error ''RoPE launch size overflows'')
      | Some work_items \<Rightarrow>
          (case try_u32 work_items of
             None \<Rightarrow> Inl (shape_error ''RoPE launch size exceeds u32::MAX work-items'')
           | Some w \<Rightarrow> Inr w))"

section \<open>What the plans guarantee\<close>

lemma unat_div_ceil_u32:
  assumes "b \<noteq> 0" "unat (div_ceil a b) < 2 ^ 32"
  shows "unat (as_u32 (div_ceil a b)) = unat (div_ceil a b)"
  using assms(2) by (simp add: unat_as_u32)

text \<open>C25. For every matmul the split-K path serves (at most 65,535 rows, and columns that fit
  the grid), the chosen grid covers every output row and column, none of its blocks is wholly
  outside the output, and its y dimension stays within CUDA's limit of 65,535 blocks.\<close>
theorem split_k_rows_covers:
  assumes m: "0 < m" "m \<le> MATMUL_SPLIT_K_MAX_ROWS" and n: "0 < n" "unat n < 2 ^ 32"
    and g: "split_k_rows m n names = (name, gx, gy, gz)" and b: "split_k_block m = (cols, rows)"
  shows "unat n \<le> unat gx * cols \<and> (unat gx - 1) * cols < unat n \<and>
         unat m \<le> unat gy * rows \<and> (unat gy - 1) * rows < unat m \<and> unat gy \<le> 65535 \<and> gz = 1"
proof -
  have nz: "m \<noteq> 0" "n \<noteq> 0" using m n by auto
  have mm: "unat m \<le> 65535" using m(2) by (simp add: word_le_nat_alt plan_constants)
  have le: "unat (div_ceil a c) \<le> unat a" if "a \<noteq> 0" "c \<noteq> 0" for a c :: u64
    using that by (intro div_ceil_le) (auto simp: unat_gt_0 [symmetric] intro: le_trans [OF _ mult_le_mono2])
  have xs: "unat (as_u32 (div_ceil n c)) = unat (div_ceil n c)" if "c \<noteq> 0" for c
    using le [OF nz(2) that] n(2) by (intro unat_div_ceil_u32 [OF that]) linarith
  have ys: "unat (as_u32 (div_ceil m c)) = unat (div_ceil m c)" "unat (div_ceil m c) \<le> 65535"
    if "c \<noteq> 0" for c
    using le [OF nz(1) that] mm by (auto intro!: unat_div_ceil_u32 [OF that])
  have yu: "unat (as_u32 m) = unat m" using mm by (simp add: unat_as_u32)
  note cov = div_ceil_covers [of 128 n] div_ceil_tight [of 128 n] div_ceil_covers [of 32 n]
    div_ceil_tight [of 32 n] div_ceil_covers [of 8 m] div_ceil_tight [of 8 m]
  show ?thesis
    using g b cov nz xs [of 128] xs [of 32] ys [of 8] yu mm
    by (cases names) (auto simp: split_k_rows_def split_k_block_def plan_constants split: if_splits)
qed

theorem split_k_rows_covers_witness:
  "split_k_rows 100 4096 (''s'', ''m'', ''t'') = (''t'', 32, 13, 1) \<and>
   unat (100 :: u64) \<le> unat (13 :: u32) * 8"
proof -
  have g: "split_k_rows 100 4096 (''s'', ''m'', ''t'') = (''t'', 32, 13, 1)"
    by (simp add: split_k_rows_def plan_constants div_ceil_def as_u32_def)
  have b: "split_k_block 100 = (128, 8)" by (simp add: split_k_block_def plan_constants)
  have "(0 :: u64) < 100" "(100 :: u64) \<le> MATMUL_SPLIT_K_MAX_ROWS" "(0 :: u64) < 4096"
    "unat (4096 :: u64) < 2 ^ 32" by (simp_all add: plan_constants)
  from split_k_rows_covers [OF this g b] g show ?thesis by blast
qed

text \<open>C31. RoPE's launch size is accepted exactly when the product of rows, heads and pairs, as
  integers, fits in 32 bits (and then it is that product); a zero factor never hides an overflow of
  the others except where the code multiplies them first.\<close>
theorem rope_launch_work_items_exact:
  "rope_launch_work_items rows heads half = Inr w \<longleftrightarrow>
     unat rows * unat heads < 2 ^ 64 \<and> unat w = unat rows * unat heads * unat half"
proof -
  have w32: "unat w < 2 ^ 32" using unsigned_less [of w] by simp
  show ?thesis
  proof (cases "checked_mul rows heads")
    case None
    then show ?thesis by (simp add: rope_launch_work_items_def checked_mul_def split: if_splits)
  next
    case (Some v)
    then have v: "unat v = unat rows * unat heads" "unat rows * unat heads < 2 ^ 64"
      by (auto simp: checked_mul_Some) (simp add: checked_mul_def split: if_splits)
    show ?thesis
    proof (cases "checked_mul v half")
      case None
      then have "\<not> unat v * unat half < 2 ^ 64" by (simp add: checked_mul_def split: if_splits)
      then show ?thesis using Some None v w32 by (auto simp: rope_launch_work_items_def)
    next
      case Some': (Some p)
      have p: "unat p = unat rows * unat heads * unat half" using checked_mul_Some [OF Some'] v by simp
      show ?thesis
      proof (cases "try_u32 p")
        case None
        then have "\<not> unat p < 2 ^ 32" by (simp add: try_u32_def split: if_splits)
        then show ?thesis using Some Some' None p w32 by (auto simp: rope_launch_work_items_def)
      next
        case Some'': (Some x)
        have "unat x = unat p" using try_u32_Some [OF Some''] .
        then show ?thesis using Some Some' Some'' p v
          by (auto simp: rope_launch_work_items_def word_unat_eq_iff)
      qed
    qed
  qed
qed

end
