(* ===== verification/Kernel_Core.thy ===== *)
theory Kernel_Core
  imports Launch_Plan
begin

text \<open>
  \<open>CudaKernels\<close> of \<open>src/kernels.rs\<close>: its state and the operations every Kernel is
  built from: step capture, the offered output buffer, uploads, downloads and the Tensor
  Core split. Every \<open>Mutex\<close> of the object is a field of the state; a computation runs
  with the locks its code holds, so it is one transition of the state.
\<close>

section \<open>State\<close>

record kernel_capture =
  advancing :: "string set"
  cap_offset :: cuda_slice
  max_offset :: u64
  failure :: "string option"
  has_embedding :: bool

record captured_step =
  graph :: cuda_graph
  step_offset :: cuda_slice
  step_max_offset :: u64
  step_has_embedding :: bool

record 'd kernels =
  device :: 'd
  tensor_module :: bool \<comment> \<open>\<open>tensor_module.is_some()\<close>\<close>
  upload_count :: u64
  download_count :: u64
  loaded_functions :: "string set" \<comment> \<open>names of the loaded_functions already looked up\<close>
  offered_output :: "cuda_slice option"
  capture :: "kernel_capture option"
  embedding_flag :: "cuda_slice option"
  attention_scratch :: "cuda_slice option \<times> cuda_slice list"
  split_scratch :: "cuda_slice option \<times> cuda_slice list"

type_synonym ('d, 'a) kernel_op = "('d kernels, cuda_error, 'a) exec"

text \<open>A call of the driver inside an operation, its error converted by \<open>From<DriverError>\<close>.\<close>

definition drv :: "'d external \<Rightarrow> ('d, cu_result, 'a) exec \<Rightarrow> ('d, 'a) kernel_op" where
  "drv D m = map_err (from_driver_error (cu_text D)) (inside device (\<lambda>d k. k\<lparr>device := d\<rparr>) m)"

definition new_kernels :: "'d \<Rightarrow> bool \<Rightarrow> 'd kernels" where
  "new_kernels d tensor =
     \<lparr>device = d, tensor_module = tensor, upload_count = 0, download_count = 0, loaded_functions = {},
      offered_output = None, capture = None, embedding_flag = None,
      attention_scratch = (None, []), split_scratch = (None, [])\<rparr>"

section \<open>Step capture\<close>

definition begin_capture :: "'d external \<Rightarrow> string set \<Rightarrow> ('d, unit) kernel_op" where
  "begin_capture D attrs =
     andthen (gets capture) (\<lambda>c.
     andthen (ensure (c = None) (capture_error ''a step capture is already in progress'')) (\<lambda>_.
     andthen (drv D (cu_alloc_zeros D U64 1)) (\<lambda>offset.
     andthen (gets embedding_flag) (\<lambda>slot.
     andthen (case slot of
         Some flag \<Rightarrow> ret flag
       | None \<Rightarrow> andthen (drv D (cu_alloc_zeros D I32 1)) (\<lambda>p.
                 andthen (modify (\<lambda>k. k\<lparr>embedding_flag := Some \<lparr>ptr = p, slen = 1\<rparr>\<rparr>)) (\<lambda>_.
                 ret \<lparr>ptr = p, slen = 1\<rparr>))) (\<lambda>flag.
     andthen (drv D (cu_begin_capture D)) (\<lambda>_.
     andthen (\<lambda>k. case drv D (cu_memset_zeros D flag) k of
         (Inr u, k) \<Rightarrow> (Inr u, k)
       | (Inl e, k) \<Rightarrow> andthen (attempt (drv D (cu_end_capture D))) (\<lambda>_. throw e) k) (\<lambda>_.
     modify (\<lambda>k. k\<lparr>capture := Some \<lparr>advancing = attrs, cap_offset = \<lparr>ptr = offset, slen = 1\<rparr>,
        max_offset = - 1, failure = None, has_embedding = False\<rparr>\<rparr>))))))))"

definition end_capture :: "'d external \<Rightarrow> ('d, captured_step) kernel_op" where
  "end_capture D =
     andthen (gets capture) (\<lambda>c.
     andthen (modify (\<lambda>k. k\<lparr>capture := None\<rparr>)) (\<lambda>_.
     (case c of
        None \<Rightarrow> throw (capture_error ''no step capture is in progress'')
      | Some c \<Rightarrow>
          (\<lambda>k. case drv D (cu_end_capture D) k of (g, k) \<Rightarrow>
             (case failure c of
                Some reason \<Rightarrow> throw (capture_error reason) k
              | None \<Rightarrow>
                  andthen (lift g) (\<lambda>g.
                  (case g of
                     None \<Rightarrow> throw (capture_error ''the step capture recorded no work'')
                   | Some g \<Rightarrow> ret \<lparr>graph = g, step_offset = cap_offset c,
                       step_max_offset = max_offset c, step_has_embedding = has_embedding c\<rparr>)) k)))))"

definition abort_capture :: "'d external \<Rightarrow> ('d, unit) kernel_op" where
  "abort_capture D =
     andthen (gets capture) (\<lambda>c.
     andthen (modify (\<lambda>k. k\<lparr>capture := None\<rparr>)) (\<lambda>_.
     (case c of None \<Rightarrow> ret ()
      | Some _ \<Rightarrow> andthen (attempt (drv D (cu_end_capture D))) (\<lambda>_. ret ()))))"

definition launch_captured :: "'d external \<Rightarrow> captured_step \<Rightarrow> u64 \<Rightarrow> ('d, unit) kernel_op" where
  "launch_captured D step offset =
     andthen (drv D (cu_memcpy_htod D (HU64 [offset]) (ptr (step_offset step)))) (\<lambda>_.
     drv D (cu_graph_launch D (graph step)))"

definition forbid_in_capture :: "string \<Rightarrow> ('d, unit) kernel_op" where
  "forbid_in_capture what = (\<lambda>k. case capture k of
       Some c \<Rightarrow>
         (let reason = what @ '' cannot be captured'';
              c' = c\<lparr>failure := Some (case failure c of Some r \<Rightarrow> r | None \<Rightarrow> reason)\<rparr>
          in (Inl (capture_error reason), k\<lparr>capture := Some c'\<rparr>))
     | None \<Rightarrow> (Inr (), k))"

definition advancing_offset :: "string \<Rightarrow> u64 \<Rightarrow> ('d, u64) kernel_op" where
  "advancing_offset attribute limit = (\<lambda>k. case capture k of
       Some c \<Rightarrow>
         (if attribute \<in> advancing c then
            (Inr (ptr (cap_offset c)), k\<lparr>capture := Some (c\<lparr>max_offset := min (max_offset c) limit\<rparr>)\<rparr>)
          else (Inr 0, k))
     | None \<Rightarrow> (Inr 0, k))"

definition is_capturing :: "'d kernels \<Rightarrow> bool" where
  "is_capturing k \<longleftrightarrow> capture k \<noteq> None"

section \<open>Functions and launches\<close>

definition load_function :: "'d external \<Rightarrow> string \<Rightarrow> ('d, unit) kernel_op" where
  "load_function D name =
     andthen (gets loaded_functions) (\<lambda>fs.
     (if name \<in> fs then ret ()
      else andthen (drv D (cu_load_function D name)) (\<lambda>_.
           modify (\<lambda>k. k\<lparr>loaded_functions := insert name (loaded_functions k)\<rparr>))))"

definition tensor_function :: "'d external \<Rightarrow> string \<Rightarrow> ('d, unit option) kernel_op" where
  "tensor_function D name =
     andthen (gets id) (\<lambda>k.
     (if \<not> tensor_module k then ret None
      else if name \<in> loaded_functions k then ret (Some ())
      else andthen (attempt (drv D (cu_load_tensor_function D name))) (\<lambda>r.
           (case r of None \<Rightarrow> ret None
            | Some _ \<Rightarrow> andthen (modify (\<lambda>k. k\<lparr>loaded_functions := insert name (loaded_functions k)\<rparr>)) (\<lambda>_.
                ret (Some ()))))))"

definition launch_kernel ::
  "'d external \<Rightarrow> string \<Rightarrow> karg list \<Rightarrow> launch_config \<Rightarrow> ('d, unit) kernel_op" where
  "launch_kernel D name args cfg = drv D (cu_launch D \<lparr>function_name = name, kargs = args, config = cfg\<rparr>)"

section \<open>Output buffers\<close>

text \<open>\<open>offer_output\<close>, and \<open>OfferedOutput::reclaim\<close>; dropping the guard clears the slot too.\<close>

definition offer_output :: "cuda_slice option \<Rightarrow> 'd kernels \<Rightarrow> 'd kernels" where
  "offer_output b k = k\<lparr>offered_output := b\<rparr>"

definition reclaim :: "'d kernels \<Rightarrow> cuda_slice option \<times> 'd kernels" where
  "reclaim k = (offered_output k, k\<lparr>offered_output := None\<rparr>)"

definition drop_offer :: "'d kernels \<Rightarrow> 'd kernels" where
  "drop_offer k = k\<lparr>offered_output := None\<rparr>"

definition alloc :: "'d external \<Rightarrow> elem \<Rightarrow> usize \<Rightarrow> ('d, cuda_slice) kernel_op" where
  "alloc D ty len = andthen (drv D (cu_alloc D ty len)) (\<lambda>p. ret \<lparr>ptr = p, slen = len\<rparr>)"

definition alloc_zeros :: "'d external \<Rightarrow> elem \<Rightarrow> usize \<Rightarrow> ('d, cuda_slice) kernel_op" where
  "alloc_zeros D ty len = andthen (drv D (cu_alloc_zeros D ty len)) (\<lambda>p. ret \<lparr>ptr = p, slen = len\<rparr>)"

definition alloc_output :: "'d external \<Rightarrow> usize \<Rightarrow> ('d, cuda_slice) kernel_op" where
  "alloc_output D len =
     andthen (gets offered_output) (\<lambda>offered.
     (case offered of
        Some s \<Rightarrow>
          (if slen s = len then andthen (modify drop_offer) (\<lambda>_. ret s)
           else andthen (forbid_in_capture ''a device allocation'') (\<lambda>_. alloc D F32 len))
      | None \<Rightarrow> andthen (forbid_in_capture ''a device allocation'') (\<lambda>_. alloc D F32 len)))"

section \<open>Transfers\<close>

definition count_upload :: "('d, unit) kernel_op" where
  "count_upload = modify (\<lambda>k. k\<lparr>upload_count := upload_count k + 1\<rparr>)"

definition count_download :: "('d, unit) kernel_op" where
  "count_download = modify (\<lambda>k. k\<lparr>download_count := download_count k + 1\<rparr>)"

definition host_error :: "string \<Rightarrow> cuda_error" where
  "host_error text = shape_error text"

definition host_tensor_new :: "'d external \<Rightarrow> u64 list \<Rightarrow> f32 list \<Rightarrow> cuda_error + host_tensor" where
  "host_tensor_new D sh data = (case host_new D sh data of Inl e \<Rightarrow> Inl (host_error e) | Inr t \<Rightarrow> Inr t)"

abbreviation data_len :: "'a list \<Rightarrow> usize" where
  "data_len xs \<equiv> of_nat (length xs)"

definition write_into :: "'d external \<Rightarrow> device_buffer \<Rightarrow> f32 list \<Rightarrow> ('d, unit) kernel_op" where
  "write_into D buffer values =
     andthen (lift (require_f32 [buffer] ''a buffer write'')) (\<lambda>_.
     andthen (ensure (data_len values = slen (buf_slice buffer))
       (shape_error ''values cannot overwrite a buffer'')) (\<lambda>_.
     andthen (drv D (cu_memcpy_htod D (HF32 values) (ptr (buf_slice buffer)))) (\<lambda>_.
     count_upload)))"

definition upload :: "'d external \<Rightarrow> host_tensor \<Rightarrow> ('d, device_buffer) kernel_op" where
  "upload D tensor =
     andthen (forbid_in_capture ''a host-to-device upload'') (\<lambda>_.
     andthen (drv D (cu_clone_htod D (HF32 (tdata tensor)))) (\<lambda>p.
     andthen count_upload (\<lambda>_.
     ret (plain \<lparr>ptr = p, slen = data_len (tdata tensor)\<rparr> (tshape tensor)))))"

fun checked_product :: "u64 list \<Rightarrow> u64 \<Rightarrow> u64 option" where
  "checked_product [] len = Some len"
| "checked_product (d # sh) len =
     (case checked_mul len d of None \<Rightarrow> None | Some len' \<Rightarrow> checked_product sh len')"

definition zeros :: "'d external \<Rightarrow> u64 list \<Rightarrow> ('d, device_buffer) kernel_op" where
  "zeros D sh =
     andthen (forbid_in_capture ''a device allocation'') (\<lambda>_.
     (case checked_product sh 1 of
        None \<Rightarrow> throw (shape_error ''a zeroed tensor does not fit in memory'')
      | Some len \<Rightarrow> andthen (alloc_zeros D F32 len) (\<lambda>s. ret (plain s sh))))"

text \<open>\<open>slice::chunks\<close>, and the copy of each chunk to its place in the destination.\<close>

definition CHUNK :: nat where "CHUNK = 2 ^ 20"

function chunks :: "nat \<Rightarrow> 'a list \<Rightarrow> 'a list list" where
  "chunks n xs = (if xs = [] \<or> n = 0 then [] else take n xs # chunks n (drop n xs))"
  by pat_completeness auto
termination
  by (relation "measure (\<lambda>(n, xs). length xs)") auto

declare chunks.simps [simp del]

definition upload_chunk ::
  "'d external \<Rightarrow> cuda_slice \<Rightarrow> nat \<Rightarrow> f32 list \<Rightarrow> ('d, unit) kernel_op" where
  "upload_chunk D bits index chunk =
     drv D (cu_memcpy_htod D (HU16 (map (\<lambda>value. ucast (drop_bit 16 value)) chunk))
       (ptr bits + of_nat (2 * (index * CHUNK))))"

fun upload_chunks ::
  "'d external \<Rightarrow> cuda_slice \<Rightarrow> nat \<Rightarrow> f32 list list \<Rightarrow> ('d, unit) kernel_op" where
  "upload_chunks D bits index [] = ret ()"
| "upload_chunks D bits index (c # cs) =
     andthen (upload_chunk D bits index c) (\<lambda>_. upload_chunks D bits (Suc index) cs)"

definition compact_eligible :: "host_tensor \<Rightarrow> bool" where
  "compact_eligible tensor \<longleftrightarrow> length (tshape tensor) = 2 \<and>
     COMPACT_WEIGHT_MIN_ELEMENTS \<le> data_len (tdata tensor) \<and>
     list_all (\<lambda>value. exact_bf16_bits value \<noteq> None) (tdata tensor)"

definition upload_weight :: "'d external \<Rightarrow> host_tensor \<Rightarrow> ('d, device_buffer) kernel_op" where
  "upload_weight D tensor =
     (if \<not> compact_eligible tensor then upload D tensor
      else
        andthen (forbid_in_capture ''a host-to-device upload'') (\<lambda>_.
        andthen (alloc D U16 (data_len (tdata tensor))) (\<lambda>bits.
        andthen (upload_chunks D bits 0 (chunks CHUNK (tdata tensor))) (\<lambda>_.
        andthen (alloc_zeros D F32 1) (\<lambda>placeholder.
        andthen count_upload (\<lambda>_.
        ret \<lparr>buf_slice = placeholder, shape = tshape tensor, bf16 = Some bits\<rparr>))))))"

definition download :: "'d external \<Rightarrow> device_buffer \<Rightarrow> ('d, host_tensor) kernel_op" where
  "download D buffer =
     andthen (forbid_in_capture ''a device-to-host download'') (\<lambda>_.
     andthen (case bf16 buffer of
         Some bits \<Rightarrow> andthen (drv D (cu_dtoh_u16 D (ptr bits) (slen bits))) (\<lambda>bs.
                      ret (map bf16_to_f32 bs))
       | None \<Rightarrow> drv D (cu_dtoh_f32 D (ptr (buf_slice buffer)) (slen (buf_slice buffer)))) (\<lambda>data.
     andthen (drv D (cu_synchronize D)) (\<lambda>_.
     andthen count_download (\<lambda>_.
     lift (host_tensor_new D (shape buffer) data)))))"

definition expand :: "'d external \<Rightarrow> device_buffer \<Rightarrow> ('d, device_buffer) kernel_op" where
  "expand D buffer = andthen (download D buffer) (\<lambda>tensor. upload D tensor)"

text \<open>
  \<open>download_rows\<close>: \<open>None\<close> for a compact buffer, another rank or a range past its end.
\<close>

definition download_rows ::
  "'d external \<Rightarrow> device_buffer \<Rightarrow> u64 \<Rightarrow> u64 \<Rightarrow> ('d, host_tensor option) kernel_op" where
  "download_rows D buffer first_row rows =
     andthen (forbid_in_capture ''a device-to-host download'') (\<lambda>_.
     (case shape buffer of
        [total_rows, columns] \<Rightarrow>
          (if is_compact buffer \<or> saturating_add first_row rows > total_rows then ret None
           else
             (let start = first_row * columns; stop = (first_row + rows) * columns
              in andthen (drv D (cu_dtoh_f32 D (ptr (buf_slice buffer) + 4 * start) (stop - start))) (\<lambda>data.
                 andthen (drv D (cu_synchronize D)) (\<lambda>_.
                 andthen count_download (\<lambda>_.
                 andthen (lift (host_tensor_new D [rows, columns] data)) (\<lambda>t. ret (Some t)))))))
      | _ \<Rightarrow> ret None))"

definition upload_half :: "'d external \<Rightarrow> host_tensor \<Rightarrow> half_dtype \<Rightarrow> ('d, half_buffer) kernel_op" where
  "upload_half D tensor dtype =
     andthen (forbid_in_capture ''a host-to-device upload'') (\<lambda>_.
     andthen (drv D (cu_clone_htod D (HU16
        (case dtype of Float16 \<Rightarrow> map f32_to_f16 (tdata tensor)
         | BrainFloat16 \<Rightarrow> map f32_to_bf16 (tdata tensor))))) (\<lambda>p.
     andthen count_upload (\<lambda>_.
     ret \<lparr>half_slice = \<lparr>ptr = p, slen = data_len (tdata tensor)\<rparr>, half_shape = tshape tensor,
          half_dtype = dtype\<rparr>)))"

text \<open>\<open>f16_to_f32\<close> always returns (\<open>Half_Rounding\<close>), so \<open>the\<close> reads its value.\<close>

definition download_half :: "'d external \<Rightarrow> half_buffer \<Rightarrow> ('d, host_tensor) kernel_op" where
  "download_half D buffer =
     andthen (forbid_in_capture ''a device-to-host download'') (\<lambda>_.
     andthen (drv D (cu_dtoh_u16 D (ptr (half_slice buffer)) (slen (half_slice buffer)))) (\<lambda>bits.
     andthen (drv D (cu_synchronize D)) (\<lambda>_.
     andthen count_download (\<lambda>_.
     lift (host_tensor_new D (half_shape buffer)
       (case half_dtype buffer of Float16 \<Rightarrow> map (\<lambda>b. the (f16_to_f32 b)) bits
        | BrainFloat16 \<Rightarrow> map bf16_to_f32 bits))))))"

definition clone_buffer :: "'d external \<Rightarrow> device_buffer \<Rightarrow> ('d, device_buffer) kernel_op" where
  "clone_buffer D buffer =
     andthen (forbid_in_capture ''a buffer copy'') (\<lambda>_.
     andthen (drv D (cu_clone_dtod D F32 (buf_slice buffer))) (\<lambda>p.
     andthen (case bf16 buffer of
         Some bits \<Rightarrow> andthen (drv D (cu_clone_dtod D U16 bits)) (\<lambda>q.
                      ret (Some \<lparr>ptr = q, slen = slen bits\<rparr>))
       | None \<Rightarrow> ret None) (\<lambda>bits.
     ret \<lparr>buf_slice = \<lparr>ptr = p, slen = slen (buf_slice buffer)\<rparr>, shape = shape buffer, bf16 = bits\<rparr>)))"

section \<open>The Tensor Core split\<close>

text \<open>The scratch holds each input's bfloat16 hi terms and then its lo terms, in order.\<close>

fun split_launches ::
  "'d external \<Rightarrow> u64 \<Rightarrow> (device_buffer \<times> u64) list \<Rightarrow> ('d, (u64 \<times> u64) list) kernel_op" where
  "split_launches D next [] = ret []"
| "split_launches D next ((input, len) # rest) =
     (let hi = next; lo = hi + len * 2; next = lo + len * 2
      in andthen (launch_kernel D ''tc_split_kernel''
             [APtr (ptr (buf_slice input)), APtr hi, APtr lo, AU64 len]
             \<lparr>grid_dim = (as_u32 (min (max (div_ceil len 256) 1) 4096), 1, 1),
              block_dim = (256, 1, 1), shared_mem_bytes = 0\<rparr>) (\<lambda>_.
         andthen (split_launches D next rest) (\<lambda>terms. ret ((hi, lo) # terms))))"

definition split_bf16_all ::
  "'d external \<Rightarrow> (device_buffer \<times> u64) list \<Rightarrow> ('d, (u64 \<times> u64) list option) kernel_op" where
  "split_bf16_all D inputs =
     andthen (tensor_function D ''tc_split_kernel'') (\<lambda>func.
     (case func of
        None \<Rightarrow> ret None
      | Some _ \<Rightarrow>
          (let total = sum_list (map snd inputs) * 2
           in andthen (gets split_scratch) (\<lambda>scratch.
              andthen
                (if (case fst scratch of None \<Rightarrow> True | Some s \<Rightarrow> slen s < total) then
                   andthen (forbid_in_capture ''growing the Tensor Core split buffer'') (\<lambda>_.
                   andthen (alloc D U16 (max total (push_bit 20 1))) (\<lambda>grown.
                   andthen (modify (\<lambda>k. k\<lparr>split_scratch :=
                      (Some grown, snd scratch @ (case fst scratch of None \<Rightarrow> [] | Some s \<Rightarrow> [s]))\<rparr>)) (\<lambda>_.
                   ret grown)))
                 else ret (the (fst scratch))) (\<lambda>buffer.
              andthen (split_launches D (ptr buffer) inputs) (\<lambda>terms. ret (Some terms)))))))"

definition split_bf16 ::
  "'d external \<Rightarrow> device_buffer \<Rightarrow> u64 \<Rightarrow> ('d, (u64 \<times> u64) option) kernel_op" where
  "split_bf16 D a len = andthen (split_bf16_all D [(a, len)]) (\<lambda>r. ret (map_option hd r))"

end
