(* ===== verification/Kernel_Frame.thy ===== *)
theory Kernel_Frame
  imports Kernel_Core
begin

text \<open>
  What the operations of \<open>Kernel_Core\<close> keep of a step capture in progress, and what they
  return. Between its begin and its end a capture stays open, its offset buffer stays, the
  bound on the replay offset only tightens, a recorded failure stays the first one, and
  nothing but launches (and the copies that are captured like launches) reaches the device.
\<close>

section \<open>The relation every captured operation keeps\<close>

definition capture_le :: "kernel_capture option \<Rightarrow> kernel_capture option \<Rightarrow> bool" where
  "capture_le x y \<longleftrightarrow>
     (case x of None \<Rightarrow> y = None
      | Some c \<Rightarrow> (case y of None \<Rightarrow> False
         | Some c' \<Rightarrow> advancing c' = advancing c \<and> cap_offset c' = cap_offset c \<and>
             max_offset c' \<le> max_offset c \<and> (failure c \<noteq> None \<longrightarrow> failure c' = failure c) \<and>
             (has_embedding c \<longrightarrow> has_embedding c')))"

lemma capture_le_refl [simp]: "capture_le x x"
  by (simp add: capture_le_def split: option.split)

lemma capture_le_trans: "capture_le x y \<Longrightarrow> capture_le y z \<Longrightarrow> capture_le x z"
  by (auto simp: capture_le_def split: option.splits)

lemma capture_le_Some: "capture_le x y \<Longrightarrow> (y \<noteq> None) = (x \<noteq> None)"
  by (auto simp: capture_le_def split: option.splits)

text \<open>
  The calls a capture records instead of running: launches and device-to-device copies,
  and the module lookups that touch no stream. \<open>P\<close> is any property of the device they
  keep, for instance the number of allocations, transfers and synchronizations so far.
\<close>

definition recorded_keeps :: "'d external \<Rightarrow> ('d \<Rightarrow> bool) \<Rightarrow> bool" where
  "recorded_keeps D P \<longleftrightarrow>
     (\<forall>l d. P d \<longrightarrow> P (snd (cu_launch D l d))) \<and>
     (\<forall>s p d. P d \<longrightarrow> P (snd (cu_memcpy_dtod D s p d))) \<and>
     (\<forall>f d. P d \<longrightarrow> P (snd (cu_load_function D f d))) \<and>
     (\<forall>f d. P d \<longrightarrow> P (snd (cu_load_tensor_function D f d))) \<and>
     (\<forall>f n d. P d \<longrightarrow> P (snd (cu_set_max_shared D f n d)))"

text \<open>The offered output buffer is taken by an operation or left; none is put back.\<close>

definition offer_le :: "cuda_slice option \<Rightarrow> cuda_slice option \<Rightarrow> bool" where
  "offer_le x y \<longleftrightarrow> y = None \<or> y = x"

lemma offer_le_refl [simp]: "offer_le x x"
  by (simp add: offer_le_def)

lemma offer_le_None [simp]: "offer_le x None"
  by (simp add: offer_le_def)

lemma offer_le_trans: "offer_le x y \<Longrightarrow> offer_le y z \<Longrightarrow> offer_le x z"
  by (auto simp: offer_le_def)

text \<open>
  One relation for all: the capture evolves by \<open>capture_le\<close>, the offer by
  \<open>offer_le\<close>, and while capturing the device keeps \<open>P\<close>.
\<close>

definition frame_le :: "('d \<Rightarrow> bool) \<Rightarrow> 'd kernels \<Rightarrow> 'd kernels \<Rightarrow> bool" where
  "frame_le P k k' \<longleftrightarrow>
     capture_le (capture k) (capture k') \<and> offer_le (offered_output k) (offered_output k') \<and>
     (is_capturing k \<and> P (device k) \<longrightarrow> P (device k'))"

interpretation kf: frame "frame_le P" for P :: "'d \<Rightarrow> bool"
  by unfold_locales
    (auto simp: frame_le_def is_capturing_def dest: capture_le_trans capture_le_Some offer_le_trans)

section \<open>The primitive steps\<close>

lemma device_drv: "snd (drv D m k) = k\<lparr>device := snd (m (device k))\<rparr>"
  by (simp add: drv_def map_err_def inside_def split: prod.splits sum.splits)

text \<open>A driver call that a capture records.\<close>

lemma keeps_drv_recorded:
  assumes "\<And>d. P d \<Longrightarrow> P (snd (m d))"
  shows "keeps (frame_le P) (drv D m)"
  using assms by (simp add: keeps_def device_drv frame_le_def is_capturing_def)

text \<open>Any other driver call is behind \<open>forbid_in_capture\<close>: it runs outside a capture only.\<close>

definition keeps_outside :: "('d \<Rightarrow> bool) \<Rightarrow> ('d, 'a) kernel_op \<Rightarrow> bool" where
  "keeps_outside P m \<longleftrightarrow> (\<forall>k. \<not> is_capturing k \<longrightarrow>
     \<not> is_capturing (snd (m k)) \<and> offer_le (offered_output k) (offered_output (snd (m k))))"

lemma keeps_forbid_then:
  assumes "keeps_outside P (f ())"
  shows "keeps (frame_le P) (andthen (forbid_in_capture what) f)"
  using assms
  by (auto simp: keeps_def keeps_outside_def andthen_def forbid_in_capture_def frame_le_def
      is_capturing_def capture_le_def Let_def split: option.splits)

lemma keeps_forbid: "keeps (frame_le P) (forbid_in_capture what)"
  by (auto simp: keeps_def forbid_in_capture_def frame_le_def is_capturing_def capture_le_def Let_def
      split: option.splits)

lemma outside_drv: "keeps_outside P (drv D m)"
  by (simp add: keeps_outside_def device_drv is_capturing_def)

lemma outside_andthen:
  assumes "keeps_outside P m" "\<And>x. keeps_outside P (f x)"
  shows "keeps_outside P (andthen m f)"
  using assms
  by (fastforce simp: keeps_outside_def andthen_def split: prod.splits sum.splits dest: offer_le_trans)

lemma outside_keeps: "keeps (frame_le P) m \<Longrightarrow> keeps_outside P m"
  by (auto simp: keeps_def keeps_outside_def frame_le_def is_capturing_def dest: capture_le_Some)

text \<open>State updates that leave the capture and the device alone.\<close>

lemma keeps_modify:
  assumes "\<And>k. capture (f k) = capture k" "\<And>k. device (f k) = device k"
    "\<And>k. offer_le (offered_output k) (offered_output (f k))"
  shows "keeps (frame_le P) (modify f)"
  using assms by (simp add: keeps_def modify_def frame_le_def)

lemma keeps_advancing: "keeps (frame_le P) (advancing_offset a n)"
  by (auto simp: keeps_def advancing_offset_def frame_le_def capture_le_def split: option.splits)

section \<open>The operations of the core\<close>

lemmas frame_rules =
  keeps_forbid_then kf.keeps_andthen kf.keeps_ret kf.keeps_throw kf.keeps_gets kf.keeps_lift
  kf.keeps_ensure keeps_forbid keeps_advancing kf.keeps_attempt
  keeps_if keeps_option keeps_prod keeps_list keeps_sum keeps_Let

lemmas outside_rules =
  outside_andthen outside_drv outside_keeps [OF kf.keeps_ret] outside_keeps [OF kf.keeps_throw]
  outside_keeps [OF kf.keeps_gets] outside_keeps [OF kf.keeps_lift] outside_keeps [OF kf.keeps_ensure]

lemma keeps_counts: "keeps (frame_le P) count_upload" "keeps (frame_le P) count_download"
  unfolding count_upload_def count_download_def by (rule keeps_modify; simp)+

lemma outside_counts: "keeps_outside P count_upload" "keeps_outside P count_download"
  by (rule outside_keeps keeps_counts)+

lemma outside_alloc: "keeps_outside P (alloc D ty n)" "keeps_outside P (alloc_zeros D ty n)"
  unfolding alloc_def alloc_zeros_def by (rule outside_rules)+

lemma outside_option:
  "(x = None \<Longrightarrow> keeps_outside P m) \<Longrightarrow> (\<And>y. x = Some y \<Longrightarrow> keeps_outside P (f y)) \<Longrightarrow>
   keeps_outside P (case x of None \<Rightarrow> m | Some y \<Rightarrow> f y)"
  by (cases x) simp_all

lemma outside_list:
  "(x = [] \<Longrightarrow> keeps_outside P m) \<Longrightarrow> (\<And>y ys. x = y # ys \<Longrightarrow> keeps_outside P (f y ys)) \<Longrightarrow>
   keeps_outside P (case x of [] \<Rightarrow> m | y # ys \<Rightarrow> f y ys)"
  by (cases x) simp_all

lemma outside_if:
  "keeps_outside P m \<Longrightarrow> keeps_outside P n \<Longrightarrow> keeps_outside P (if b then m else n)"
  by simp

lemma outside_Let: "keeps_outside P (f x) \<Longrightarrow> keeps_outside P (let y = x in f y)"
  by simp

lemmas outside_all = outside_option outside_list outside_if outside_Let outside_rules outside_alloc
  outside_counts

lemma outside_upload_chunks: "keeps_outside P (upload_chunks D b i cs)"
  by (induction cs arbitrary: i) (simp_all, (rule outside_all | simp add: upload_chunk_def outside_drv)+)

lemma keeps_upload: "keeps (frame_le P) (upload D t)"
  unfolding upload_def by (rule keeps_forbid_then outside_all)+

lemma keeps_zeros: "keeps (frame_le P) (zeros D sh)"
  unfolding zeros_def by (rule keeps_forbid_then outside_all)+

lemma keeps_upload_weight: "keeps (frame_le P) (upload_weight D t)"
  unfolding upload_weight_def
  by (rule keeps_if keeps_upload keeps_forbid_then outside_upload_chunks outside_all)+

lemma keeps_download: "keeps (frame_le P) (download D b)"
  unfolding download_def by (rule keeps_forbid_then outside_all)+

lemma keeps_download_rows: "keeps (frame_le P) (download_rows D b r n)"
  unfolding download_rows_def by (rule keeps_forbid_then outside_all)+

lemma keeps_halves: "keeps (frame_le P) (upload_half D t dt)" "keeps (frame_le P) (download_half D h)"
  unfolding upload_half_def download_half_def by (rule keeps_forbid_then outside_all)+

lemma keeps_expand: "keeps (frame_le P) (expand D b)"
  unfolding expand_def by (rule kf.keeps_andthen keeps_download keeps_upload)+

lemma keeps_clone_buffer: "keeps (frame_le P) (clone_buffer D b)"
  unfolding clone_buffer_def by (rule keeps_forbid_then outside_all)+

lemma keeps_alloc_output: "keeps (frame_le P) (alloc_output D n)"
  unfolding alloc_output_def
  by (rule frame_rules outside_alloc keeps_modify | simp add: drop_offer_def)+

text \<open>From here on the calls are recorded ones.\<close>

lemma keeps_launch: "recorded_keeps D P \<Longrightarrow> keeps (frame_le P) (launch_kernel D n args c)"
  unfolding launch_kernel_def by (rule keeps_drv_recorded) (simp add: recorded_keeps_def)

lemma keeps_load_function: "recorded_keeps D P \<Longrightarrow> keeps (frame_le P) (load_function D n)"
  unfolding load_function_def
  by (rule frame_rules keeps_drv_recorded keeps_modify | simp add: recorded_keeps_def)+

lemma keeps_tensor_function: "recorded_keeps D P \<Longrightarrow> keeps (frame_le P) (tensor_function D n)"
  unfolding tensor_function_def
  by (rule frame_rules keeps_drv_recorded keeps_modify | simp add: recorded_keeps_def)+

lemma keeps_split_launches: "recorded_keeps D P \<Longrightarrow> keeps (frame_le P) (split_launches D n xs)"
proof (induction D n xs rule: split_launches.induct)
  case (2 D n input len rest)
  then show ?case
    unfolding split_launches.simps Let_def by (intro kf.keeps_andthen keeps_launch kf.keeps_ret) auto
qed (simp add: kf.keeps_ret)

lemma keeps_split_bf16_all: "recorded_keeps D P \<Longrightarrow> keeps (frame_le P) (split_bf16_all D xs)"
  unfolding split_bf16_all_def
  by (rule keeps_tensor_function keeps_split_launches outside_all frame_rules keeps_modify
      outside_keeps [OF keeps_modify] | assumption | simp)+

lemma keeps_split_bf16: "recorded_keeps D P \<Longrightarrow> keeps (frame_le P) (split_bf16 D a n)"
  unfolding split_bf16_def by (rule kf.keeps_andthen keeps_split_bf16_all kf.keeps_ret | assumption)+

end
