(* ===== verification/Kernel_Ops.thy ===== *)
theory Kernel_Ops
  imports Kernel_Frame
begin

text \<open>
  The Kernels of \<open>src/kernels.rs\<close> outside the matmul and attention families: their
  validation, the buffers they take, and the launch they make.
\<close>

section \<open>Elementwise Kernels\<close>

text \<open>A launch of one thread per element, \<open>LaunchConfig::for_num_elems(n as u32)\<close>.\<close>

definition launch_elems :: "'d external \<Rightarrow> string \<Rightarrow> karg list \<Rightarrow> u64 \<Rightarrow> ('d, unit) kernel_op" where
  "launch_elems D name args n =
     andthen (load_function D name) (\<lambda>_. launch_kernel D name args (for_num_elems D (as_u32 n)))"

definition kv_write ::
  "'d external \<Rightarrow> device_buffer \<Rightarrow> device_buffer \<Rightarrow> u64 \<Rightarrow> ('d, unit) kernel_op" where
  "kv_write D store rows row_offset =
     andthen (lift (require_f32 [store, rows] ''kv-write'')) (\<lambda>_.
     andthen (lift (rows_cols_buf store)) (\<lambda>(capacity, width).
     andthen (lift (rows_cols_buf rows)) (\<lambda>(count, row_width).
     andthen (ensure (row_width = width) (shape_error ''kv-write rows have another width'')) (\<lambda>_.
     andthen (ensure (case checked_add row_offset count of None \<Rightarrow> False | Some stop \<Rightarrow> \<not> stop > capacity)
       (shape_error ''kv-write exceeds the store's rows'')) (\<lambda>_.
     andthen (advancing_offset ''row_offset'' (capacity - (row_offset + count))) (\<lambda>step.
     (let n = slen (buf_slice rows) in
      if n = 0 then ret ()
      else launch_elems D ''kv_write_kernel''
             [APtr (ptr (buf_slice rows)), APtr (ptr (buf_slice store)), AU64 n, AU64 width,
              AU64 row_offset, APtr step] n)))))))"

definition add :: "'d external \<Rightarrow> device_buffer \<Rightarrow> device_buffer \<Rightarrow> ('d, device_buffer) kernel_op" where
  "add D a b =
     andthen (lift (require_f32 [a, b] ''add'')) (\<lambda>_.
     (let n = slen (buf_slice a) in
      if shape a = shape b then
        andthen (alloc_output D n) (\<lambda>out.
        andthen (launch_elems D ''add_kernel''
          [APtr (ptr (buf_slice a)), APtr (ptr (buf_slice b)), APtr (ptr out), AU64 n] n) (\<lambda>_.
        ret (plain out (shape a))))
      else
        andthen (ensure (shape a \<noteq> []) (shape_error ''add expects at least one dimension'')) (\<lambda>_.
        (let cols = last (shape a) in
         andthen (ensure (shape b = [cols] \<or> shape b = [1, cols])
           (shape_error ''add expects b to match a's shape or broadcast'')) (\<lambda>_.
         andthen (ensure (is_multiple_of n cols)
           (shape_error ''add data length is not divisible by broadcast dimension'')) (\<lambda>_.
         andthen (alloc_output D n) (\<lambda>out.
         andthen (launch_elems D ''bias_add_kernel''
           [APtr (ptr (buf_slice a)), APtr (ptr (buf_slice b)), APtr (ptr out), AU64 cols, AU64 n] n) (\<lambda>_.
         ret (plain out (shape a))))))))))"

definition mul :: "'d external \<Rightarrow> device_buffer \<Rightarrow> device_buffer \<Rightarrow> ('d, device_buffer) kernel_op" where
  "mul D a b =
     andthen (lift (require_f32 [a, b] ''mul'')) (\<lambda>_.
     andthen (lift (same_shape_buf a b)) (\<lambda>_.
     (let n = slen (buf_slice a) in
      andthen (alloc_output D n) (\<lambda>out.
      andthen (launch_elems D ''mul_kernel''
        [APtr (ptr (buf_slice a)), APtr (ptr (buf_slice b)), APtr (ptr out), AU64 n] n) (\<lambda>_.
      ret (plain out (shape a)))))))"

definition residual_add :: "'d external \<Rightarrow> device_buffer \<Rightarrow> device_buffer \<Rightarrow> ('d, device_buffer) kernel_op" where
  "residual_add D input residual =
     andthen (lift (require_f32 [input, residual] ''residual-add'')) (\<lambda>_. add D input residual)"

definition concat_rows :: "'d external \<Rightarrow> device_buffer \<Rightarrow> device_buffer \<Rightarrow> ('d, device_buffer) kernel_op" where
  "concat_rows D a b =
     andthen (lift (require_f32 [a, b] ''concat'')) (\<lambda>_.
     (case shape a of
        [] \<Rightarrow> throw (shape_error ''concat expects a to have at least one dimension'')
      | a_rows # a_rest \<Rightarrow>
     (case shape b of
        [] \<Rightarrow> throw (shape_error ''concat expects b to have at least one dimension'')
      | b_rows # b_rest \<Rightarrow>
     andthen (ensure (a_rest = b_rest)
       (shape_error ''concat expects a and b to share trailing dimensions'')) (\<lambda>_.
     (let a_len = slen (buf_slice a); b_len = slen (buf_slice b) in
      andthen (alloc_output D (a_len + b_len)) (\<lambda>out.
      andthen (drv D (cu_memcpy_dtod D (buf_slice a) (ptr out))) (\<lambda>_.
      andthen (drv D (cu_memcpy_dtod D (buf_slice b) (ptr out + 4 * a_len))) (\<lambda>_.
      ret (plain out ((a_rows + b_rows) # a_rest)))))))))) "

definition silu :: "'d external \<Rightarrow> device_buffer \<Rightarrow> ('d, device_buffer) kernel_op" where
  "silu D input =
     andthen (lift (require_f32 [input] ''silu'')) (\<lambda>_.
     (let n = slen (buf_slice input) in
      andthen (alloc_output D n) (\<lambda>out.
      andthen (launch_elems D ''silu_kernel'' [APtr (ptr (buf_slice input)), APtr (ptr out), AU64 n] n) (\<lambda>_.
      ret (plain out (shape input))))))"

definition silu_mul :: "'d external \<Rightarrow> device_buffer \<Rightarrow> device_buffer \<Rightarrow> ('d, device_buffer) kernel_op" where
  "silu_mul D gate up =
     andthen (lift (require_f32 [gate, up] ''silu-mul'')) (\<lambda>_.
     andthen (ensure (shape gate = shape up) (shape_error ''silu-mul expects gate and up to share a shape'')) (\<lambda>_.
     (let n = slen (buf_slice gate) in
      andthen (alloc_output D n) (\<lambda>out.
      andthen (launch_elems D ''silu_mul_kernel''
        [APtr (ptr (buf_slice gate)), APtr (ptr (buf_slice up)), APtr (ptr out), AU64 n] n) (\<lambda>_.
      ret (plain out (shape gate)))))))"

definition half_kernel ::
  "'d external \<Rightarrow> string \<Rightarrow> half_buffer \<Rightarrow> half_buffer \<Rightarrow> ('d, half_buffer) kernel_op" where
  "half_kernel D op a b =
     andthen (lift (same_shape_half a b)) (\<lambda>_.
     andthen (forbid_in_capture ''a half-precision Kernel'') (\<lambda>_.
     (let n = slen (half_slice a) in
      andthen (alloc_zeros D U16 n) (\<lambda>out.
      andthen (launch_elems D (the (half_kernel_name op (half_dtype a)))
        [APtr (ptr (half_slice a)), APtr (ptr (half_slice b)), APtr (ptr out), AU64 n] n) (\<lambda>_.
      ret \<lparr>half_slice = out, half_shape = half_shape a, half_dtype = half_dtype a\<rparr>)))))"

definition add_half :: "'d external \<Rightarrow> half_buffer \<Rightarrow> half_buffer \<Rightarrow> ('d, half_buffer) kernel_op" where
  "add_half D a b = half_kernel D ''add'' a b"

definition mul_half :: "'d external \<Rightarrow> half_buffer \<Rightarrow> half_buffer \<Rightarrow> ('d, half_buffer) kernel_op" where
  "mul_half D a b = half_kernel D ''mul'' a b"

section \<open>Embedding lookup\<close>

definition check_embedding_flag :: "'d external \<Rightarrow> ('d, unit) kernel_op" where
  "check_embedding_flag D =
     andthen (gets embedding_flag) (\<lambda>slot.
     (case slot of
        None \<Rightarrow> ret ()
      | Some flag \<Rightarrow>
          andthen (drv D (cu_dtoh_i32 D (ptr flag))) (\<lambda>value.
          andthen (drv D (cu_synchronize D)) (\<lambda>_.
          ensure (value = 0)
            (shape_error ''embedding lookup id is not a valid in-range non-negative integer'')))))"

definition take_embedding_flag :: "'d external \<Rightarrow> ('d, cuda_slice) kernel_op" where
  "take_embedding_flag D =
     andthen (gets embedding_flag) (\<lambda>slot.
     andthen (modify (\<lambda>k. k\<lparr>embedding_flag := None\<rparr>)) (\<lambda>_.
     (case slot of
        Some flag \<Rightarrow> ret flag
      | None \<Rightarrow> andthen (forbid_in_capture ''a device allocation'') (\<lambda>_. alloc_zeros D I32 1))))"

definition mark_embedding :: "'d kernels \<Rightarrow> 'd kernels" where
  "mark_embedding k = k\<lparr>capture := map_option (\<lambda>c. c\<lparr>has_embedding := True\<rparr>) (capture k)\<rparr>"

text \<open>The launch, the flag put back whether or not it succeeded, then the launch's result.\<close>

definition launch_with_flag ::
  "'d external \<Rightarrow> karg list \<Rightarrow> u64 \<Rightarrow> cuda_slice \<Rightarrow> ('d, unit) kernel_op" where
  "launch_with_flag D args n flag =
     (\<lambda>k. case launch_kernel D ''embedding_lookup_kernel'' args (for_num_elems D (as_u32 n)) k of
        (launched, k) \<Rightarrow> (launched, k\<lparr>embedding_flag := Some flag\<rparr>))"

definition embedding_lookup ::
  "'d external \<Rightarrow> device_buffer \<Rightarrow> device_buffer \<Rightarrow> ('d, device_buffer) kernel_op" where
  "embedding_lookup D table ids =
     andthen (lift (rows_cols_buf table)) (\<lambda>(vocab, dim).
     andthen (lift (require_f32 [ids] ''the embedding lookup's ids'')) (\<lambda>_.
     (let table16 = bf16_address table; num_ids = slen (buf_slice ids) in
      andthen (alloc_output D (num_ids * dim)) (\<lambda>out.
      andthen (take_embedding_flag D) (\<lambda>flag.
      andthen (gets is_capturing) (\<lambda>capturing.
      andthen (if capturing then ret () else drv D (cu_memset_zeros D flag)) (\<lambda>_.
      andthen (load_function D ''embedding_lookup_kernel'') (\<lambda>_.
      andthen (launch_with_flag D
         [APtr (ptr (buf_slice table)), APtr (ptr (buf_slice ids)), APtr (ptr out), AU64 dim,
          AU64 num_ids, AU64 vocab, APtr (ptr flag), APtr table16] num_ids flag) (\<lambda>_.
      andthen (gets is_capturing) (\<lambda>capturing.
      andthen (if capturing then modify mark_embedding else check_embedding_flag D) (\<lambda>_.
      ret (plain out [num_ids, dim]))))))))))))"

section \<open>Row Kernels\<close>

definition rmsnorm ::
  "'d external \<Rightarrow> device_buffer \<Rightarrow> device_buffer \<Rightarrow> f32 \<Rightarrow> ('d, device_buffer) kernel_op" where
  "rmsnorm D input weight epsilon =
     andthen (lift (require_f32 [input, weight] ''rmsnorm'')) (\<lambda>_.
     andthen (ensure (shape input \<noteq> []) (shape_error ''RMSNorm expects at least one dimension'')) (\<lambda>_.
     (let cols = last (shape input); len = slen (buf_slice input) in
      andthen (ensure (\<not> (cols = 0 \<or> \<not> is_multiple_of len cols))
        (shape_error ''RMSNorm data length is not divisible by hidden dimension'')) (\<lambda>_.
      (let rows = len div cols in
       andthen
         (if shape weight = [cols] \<or> shape weight = [1, cols] then ret 0
          else if shape weight = shape input \<or> shape weight = [rows, cols] then ret cols
          else throw (shape_error ''RMSNorm weight shape'')) (\<lambda>weight_row_stride.
       andthen (ensure (\<not> f32_le_zero epsilon) (shape_error ''RMSNorm epsilon must be positive'')) (\<lambda>_.
       andthen (alloc_output D len) (\<lambda>out.
       andthen (load_function D ''rmsnorm_kernel'') (\<lambda>_.
       andthen (launch_kernel D ''rmsnorm_kernel''
         [APtr (ptr (buf_slice input)), APtr (ptr (buf_slice weight)), APtr (ptr out), AU64 rows,
          AU64 cols, AU64 weight_row_stride, AF32 epsilon]
         \<lparr>grid_dim = (as_u32 rows, 1, 1), block_dim = (RMSNORM_THREADS, 1, 1), shared_mem_bytes = 0\<rparr>) (\<lambda>_.
       ret (plain out (shape input))))))))))))"

definition rope_with_frequency_scaling ::
  "'d external \<Rightarrow> device_buffer \<Rightarrow> f32 \<Rightarrow> f32 \<Rightarrow> u64 \<Rightarrow> u64 \<Rightarrow> u64 \<Rightarrow> rope_pairing \<Rightarrow>
   banded_scaling option \<Rightarrow> ('d, device_buffer) kernel_op" where
  "rope_with_frequency_scaling D input base scale dimension position_offset head_count pairing
     frequency_scaling =
     andthen (lift (require_f32 [input] ''rope'')) (\<lambda>_.
     andthen (case frequency_scaling of
         None \<Rightarrow> ret ()
       | Some scaling \<Rightarrow> (case banded_validate D scaling of
           Inl reason \<Rightarrow> throw (shape_error reason) | Inr _ \<Rightarrow> ret ())) (\<lambda>_.
     (let (banded_factor, low, high, context) =
        (case frequency_scaling of
           None \<Rightarrow> (0, 0, 0, 0)
         | Some scaling \<Rightarrow> (f64_as_f32 (factor scaling), f64_as_f32 (low_freq_factor scaling),
             f64_as_f32 (high_freq_factor scaling), f64_as_f32 (original_context_length scaling)))
      in
      andthen (lift (rows_cols_buf input)) (\<lambda>(rows, cols).
      andthen (ensure (\<not> (head_count = 0 \<or> \<not> is_multiple_of cols head_count))
        (shape_error ''RoPE head_count must be positive and evenly divide the row width'')) (\<lambda>_.
      (let head_width = cols div head_count in
       andthen (ensure (\<not> (dimension = 0 \<or> \<not> is_multiple_of dimension 2 \<or> dimension > head_width))
         (shape_error ''RoPE dimension must be positive, even, and at most the head width'')) (\<lambda>_.
       andthen (ensure (\<not> (\<not> is_finite base \<or> f32_le_zero base))
         (shape_error ''RoPE base must be finite and positive'')) (\<lambda>_.
       andthen (ensure (\<not> (\<not> is_finite scale \<or> f32_le_zero scale))
         (shape_error ''RoPE scale must be finite and positive'')) (\<lambda>_.
       (let half = dimension div 2;
            half_split = (case pairing of Interleaved \<Rightarrow> 0 | HalfSplit \<Rightarrow> 1)
        in
        andthen (lift (rope_launch_work_items rows head_count half)) (\<lambda>work_items.
        andthen
          (if dimension = head_width then alloc_output D (slen (buf_slice input))
           else andthen (forbid_in_capture ''a buffer copy'') (\<lambda>_.
                andthen (drv D (cu_clone_dtod D F32 (buf_slice input))) (\<lambda>p.
                ret \<lparr>ptr = p, slen = slen (buf_slice input)\<rparr>))) (\<lambda>out.
        andthen (advancing_offset ''position_offset'' (- 1)) (\<lambda>step.
        andthen (load_function D ''rope_kernel'') (\<lambda>_.
        andthen (launch_kernel D ''rope_kernel''
          [APtr (ptr (buf_slice input)), APtr (ptr out), AU64 rows, AU64 cols, AU64 half, AF32 base,
           AF32 scale, AU64 dimension, AU64 position_offset, AU64 head_count, AU32 half_split,
           APtr step, AF32 banded_factor, AF32 low, AF32 high, AF32 context]
          (for_num_elems D work_items)) (\<lambda>_.
        ret (plain out (shape input)))))))))))))))))"

definition rope_with_pairing ::
  "'d external \<Rightarrow> device_buffer \<Rightarrow> f32 \<Rightarrow> f32 \<Rightarrow> u64 \<Rightarrow> u64 \<Rightarrow> u64 \<Rightarrow> rope_pairing \<Rightarrow>
   ('d, device_buffer) kernel_op" where
  "rope_with_pairing D input base scale dimension position_offset head_count pairing =
     rope_with_frequency_scaling D input base scale dimension position_offset head_count pairing None"

definition rope ::
  "'d external \<Rightarrow> device_buffer \<Rightarrow> f32 \<Rightarrow> f32 \<Rightarrow> u64 \<Rightarrow> u64 \<Rightarrow> u64 \<Rightarrow> ('d, device_buffer) kernel_op" where
  "rope D input base scale dimension position_offset head_count =
     rope_with_pairing D input base scale dimension position_offset head_count Interleaved"

definition softmax_rows :: "'d external \<Rightarrow> device_buffer \<Rightarrow> ('d, device_buffer) kernel_op" where
  "softmax_rows D input =
     andthen (lift (require_f32 [input] ''softmax'')) (\<lambda>_.
     andthen (lift (rows_cols_buf input)) (\<lambda>(rows, cols).
     andthen (forbid_in_capture ''softmax'') (\<lambda>_.
     andthen (alloc_zeros D F32 (slen (buf_slice input))) (\<lambda>out.
     andthen (alloc_zeros D I32 1) (\<lambda>flag.
     andthen (launch_elems D ''softmax_rows_kernel''
       [APtr (ptr (buf_slice input)), APtr (ptr out), AU64 rows, AU64 cols, APtr (ptr flag)] rows) (\<lambda>_.
     andthen (drv D (cu_dtoh_i32 D (ptr flag))) (\<lambda>value.
     andthen (drv D (cu_synchronize D)) (\<lambda>_.
     andthen (ensure (value = 0)
       (cuda_error_new ExecutionFailed ''softmax has a row with no finite entry to normalize'')) (\<lambda>_.
     ret (plain out (shape input)))))))))))"

section \<open>Greedy selection\<close>

definition greedy_ranges :: "(u64 \<times> u64) list \<Rightarrow> u64 list" where
  "greedy_ranges excluded =
     (let ranges = concat (map (\<lambda>(start, stop). [start, stop]) excluded)
      in if ranges = [] then [0, 0] else ranges)"

definition greedy_column :: "u64 \<Rightarrow> u64 option" where
  "greedy_column key = (if key \<noteq> 0 then Some (0xFFFFFFFF - (key AND 0xFFFFFFFF)) else None)"

definition greedy_config :: "u64 \<Rightarrow> launch_config" where
  "greedy_config cols = \<lparr>grid_dim = (as_u32 (min (div_ceil cols 256) 256), 1, 1), block_dim = (256, 1, 1),
     shared_mem_bytes = 0\<rparr>"

definition greedy_select ::
  "'d external \<Rightarrow> device_buffer \<Rightarrow> u64 \<Rightarrow> (u64 \<times> u64) list \<Rightarrow> f32 \<Rightarrow> ('d, u64 option) kernel_op" where
  "greedy_select D logits row excluded temperature =
     andthen (lift (require_f32 [logits] ''greedy selection's logits'')) (\<lambda>_.
     andthen (ensure (shape logits \<noteq> []) (shape_error ''logits have no columns'')) (\<lambda>_.
     (let cols = last (shape logits);
          rows = slen (buf_slice logits) div max cols 1
      in
      andthen (ensure (\<not> (cols = 0 \<or> row \<ge> rows \<or> cols > 0xFFFFFFFF))
        (shape_error ''no such logits row'')) (\<lambda>_.
      andthen (drv D (cu_clone_htod D (HU64 (greedy_ranges excluded)))) (\<lambda>ranges_dev.
      andthen (alloc_zeros D U64 1) (\<lambda>best.
      andthen (load_function D ''greedy_select_kernel'') (\<lambda>_.
      andthen (launch_kernel D ''greedy_select_kernel''
        [APtr (ptr (buf_slice logits) + 4 * (row * cols)), AU64 cols, APtr ranges_dev,
         AU32 (of_nat (length excluded)), AF32 temperature, APtr (ptr best)]
        (greedy_config cols)) (\<lambda>_.
      andthen (drv D (cu_dtoh_u64 D (ptr best))) (\<lambda>key.
      andthen count_download (\<lambda>_.
      ret (greedy_column key)))))))))))"

section \<open>What the Kernels keep of a capture\<close>

lemmas kernel_keeps = keeps_forbid_then keeps_alloc_output keeps_launch keeps_load_function
  keeps_tensor_function outside_all frame_rules

text \<open>A device-to-device copy is recorded like a launch.\<close>

lemma keeps_memcpy_dtod: "recorded_keeps D P \<Longrightarrow> keeps (frame_le P) (drv D (cu_memcpy_dtod D s p))"
  by (rule keeps_drv_recorded) (simp add: recorded_keeps_def)

lemma keeps_launch_elems: "recorded_keeps D P \<Longrightarrow> keeps (frame_le P) (launch_elems D f args n)"
  unfolding launch_elems_def by (rule kernel_keeps | assumption)+

lemma keeps_elementwise:
  assumes "recorded_keeps D P"
  shows "keeps (frame_le P) (kv_write D store rows off)"
    and "keeps (frame_le P) (add D a b)"
    and "keeps (frame_le P) (mul D a b)"
    and "keeps (frame_le P) (silu D a)"
    and "keeps (frame_le P) (silu_mul D a b)"
  unfolding kv_write_def add_def mul_def silu_def silu_mul_def
  by (rule kernel_keeps keeps_launch_elems assms)+

lemma keeps_concat: "recorded_keeps D P \<Longrightarrow> keeps (frame_le P) (concat_rows D a b)"
  unfolding concat_rows_def by (rule keeps_memcpy_dtod kernel_keeps | assumption)+

lemma keeps_residual_add: "recorded_keeps D P \<Longrightarrow> keeps (frame_le P) (residual_add D a b)"
  unfolding residual_add_def by (rule keeps_elementwise kernel_keeps | assumption)+

lemma keeps_rmsnorm: "recorded_keeps D P \<Longrightarrow> keeps (frame_le P) (rmsnorm D a b e)"
  unfolding rmsnorm_def by (rule kernel_keeps | assumption)+

lemma keeps_clone_dtod:
  "keeps (frame_le P) (andthen (forbid_in_capture w) (\<lambda>_. andthen (drv D (cu_clone_dtod D e s)) (\<lambda>p. ret (f p))))"
  by (rule kernel_keeps)+

lemma keeps_rope_scaling:
  "recorded_keeps D P \<Longrightarrow> keeps (frame_le P) (rope_with_frequency_scaling D a b s d p h pr fs)"
  unfolding rope_with_frequency_scaling_def by (rule keeps_clone_dtod kernel_keeps | assumption)+

lemma keeps_rope:
  "recorded_keeps D P \<Longrightarrow> keeps (frame_le P) (rope_with_pairing D a b s d p h pr)"
  "recorded_keeps D P \<Longrightarrow> keeps (frame_le P) (rope D a b s d p h)"
  by (simp_all add: rope_def rope_with_pairing_def keeps_rope_scaling)

lemma outside_launch_elems: "keeps_outside P (launch_elems D f args n)"
  by (auto simp: keeps_outside_def launch_elems_def load_function_def launch_kernel_def andthen_def
      gets_def ret_def modify_def is_capturing_def device_drv split: prod.splits sum.splits
      dest!: arg_cong [where f = snd])

lemma keeps_half_kernel: "keeps (frame_le P) (half_kernel D op a b)"
  unfolding half_kernel_def by (rule outside_launch_elems kernel_keeps)+

lemma keeps_halves_ops: "keeps (frame_le P) (add_half D x y)" "keeps (frame_le P) (mul_half D x y)"
  by (simp_all add: add_half_def mul_half_def keeps_half_kernel)

lemma keeps_softmax: "keeps (frame_le P) (softmax_rows D a)"
  unfolding softmax_rows_def by (rule outside_launch_elems kernel_keeps)+

text \<open>The embedding lookup asks whether it is captured: each answer has its own obligations.\<close>

lemma keeps_gets_capturing:
  assumes "keeps (frame_le P) (f True)" "keeps_outside P (f False)"
  shows "keeps (frame_le P) (andthen (gets is_capturing) f)"
proof (rule kf.keeps_gets_then)
  fix k
  show "frame_le P k (snd (f (is_capturing k) k))"
  proof (cases "is_capturing k")
    case True
    then show ?thesis using assms(1) by (simp add: keeps_def)
  next
    case False
    with assms(2) have "\<not> is_capturing (snd (f False k)) \<and>
        offer_le (offered_output k) (offered_output (snd (f False k)))"
      by (simp add: keeps_outside_def)
    with False show ?thesis by (simp add: frame_le_def capture_le_def is_capturing_def)
  qed
qed

lemma keeps_launch_with_flag:
  "recorded_keeps D P \<Longrightarrow> keeps (frame_le P) (launch_with_flag D args n flag)"
  using keeps_launch [of D P]
  by (auto simp: keeps_def launch_with_flag_def frame_le_def is_capturing_def split: prod.splits)
    (metis snd_conv)+

lemma keeps_mark: "keeps (frame_le P) (modify mark_embedding)"
  by (simp add: keeps_def modify_def mark_embedding_def frame_le_def capture_le_def is_capturing_def
      split: option.split)

lemma keeps_take_embedding_flag: "keeps (frame_le P) (take_embedding_flag D)"
  unfolding take_embedding_flag_def by (rule kernel_keeps keeps_modify | simp)+

lemma outside_check_embedding_flag: "keeps_outside P (check_embedding_flag D)"
  unfolding check_embedding_flag_def by (rule outside_all)+

lemma keeps_embedding_lookup:
  assumes "recorded_keeps D P"
  shows "keeps (frame_le P) (embedding_lookup D t i)"
  unfolding embedding_lookup_def
  by (simp only: if_True if_False |
      rule keeps_gets_capturing keeps_take_embedding_flag keeps_launch_with_flag keeps_mark
        outside_check_embedding_flag kernel_keeps assms outside_keeps [OF keeps_load_function]
        outside_keeps [OF keeps_launch_with_flag] outside_keeps [OF keeps_mark])+

section \<open>What the Kernels return\<close>

lemma returns_alloc: "returns (alloc D ty n) (\<lambda>s. slen s = n)" "returns (alloc_zeros D ty n) (\<lambda>s. slen s = n)"
  unfolding alloc_def alloc_zeros_def by (rule returns_intros | simp)+

lemma returns_alloc_output: "returns (alloc_output D n) (\<lambda>s. slen s = n)"
  unfolding alloc_output_def by (rule returns_intros returns_alloc | simp)+

lemmas returns_alloc_then =
  returns_andthen [OF returns_alloc_output] returns_andthen [OF returns_alloc(1)]
  returns_andthen [OF returns_alloc(2)]

lemmas kernel_returns = returns_alloc_then returns_lift_then returns_ensure_then returns_intros

text \<open>\<open>output sh b\<close>: a plain buffer of shape \<open>sh\<close> with as many elements as the shape says.\<close>

definition output_of :: "u64 list \<Rightarrow> device_buffer \<Rightarrow> bool" where
  "output_of sh b \<longleftrightarrow> shape b = sh \<and> bf16 b = None \<and> slen (buf_slice b) = shape_len sh"

lemma output_of_plain [simp]: "output_of sh (plain s sh') \<longleftrightarrow> sh' = sh \<and> slen s = shape_len sh"
  by (auto simp: output_of_def)

lemma output_of_wf: "output_of sh b \<Longrightarrow> wf_buffer b"
  by (simp add: output_of_def wf_buffer_def buffer_len_def is_compact_def)

lemma returns_add: "wf_buffer a \<Longrightarrow> returns (add D a b) (output_of (shape a))"
  unfolding add_def by (rule kernel_returns | simp add: wf_buffer_f32)+

lemma returns_mul: "wf_buffer a \<Longrightarrow> returns (mul D a b) (output_of (shape a))"
  unfolding mul_def by (rule kernel_returns | simp add: wf_buffer_f32)+

lemma returns_residual_add: "wf_buffer a \<Longrightarrow> returns (residual_add D a b) (output_of (shape a))"
  unfolding residual_add_def by (rule returns_add kernel_returns | assumption)+

lemma returns_silu: "wf_buffer a \<Longrightarrow> returns (silu D a) (output_of (shape a))"
  unfolding silu_def by (rule kernel_returns | simp add: wf_buffer_f32)+

lemma returns_silu_mul: "wf_buffer a \<Longrightarrow> returns (silu_mul D a b) (output_of (shape a))"
  unfolding silu_mul_def by (rule kernel_returns | simp add: wf_buffer_f32)+

lemma returns_rmsnorm: "wf_buffer a \<Longrightarrow> returns (rmsnorm D a w e) (output_of (shape a))"
  unfolding rmsnorm_def by (rule kernel_returns | simp add: wf_buffer_f32)+

lemma returns_softmax: "wf_buffer a \<Longrightarrow> returns (softmax_rows D a) (output_of (shape a))"
  unfolding softmax_rows_def by (rule kernel_returns | simp add: wf_buffer_f32)+

lemma returns_rope_output:
  "returns (if c then alloc_output D n
     else andthen (forbid_in_capture w) (\<lambda>_. andthen (drv D m) (\<lambda>p. ret \<lparr>ptr = p, slen = n\<rparr>)))
     (\<lambda>s. slen s = n)"
  by (rule returns_intros returns_alloc_output | simp)+

lemma returns_rope_scaling:
  "wf_buffer a \<Longrightarrow> returns (rope_with_frequency_scaling D a b s d p h pr fs) (output_of (shape a))"
  unfolding rope_with_frequency_scaling_def
  by (rule returns_andthen [OF returns_rope_output] kernel_returns | simp add: wf_buffer_f32)+

lemma returns_rope:
  "wf_buffer a \<Longrightarrow> returns (rope_with_pairing D a b s d p h pr) (output_of (shape a))"
  "wf_buffer a \<Longrightarrow> returns (rope D a b s d p h) (output_of (shape a))"
  by (simp_all add: rope_def rope_with_pairing_def returns_rope_scaling)

text \<open>The two Kernels whose output shape is computed.\<close>

lemma returns_concat:
  "wf_buffer a \<Longrightarrow> wf_buffer b \<Longrightarrow>
   returns (concat_rows D a b) (output_of ((hd (shape a) + hd (shape b)) # tl (shape a)))"
  unfolding concat_rows_def by (rule kernel_returns | simp add: wf_buffer_f32 algebra_simps)+

lemma returns_embedding:
  "returns (embedding_lookup D t i) (output_of [slen (buf_slice i), last (shape t)])"
  unfolding embedding_lookup_def by (rule kernel_returns | simp)+

lemma returns_half_kernel:
  "wf_half a \<Longrightarrow> returns (half_kernel D op a b) (\<lambda>c. wf_half c \<and> half_shape c = half_shape a \<and> half_dtype c = half_dtype a)"
  unfolding half_kernel_def by (rule kernel_returns | simp add: wf_half_def)+

end
