(* ===== verification/Kernel_Matmul.thy ===== *)
theory Kernel_Matmul
  imports Kernel_Ops
begin

text \<open>
  The matmul family of \<open>src/kernels.rs\<close>: \<open>matmul_with_addend\<close> behind \<open>matmul\<close>,
  \<open>matmul_bias\<close> and \<open>matmul_residual\<close>, and \<open>gated_matmul\<close>. Each tries the
  pipelined Tensor Core Kernel, the plain Tensor Core Kernel, the split-K Kernel and the
  one-thread-per-element Kernel in that order; a block that did not launch returns
  \<open>False\<close> and the next one is tried.
\<close>

datatype matmul_addend = Row device_buffer | Full device_buffer

text \<open>The dimensions and strides the launches share.\<close>

record matmul_dims =
  dim_m :: u64
  dim_k :: u64
  dim_n :: u64
  a_row_stride :: u64
  a_inner_stride :: u64
  b_inner_stride :: u64
  b_col_stride :: u64

fun addend_buffer :: "device_buffer \<Rightarrow> matmul_addend option \<Rightarrow> device_buffer" where
  "addend_buffer unused None = unused"
| "addend_buffer unused (Some (Row bias)) = bias"
| "addend_buffer unused (Some (Full residual)) = residual"

fun addend_mode :: "matmul_addend option \<Rightarrow> u32" where
  "addend_mode None = 0"
| "addend_mode (Some (Row bias)) = 1"
| "addend_mode (Some (Full residual)) = 2"

definition block_grid :: "u64 \<Rightarrow> u64 \<Rightarrow> u64 \<Rightarrow> u64 \<Rightarrow> u32 \<Rightarrow> launch_config" where
  "block_grid n block_n m block_m threads =
     \<lparr>grid_dim = (as_u32 (div_ceil n block_n), as_u32 (div_ceil m block_m), 1),
      block_dim = (threads, 1, 1), shared_mem_bytes = 0\<rparr>"

section \<open>Matmul\<close>

definition matmul_dims_of ::
  "device_buffer \<Rightarrow> device_buffer \<Rightarrow> bool \<Rightarrow> bool \<Rightarrow> cuda_error + matmul_dims" where
  "matmul_dims_of a b transpose_a transpose_b =
     (case rows_cols_buf a of Inl e \<Rightarrow> Inl e | Inr (a_rows, a_cols) \<Rightarrow>
     (case rows_cols_buf b of Inl e \<Rightarrow> Inl e | Inr (b_rows, b_cols) \<Rightarrow>
     (let (m, k) = (if transpose_a then (a_cols, a_rows) else (a_rows, a_cols));
          (k2, n) = (if transpose_b then (b_cols, b_rows) else (b_rows, b_cols))
      in if k \<noteq> k2 then Inl (shape_error ''matmul inner dimension mismatch'')
         else
           (let (a_row, a_inner) = (if transpose_a then (1, a_cols) else (a_cols, 1));
                (b_inner, b_col) = (if transpose_b then (1, b_cols) else (b_cols, 1))
            in Inr \<lparr>dim_m = m, dim_k = k, dim_n = n, a_row_stride = a_row, a_inner_stride = a_inner,
                   b_inner_stride = b_inner, b_col_stride = b_col\<rparr>))))"

definition check_addend :: "matmul_dims \<Rightarrow> matmul_addend option \<Rightarrow> cuda_error + unit" where
  "check_addend d addend =
     (case addend of
        Some (Row bias) \<Rightarrow>
          (if shape bias \<noteq> [dim_n d] \<and> shape bias \<noteq> [1, dim_n d]
           then Inl (shape_error ''matmul-bias bias shape'') else Inr ())
      | Some (Full residual) \<Rightarrow>
          (if shape residual \<noteq> [dim_m d, dim_n d]
           then Inl (shape_error ''matmul-residual residual shape'') else Inr ())
      | None \<Rightarrow> Inr ())"

definition matmul_tcp ::
  "'d external \<Rightarrow> matmul_dims \<Rightarrow> device_buffer \<Rightarrow> u64 \<Rightarrow> cuda_slice \<Rightarrow> device_buffer \<Rightarrow> u32 \<Rightarrow>
   bool \<Rightarrow> bool \<Rightarrow> ('d, bool) kernel_op" where
  "matmul_tcp D d a b16 out addend mode transpose_a transpose_b =
     (if dim_m d \<ge> MATMUL_TILE_MIN_ROWS \<and> b16 \<noteq> 0 \<and> \<not> transpose_a \<and> \<not> transpose_b \<and>
         dim_k d mod TCP_ALIGN = 0 \<and> dim_n d mod TCP_ALIGN = 0
      then
        andthen (tensor_function D ''matmul_tcp_kernel'') (\<lambda>func.
        (case func of
           None \<Rightarrow> ret False
         | Some _ \<Rightarrow>
             andthen (split_bf16 D a (dim_m d * dim_k d)) (\<lambda>terms.
             (case terms of
                None \<Rightarrow> ret False
              | Some (a_hi, a_lo) \<Rightarrow>
                  andthen (launch_kernel D ''matmul_tcp_kernel''
                    [APtr a_hi, APtr a_lo, APtr b16, APtr (ptr out), AU64 (dim_m d), AU64 (dim_k d),
                     AU64 (dim_n d), APtr (ptr (buf_slice addend)), AI32 mode]
                    (block_grid (dim_n d) TCP_BLOCK_N (dim_m d) TCP_BLOCK_M TCP_THREADS)) (\<lambda>_.
                  ret True)))))
      else ret False)"

definition matmul_tc ::
  "'d external \<Rightarrow> matmul_dims \<Rightarrow> device_buffer \<Rightarrow> u64 \<Rightarrow> cuda_slice \<Rightarrow> device_buffer \<Rightarrow> u32 \<Rightarrow>
   ('d, bool) kernel_op" where
  "matmul_tc D d a b16 out addend mode =
     (if dim_m d \<ge> MATMUL_TILE_MIN_ROWS \<and> b16 \<noteq> 0 \<and> a_inner_stride d = 1 \<and> b_col_stride d = 1 \<and>
         b_inner_stride d = dim_n d
      then
        andthen (tensor_function D ''matmul_tc_kernel'') (\<lambda>func.
        (case func of
           None \<Rightarrow> ret False
         | Some _ \<Rightarrow>
             andthen (launch_kernel D ''matmul_tc_kernel''
               [APtr (ptr (buf_slice a)), APtr b16, APtr (ptr out), AU64 (dim_m d), AU64 (dim_k d),
                AU64 (dim_n d), AU64 (a_row_stride d), APtr (ptr (buf_slice addend)), AI32 mode]
               (block_grid (dim_n d) TC_BLOCK_N (dim_m d) TC_BLOCK_M TC_THREADS)) (\<lambda>_.
             ret True)))
      else ret False)"

definition matmul_split_k ::
  "'d external \<Rightarrow> matmul_dims \<Rightarrow> device_buffer \<Rightarrow> device_buffer \<Rightarrow> u64 \<Rightarrow> cuda_slice \<Rightarrow>
   matmul_addend option \<Rightarrow> ('d, unit) kernel_op" where
  "matmul_split_k D d a b b16 out addend =
     (let (name, grid) = split_k_rows (dim_m d) (dim_n d)
            (''matmul_split_k_kernel'', ''matmul_split_k_rows_kernel'', ''matmul_split_k_tile_kernel'')
      in
      andthen (load_function D name) (\<lambda>_.
      launch_kernel D name
        [APtr (ptr (buf_slice a)), APtr (ptr (buf_slice b)), APtr (ptr out), AU64 (dim_m d),
         AU64 (dim_k d), AU64 (dim_n d), AU64 (a_row_stride d), AU64 (a_inner_stride d),
         AU64 (b_inner_stride d), APtr (ptr (buf_slice (addend_buffer b addend))),
         AI32 (addend_mode addend), APtr b16]
        \<lparr>grid_dim = grid, block_dim = (32, MATMUL_SPLIT_K, 1), shared_mem_bytes = 0\<rparr>))"

definition matmul_plain ::
  "'d external \<Rightarrow> matmul_dims \<Rightarrow> device_buffer \<Rightarrow> device_buffer \<Rightarrow> u64 \<Rightarrow> cuda_slice \<Rightarrow>
   matmul_addend option \<Rightarrow> ('d, device_buffer) kernel_op" where
  "matmul_plain D d a b b16 out addend =
     andthen (launch_elems D ''matmul_kernel''
       [APtr (ptr (buf_slice a)), APtr (ptr (buf_slice b)), APtr (ptr out), AU64 (dim_m d),
        AU64 (dim_k d), AU64 (dim_n d), AU64 (a_row_stride d), AU64 (a_inner_stride d),
        AU64 (b_inner_stride d), AU64 (b_col_stride d), APtr b16] (dim_m d * dim_n d)) (\<lambda>_.
     (let product = plain out [dim_m d, dim_n d]
      in case addend of
           None \<Rightarrow> ret product
         | Some _ \<Rightarrow> add D product (addend_buffer b addend)))"

definition matmul_with_addend ::
  "'d external \<Rightarrow> device_buffer \<Rightarrow> device_buffer \<Rightarrow> matmul_addend option \<Rightarrow> bool \<Rightarrow> bool \<Rightarrow>
   ('d, device_buffer) kernel_op" where
  "matmul_with_addend D a b addend transpose_a transpose_b =
     andthen (lift (matmul_dims_of a b transpose_a transpose_b)) (\<lambda>d.
     andthen (lift (check_addend d addend)) (\<lambda>_.
     andthen (lift (require_f32 [a] ''the a of a matmul'')) (\<lambda>_.
     andthen (lift (require_f32 (case addend of None \<Rightarrow> [] | Some _ \<Rightarrow> [addend_buffer b addend])
       ''the addend of a fused matmul'')) (\<lambda>_.
     (let b16 = bf16_address b; result = [dim_m d, dim_n d] in
      andthen (alloc_output D (dim_m d * dim_n d)) (\<lambda>out.
      andthen (matmul_tcp D d a b16 out (addend_buffer a addend) (addend_mode addend)
        transpose_a transpose_b) (\<lambda>tcp.
      (if tcp then ret (plain out result)
       else
         andthen (matmul_tc D d a b16 out (addend_buffer a addend) (addend_mode addend)) (\<lambda>tc.
         (if tc then ret (plain out result)
          else if b_col_stride d = 1 \<and> dim_m d \<le> MATMUL_SPLIT_K_MAX_ROWS then
            andthen (matmul_split_k D d a b b16 out addend) (\<lambda>_. ret (plain out result))
          else matmul_plain D d a b b16 out addend)))))))))) "

definition matmul :: "'d external \<Rightarrow> device_buffer \<Rightarrow> device_buffer \<Rightarrow> bool \<Rightarrow> bool \<Rightarrow> ('d, device_buffer) kernel_op" where
  "matmul D a b transpose_a transpose_b = matmul_with_addend D a b None transpose_a transpose_b"

definition matmul_bias ::
  "'d external \<Rightarrow> device_buffer \<Rightarrow> device_buffer \<Rightarrow> device_buffer \<Rightarrow> bool \<Rightarrow> bool \<Rightarrow> ('d, device_buffer) kernel_op" where
  "matmul_bias D a b bias transpose_a transpose_b =
     matmul_with_addend D a b (Some (Row bias)) transpose_a transpose_b"

definition matmul_residual ::
  "'d external \<Rightarrow> device_buffer \<Rightarrow> device_buffer \<Rightarrow> device_buffer \<Rightarrow> bool \<Rightarrow> bool \<Rightarrow> ('d, device_buffer) kernel_op" where
  "matmul_residual D a b residual transpose_a transpose_b =
     matmul_with_addend D a b (Some (Full residual)) transpose_a transpose_b"

section \<open>Gated matmul\<close>

definition gated_matmul_tcp ::
  "'d external \<Rightarrow> matmul_dims \<Rightarrow> device_buffer \<Rightarrow> u64 \<Rightarrow> u64 \<Rightarrow> cuda_slice \<Rightarrow> bool \<Rightarrow> ('d, bool) kernel_op" where
  "gated_matmul_tcp D d a gate16 up16 out transpose_a =
     (if dim_m d \<ge> MATMUL_TILE_MIN_ROWS \<and> gate16 \<noteq> 0 \<and> up16 \<noteq> 0 \<and> \<not> transpose_a \<and>
         dim_k d mod TCP_ALIGN = 0 \<and> dim_n d mod TCP_ALIGN = 0
      then
        andthen (tensor_function D ''gated_matmul_tcp_kernel'') (\<lambda>func.
        (case func of
           None \<Rightarrow> ret False
         | Some _ \<Rightarrow>
             andthen (split_bf16 D a (dim_m d * dim_k d)) (\<lambda>terms.
             (case terms of
                None \<Rightarrow> ret False
              | Some (a_hi, a_lo) \<Rightarrow>
                  andthen (launch_kernel D ''gated_matmul_tcp_kernel''
                    [APtr a_hi, APtr a_lo, APtr gate16, APtr up16, APtr (ptr out), AU64 (dim_m d),
                     AU64 (dim_k d), AU64 (dim_n d)]
                    (block_grid (dim_n d) TCP_BLOCK_N (dim_m d) TCP_BLOCK_M TCP_THREADS)) (\<lambda>_.
                  ret True)))))
      else ret False)"

definition gated_matmul_tc ::
  "'d external \<Rightarrow> matmul_dims \<Rightarrow> device_buffer \<Rightarrow> u64 \<Rightarrow> u64 \<Rightarrow> cuda_slice \<Rightarrow> ('d, bool) kernel_op" where
  "gated_matmul_tc D d a gate16 up16 out =
     (if dim_m d \<ge> MATMUL_TILE_MIN_ROWS \<and> gate16 \<noteq> 0 \<and> up16 \<noteq> 0 \<and> a_inner_stride d = 1
      then
        andthen (tensor_function D ''gated_matmul_tc_kernel'') (\<lambda>func.
        (case func of
           None \<Rightarrow> ret False
         | Some _ \<Rightarrow>
             andthen (launch_kernel D ''gated_matmul_tc_kernel''
               [APtr (ptr (buf_slice a)), APtr gate16, APtr up16, APtr (ptr out), AU64 (dim_m d),
                AU64 (dim_k d), AU64 (dim_n d), AU64 (a_row_stride d)]
               (block_grid (dim_n d) TC_BLOCK_N (dim_m d) TC_BLOCK_M TC_THREADS)) (\<lambda>_.
             ret True)))
      else ret False)"

definition gated_matmul_split_k ::
  "'d external \<Rightarrow> matmul_dims \<Rightarrow> device_buffer \<Rightarrow> device_buffer \<Rightarrow> device_buffer \<Rightarrow> cuda_slice \<Rightarrow>
   ('d, unit) kernel_op" where
  "gated_matmul_split_k D d a gate up out =
     (let (name, grid) = split_k_rows (dim_m d) (dim_n d)
            (''gated_matmul_split_k_kernel'', ''gated_matmul_split_k_rows_kernel'',
             ''gated_matmul_split_k_tile_kernel'')
      in
      andthen (load_function D name) (\<lambda>_.
      launch_kernel D name
        [APtr (ptr (buf_slice a)), APtr (ptr (buf_slice gate)), APtr (bf16_address gate),
         APtr (ptr (buf_slice up)), APtr (bf16_address up), APtr (ptr out), AU64 (dim_m d),
         AU64 (dim_k d), AU64 (dim_n d), AU64 (a_row_stride d), AU64 (a_inner_stride d),
         AU64 (b_inner_stride d)]
        \<lparr>grid_dim = grid, block_dim = (32, MATMUL_SPLIT_K, 1), shared_mem_bytes = 0\<rparr>))"

definition gated_matmul_fused ::
  "'d external \<Rightarrow> matmul_dims \<Rightarrow> device_buffer \<Rightarrow> device_buffer \<Rightarrow> device_buffer \<Rightarrow> bool \<Rightarrow>
   ('d, device_buffer) kernel_op" where
  "gated_matmul_fused D d a gate up transpose_a =
     andthen (lift (require_f32 [a] ''the input of a gated-matmul'')) (\<lambda>_.
     (let gate16 = bf16_address gate; up16 = bf16_address up; result = [dim_m d, dim_n d] in
      andthen (alloc_output D (dim_m d * dim_n d)) (\<lambda>out.
      andthen (gated_matmul_tcp D d a gate16 up16 out transpose_a) (\<lambda>tcp.
      (if tcp then ret (plain out result)
       else
         andthen (gated_matmul_tc D d a gate16 up16 out) (\<lambda>tc.
         (if tc then ret (plain out result)
          else
            andthen (gated_matmul_split_k D d a gate up out) (\<lambda>_. ret (plain out result)))))))))"

text \<open>Transposed weights, many rows or another inner dimension run the three operations.\<close>

definition gated_matmul ::
  "'d external \<Rightarrow> device_buffer \<Rightarrow> device_buffer \<Rightarrow> device_buffer \<Rightarrow> bool \<Rightarrow> bool \<Rightarrow>
   ('d, device_buffer) kernel_op" where
  "gated_matmul D a gate up transpose_a transpose_b =
     andthen (ensure (shape gate = shape up)
       (shape_error ''gated-matmul expects gate and up weights of one shape'')) (\<lambda>_.
     andthen (lift (rows_cols_buf a)) (\<lambda>(a_rows, a_cols).
     andthen (lift (rows_cols_buf gate)) (\<lambda>(b_rows, b_cols).
     (let (m, k) = (if transpose_a then (a_cols, a_rows) else (a_rows, a_cols)) in
      if transpose_b \<or> m > MATMUL_SPLIT_K_MAX_ROWS \<or> k \<noteq> b_rows then
        andthen (matmul D a gate transpose_a transpose_b) (\<lambda>gate_out.
        andthen (matmul D a up transpose_a transpose_b) (\<lambda>up_out.
        silu_mul D gate_out up_out))
      else
        (let (a_row, a_inner) = (if transpose_a then (1, a_cols) else (a_cols, 1))
         in gated_matmul_fused D
              \<lparr>dim_m = m, dim_k = k, dim_n = b_cols, a_row_stride = a_row, a_inner_stride = a_inner,
               b_inner_stride = b_cols, b_col_stride = 1\<rparr> a gate up transpose_a)))))"

section \<open>What the matmul family keeps of a capture\<close>

lemmas matmul_keeps = keeps_split_bf16 keeps_launch_elems kernel_keeps

lemma keeps_matmul_blocks:
  assumes "recorded_keeps D P"
  shows "keeps (frame_le P) (matmul_tcp D d a b16 out ad mode ta tb)"
    and "keeps (frame_le P) (matmul_tc D d a b16 out ad mode)"
    and "keeps (frame_le P) (matmul_split_k D d a b b16 out addend)"
    and "keeps (frame_le P) (gated_matmul_tcp D d a g16 u16 out ta)"
    and "keeps (frame_le P) (gated_matmul_tc D d a g16 u16 out)"
    and "keeps (frame_le P) (gated_matmul_split_k D d a g u out)"
  unfolding matmul_tcp_def matmul_tc_def matmul_split_k_def gated_matmul_tcp_def gated_matmul_tc_def
    gated_matmul_split_k_def
  by (rule matmul_keeps assms)+

lemma keeps_matmul_plain:
  "recorded_keeps D P \<Longrightarrow> keeps (frame_le P) (matmul_plain D d a b b16 out addend)"
  unfolding matmul_plain_def by (rule keeps_elementwise matmul_keeps | assumption)+

lemma keeps_matmul_with_addend:
  "recorded_keeps D P \<Longrightarrow> keeps (frame_le P) (matmul_with_addend D a b addend ta tb)"
  unfolding matmul_with_addend_def
  by (rule keeps_matmul_blocks keeps_matmul_plain matmul_keeps | assumption)+

lemma keeps_matmuls:
  assumes "recorded_keeps D P"
  shows "keeps (frame_le P) (matmul D a b ta tb)"
    and "keeps (frame_le P) (matmul_bias D a b c ta tb)"
    and "keeps (frame_le P) (matmul_residual D a b c ta tb)"
  by (simp_all add: matmul_def matmul_bias_def matmul_residual_def keeps_matmul_with_addend assms)

lemma keeps_gated_matmul:
  assumes "recorded_keeps D P"
  shows "keeps (frame_le P) (gated_matmul D a g u ta tb)"
proof -
  have fused: "keeps (frame_le P) (gated_matmul_fused D d a g u ta)" for d
    unfolding gated_matmul_fused_def by (rule keeps_matmul_blocks matmul_keeps assms)+
  show ?thesis
    unfolding gated_matmul_def
    by (rule fused keeps_matmuls keeps_elementwise matmul_keeps assms)+
qed

section \<open>What the matmul family returns\<close>

lemma matmul_dims_of_Inr:
  assumes "matmul_dims_of a b ta tb = Inr d"
  obtains ar ac br bc where "shape a = [ar, ac]" "shape b = [br, bc]"
    "dim_m d = (if ta then ac else ar)" "dim_n d = (if tb then br else bc)"
    "dim_k d = (if ta then ar else ac)" "dim_k d = (if tb then bc else br)"
  using assms
  by (auto simp: matmul_dims_of_def split: sum.splits prod.splits if_splits)

definition matmul_shape :: "device_buffer \<Rightarrow> device_buffer \<Rightarrow> bool \<Rightarrow> bool \<Rightarrow> u64 list" where
  "matmul_shape a b ta tb =
     [(if ta then shape a ! 1 else shape a ! 0), (if tb then shape b ! 0 else shape b ! 1)]"

lemma matmul_dims_shape:
  "matmul_dims_of a b ta tb = Inr d \<Longrightarrow> [dim_m d, dim_n d] = matmul_shape a b ta tb"
  by (erule matmul_dims_of_Inr) (simp add: matmul_shape_def)

lemma returns_matmul_plain:
  assumes "slen out = dim_m d * dim_n d"
  shows "returns (matmul_plain D d a b b16 out addend) (output_of [dim_m d, dim_n d])"
proof -
  have w: "wf_buffer (plain out [dim_m d, dim_n d])" using assms by simp
  show ?thesis
    unfolding matmul_plain_def using returns_add [OF w] assms
    by (auto simp: Let_def intro!: returns_intros split: option.split)
qed

lemma returns_matmul_with_addend:
  "returns (matmul_with_addend D a b addend ta tb) (output_of (matmul_shape a b ta tb))"
  unfolding matmul_with_addend_def
  by (rule kernel_returns returns_mono [OF returns_matmul_plain]
      | simp add: matmul_dims_shape flip: matmul_dims_shape)+

lemma returns_matmuls:
  "returns (matmul D a b ta tb) (output_of (matmul_shape a b ta tb))"
  "returns (matmul_bias D a b c ta tb) (output_of (matmul_shape a b ta tb))"
  "returns (matmul_residual D a b c ta tb) (output_of (matmul_shape a b ta tb))"
  by (simp_all add: matmul_def matmul_bias_def matmul_residual_def returns_matmul_with_addend)

lemma returns_gated_fused:
  "returns (gated_matmul_fused D d a g u ta) (output_of [dim_m d, dim_n d])"
  unfolding gated_matmul_fused_def by (rule kernel_returns | simp)+

lemma returns_silu_mul_of: "output_of sh x \<Longrightarrow> returns (silu_mul D x y) (output_of sh)"
  using returns_silu_mul [OF output_of_wf, of sh x D y] by (simp add: output_of_def)

lemma returns_gated_matmul:
  "returns (gated_matmul D a g u ta tb) (output_of (matmul_shape a g ta tb))"
  unfolding gated_matmul_def
  by (rule returns_andthen [OF returns_matmuls(1)] returns_mono [OF returns_gated_fused]
      returns_silu_mul_of kernel_returns | assumption | force simp: matmul_shape_def split: if_splits)+

end
