(* ===== verification/Kernel_Attention.thy ===== *)
theory Kernel_Attention
  imports Kernel_Matmul
begin

text \<open>
  The attention family of \<open>src/kernels.rs\<close>: \<open>attention_bounded\<close> and the split decode
  attention, with the launch sizes and the scratch buffer they compute.
\<close>

section \<open>Dimensions\<close>

record attention_dims =
  seq_len :: u64
  kv_rows :: u64
  kv_seq_len :: u64
  head_count :: u64
  kv_head_count :: u64
  head_dimension :: u64
  q_model_dim :: u64
  kv_model_dim :: u64

definition query_position_offset :: "attention_dims \<Rightarrow> u64" where
  "query_position_offset d = kv_seq_len d - seq_len d"

text \<open>The checks of \<open>attention_bounded\<close>, in its order.\<close>

definition attention_dims_of ::
  "device_buffer \<Rightarrow> device_buffer \<Rightarrow> device_buffer \<Rightarrow> u64 \<Rightarrow> u64 \<Rightarrow> u64 option \<Rightarrow> u64 option \<Rightarrow> bool \<Rightarrow>
   u64 option \<Rightarrow> cuda_error + attention_dims" where
  "attention_dims_of q k v heads width kv_heads window causal key_count =
     (case require_f32 [q, k, v] ''attention'' of Inl e \<Rightarrow> Inl e | Inr _ \<Rightarrow>
     (case same_shape_buf k v of Inl e \<Rightarrow> Inl e | Inr _ \<Rightarrow>
     (let kv_heads = (case kv_heads of Some h \<Rightarrow> h | None \<Rightarrow> heads) in
      if heads = 0 \<or> width = 0 \<or> kv_heads = 0 then
        Inl (shape_error ''head_count, kv_head_count, and head_dimension must all be positive'')
      else if \<not> is_multiple_of heads kv_heads then
        Inl (shape_error ''head_count must be an exact multiple of kv_head_count'')
      else if window = Some 0 then
        Inl (shape_error ''window_size must be positive; a zero window admits no keys'')
      else if window \<noteq> None \<and> \<not> causal then
        Inl (shape_error ''window_size is only defined for causal attention'')
      else
     (case rows_cols_buf q of Inl e \<Rightarrow> Inl e | Inr (seq, q_dim) \<Rightarrow>
     (case rows_cols_buf k of Inl e \<Rightarrow> Inl e | Inr (rows, kv_dim) \<Rightarrow>
     (let kv_seq = (case key_count of Some c \<Rightarrow> c | None \<Rightarrow> rows) in
      if kv_seq > rows then Inl (shape_error ''key_count exceeds the rows of K/V'')
      else if seq > kv_seq then
        Inl (shape_error ''q sequence length cannot exceed k/v sequence length'')
      else if heads * width \<noteq> q_dim then
        Inl (shape_error ''head_count * head_dimension must equal q row width'')
      else if kv_heads * width \<noteq> kv_dim then
        Inl (shape_error ''kv_head_count * head_dimension must equal k/v row width'')
      else Inr \<lparr>seq_len = seq, kv_rows = rows, kv_seq_len = kv_seq, head_count = heads,
             kv_head_count = kv_heads, head_dimension = width, q_model_dim = q_dim,
             kv_model_dim = kv_dim\<rparr>))))))"

text \<open>The mask arguments: \<open>causal\<close> as an \<open>i32\<close>, no window as -1.\<close>

definition mask_args :: "u64 option \<Rightarrow> bool \<Rightarrow> karg list" where
  "mask_args window causal =
     [AI32 (if causal then 1 else 0), AI64 (case window of Some w \<Rightarrow> w | None \<Rightarrow> - 1)]"

definition launch_overflow :: cuda_error where
  "launch_overflow = shape_error ''attention launch size overflows a grid dimension''"

definition grid_u32 :: "u64 \<Rightarrow> cuda_error + u32" where
  "grid_u32 x = (case try_u32 x of None \<Rightarrow> Inl launch_overflow | Some y \<Rightarrow> Inr y)"

section \<open>Decode attention in chunks\<close>

definition split_grouped :: "attention_dims \<Rightarrow> (string \<times> u64) option" where
  "split_grouped d =
     (case grouped_decode_kernel (head_dimension d) of
        None \<Rightarrow> None
      | Some g \<Rightarrow>
          (if kv_head_count d > 0 \<and> head_count d mod kv_head_count d = 0 \<and>
              head_count d div kv_head_count d \<le> ATTENTION_GQA_MAX_GROUP
           then Some g else None))"

definition chunk_keys :: "attention_dims \<Rightarrow> u64" where
  "chunk_keys d = (case split_grouped d of Some (_, keys) \<Rightarrow> keys | None \<Rightarrow> ATTENTION_CHUNK_KEYS)"

definition chunk_count :: "attention_dims \<Rightarrow> u64" where
  "chunk_count d = max (div_ceil (kv_rows d) (chunk_keys d)) 1"

definition partial_len :: "attention_dims \<Rightarrow> u64" where
  "partial_len d = head_count d * chunk_count d * (head_dimension d + 2)"

definition attention_scratch_buffer :: "'d external \<Rightarrow> u64 \<Rightarrow> ('d, cuda_slice) kernel_op" where
  "attention_scratch_buffer D len =
     andthen (gets attention_scratch) (\<lambda>scratch.
     (if (case fst scratch of None \<Rightarrow> True | Some s \<Rightarrow> slen s < len) then
        andthen (forbid_in_capture ''growing the attention scratch buffer'') (\<lambda>_.
        andthen (alloc D F32 (max len (push_bit 16 1))) (\<lambda>grown.
        andthen (modify (\<lambda>k. k\<lparr>attention_scratch :=
           (Some grown, snd scratch @ (case fst scratch of None \<Rightarrow> [] | Some s \<Rightarrow> [s]))\<rparr>)) (\<lambda>_.
        ret grown)))
      else ret (the (fst scratch))))"

definition attention_grouped_launch ::
  "'d external \<Rightarrow> string \<Rightarrow> cuda_slice \<Rightarrow> device_buffer \<Rightarrow> device_buffer \<Rightarrow> device_buffer \<Rightarrow>
   attention_dims \<Rightarrow> karg list \<Rightarrow> u64 \<Rightarrow> ('d, unit) kernel_op" where
  "attention_grouped_launch D name partials q k v d masks step =
     andthen (load_function D name) (\<lambda>_.
     andthen (lift (grid_u32 (chunk_count d))) (\<lambda>gx.
     andthen (lift (grid_u32 (kv_head_count d))) (\<lambda>gy.
     launch_kernel D name
       ([APtr (ptr (buf_slice q)), APtr (ptr (buf_slice k)), APtr (ptr (buf_slice v)), APtr (ptr partials),
         AU64 (kv_seq_len d), AU64 (head_count d), AU64 (kv_head_count d), AU64 (kv_model_dim d)] @ masks @
        [AU64 (query_position_offset d), AU64 (chunk_count d), APtr step])
       \<lparr>grid_dim = (gx, gy, 1), block_dim = (ATTENTION_GQA_THREADS, 1, 1), shared_mem_bytes = 0\<rparr>)))"

definition attention_single_launch ::
  "'d external \<Rightarrow> cuda_slice \<Rightarrow> device_buffer \<Rightarrow> device_buffer \<Rightarrow> device_buffer \<Rightarrow>
   attention_dims \<Rightarrow> karg list \<Rightarrow> u64 \<Rightarrow> ('d, unit) kernel_op" where
  "attention_single_launch D partials q k v d masks step =
     andthen (load_function D ''attention_split_kernel'') (\<lambda>_.
     andthen (lift (grid_u32 (chunk_count d))) (\<lambda>gx.
     andthen (lift (grid_u32 (head_count d))) (\<lambda>gy.
     andthen (lift (grid_u32 (head_dimension d * 4))) (\<lambda>shared.
     launch_kernel D ''attention_split_kernel''
       ([APtr (ptr (buf_slice q)), APtr (ptr (buf_slice k)), APtr (ptr (buf_slice v)), APtr (ptr partials),
         AU64 (kv_seq_len d), AU64 (head_count d), AU64 (kv_head_count d), AU64 (head_dimension d),
         AU64 (q_model_dim d), AU64 (kv_model_dim d)] @ masks @
        [AU64 (query_position_offset d), AU64 (chunk_count d), APtr step])
       \<lparr>grid_dim = (gx, gy, 1), block_dim = (ATTENTION_SPLIT_THREADS, 1, 1),
        shared_mem_bytes = shared\<rparr>))))"

text \<open>Threads of the combine Kernel: up to 8 lanes per output dimension, one past 1024.\<close>

definition combine_threads :: "u64 \<Rightarrow> u64" where
  "combine_threads width =
     (if width > 1024 then 1024 else width * min (max (256 div width) 1) 8)"

definition combine_weight_bytes :: "u64 \<Rightarrow> u32" where
  "combine_weight_bytes count = (case try_u32 (count * 4) of Some b \<Rightarrow> b | None \<Rightarrow> - 1)"

definition attention_combine_launch ::
  "'d external \<Rightarrow> cuda_slice \<Rightarrow> cuda_slice \<Rightarrow> attention_dims \<Rightarrow> ('d, unit) kernel_op" where
  "attention_combine_launch D partials out d =
     andthen (load_function D ''attention_combine_kernel'') (\<lambda>_.
     (let weight_bytes = combine_weight_bytes (chunk_count d);
          cached = weight_bytes \<le> ATTENTION_COMBINE_MAX_DYNAMIC_SHARED
      in
      andthen (lift (grid_u32 (head_count d))) (\<lambda>gx.
      andthen (lift (grid_u32 (combine_threads (head_dimension d)))) (\<lambda>bx.
      launch_kernel D ''attention_combine_kernel''
        [APtr (ptr partials), APtr (ptr out), AU64 (head_count d), AU64 (head_dimension d),
         AU64 (chunk_count d), AI32 (if cached then 1 else 0)]
        \<lparr>grid_dim = (gx, 1, 1), block_dim = (bx, 1, 1),
         shared_mem_bytes = (if cached then weight_bytes else 0)\<rparr>))))"

definition attention_split ::
  "'d external \<Rightarrow> device_buffer \<Rightarrow> device_buffer \<Rightarrow> device_buffer \<Rightarrow> attention_dims \<Rightarrow> karg list \<Rightarrow>
   u64 \<Rightarrow> ('d, device_buffer) kernel_op" where
  "attention_split D q k v d masks step =
     andthen (attention_scratch_buffer D (partial_len d)) (\<lambda>partials.
     andthen (alloc_output D (slen (buf_slice q))) (\<lambda>out.
     andthen (case split_grouped d of
         Some (name, _) \<Rightarrow> attention_grouped_launch D name partials q k v d masks step
       | None \<Rightarrow> attention_single_launch D partials q k v d masks step) (\<lambda>_.
     andthen (attention_combine_launch D partials out d) (\<lambda>_.
     ret (plain out (shape q))))))"

section \<open>Attention over a prompt\<close>

definition attention_tcp ::
  "'d external \<Rightarrow> device_buffer \<Rightarrow> device_buffer \<Rightarrow> device_buffer \<Rightarrow> attention_dims \<Rightarrow> karg list \<Rightarrow>
   ('d, device_buffer option) kernel_op" where
  "attention_tcp D q k v d masks =
     (let kv_len = kv_seq_len d * kv_model_dim d in
      andthen (gets is_capturing) (\<lambda>capturing.
      (if seq_len d \<ge> 16 \<and> kv_model_dim d mod TCP_ALIGN = 0 \<and> kv_len > 0 \<and> \<not> capturing then
        (case tensor_core_prefill_attention (head_dimension d) of
           None \<Rightarrow> ret None
         | Some (name, shared_bytes) \<Rightarrow>
             andthen (tensor_function D name) (\<lambda>func.
             (case func of
                None \<Rightarrow> ret None
              | Some _ \<Rightarrow>
                  andthen (attempt (drv D (cu_set_max_shared D name
                     (if shared_bytes \<le> 0x7FFFFFFF then shared_bytes else 0x7FFFFFFF)))) (\<lambda>set.
                  (case set of
                     None \<Rightarrow> ret None
                   | Some _ \<Rightarrow>
                       andthen (split_bf16_all D [(k, kv_len), (v, kv_len)]) (\<lambda>terms.
                       (case terms of
                          None \<Rightarrow> ret None
                        | Some terms \<Rightarrow>
                            (let (k_hi, k_lo) = terms ! 0; (v_hi, v_lo) = terms ! 1 in
                             andthen (alloc_output D (slen (buf_slice q))) (\<lambda>out.
                             andthen (lift (grid_u32 (div_ceil (seq_len d) TCA_QUERIES))) (\<lambda>gx.
                             andthen (lift (grid_u32 (head_count d))) (\<lambda>gy.
                             andthen (launch_kernel D name
                               ([APtr (ptr (buf_slice q)), APtr k_hi, APtr k_lo, APtr v_hi, APtr v_lo,
                                 APtr (ptr out), AU64 (seq_len d), AU64 (kv_seq_len d),
                                 AU64 (head_count d), AU64 (kv_head_count d), AU64 (q_model_dim d),
                                 AU64 (kv_model_dim d)] @ masks @ [AU64 (query_position_offset d)])
                               \<lparr>grid_dim = (gx, gy, 1), block_dim = (TC_THREADS, 1, 1),
                                shared_mem_bytes = shared_bytes\<rparr>) (\<lambda>_.
                             ret (Some (plain out (shape q)))))))))))))))
       else ret None)))"

definition key_tile :: "u64 \<Rightarrow> u32" where
  "key_tile width = (if width \<le> 64 then 64 else 32)"

definition attention_tiled ::
  "'d external \<Rightarrow> device_buffer \<Rightarrow> device_buffer \<Rightarrow> device_buffer \<Rightarrow> attention_dims \<Rightarrow> karg list \<Rightarrow>
   ('d, device_buffer option) kernel_op" where
  "attention_tiled D q k v d masks =
     (case tiled_attention_kernel (head_dimension d) of
        None \<Rightarrow> ret None
      | Some tiled \<Rightarrow>
          andthen (gets is_capturing) (\<lambda>capturing.
          (if seq_len d > 1 \<and> \<not> capturing then
             (let tile = key_tile (head_dimension d) in
              andthen (alloc_output D (slen (buf_slice q))) (\<lambda>out.
              andthen (load_function D tiled) (\<lambda>_.
              andthen (lift (grid_u32 (div_ceil (seq_len d) ATTENTION_TILE_QUERIES))) (\<lambda>gx.
              andthen (lift (grid_u32 (head_count d))) (\<lambda>gy.
              andthen (lift (grid_u32 (2 * ucast tile * head_dimension d * 4))) (\<lambda>shared.
              andthen (launch_kernel D tiled
                ([APtr (ptr (buf_slice q)), APtr (ptr (buf_slice k)), APtr (ptr (buf_slice v)),
                  APtr (ptr out), AU64 (seq_len d), AU64 (kv_seq_len d), AU64 (head_count d),
                  AU64 (kv_head_count d), AU64 (q_model_dim d), AU64 (kv_model_dim d)] @ masks @
                 [AU64 (query_position_offset d), AU32 tile])
                \<lparr>grid_dim = (gx, gy, 1), block_dim = (4 * as_u32 ATTENTION_TILE_QUERIES, 1, 1),
                 shared_mem_bytes = shared\<rparr>) (\<lambda>_.
              ret (Some (plain out (shape q))))))))))
           else ret None)))"

definition attention_block ::
  "'d external \<Rightarrow> device_buffer \<Rightarrow> device_buffer \<Rightarrow> device_buffer \<Rightarrow> attention_dims \<Rightarrow> karg list \<Rightarrow>
   u64 \<Rightarrow> u64 \<Rightarrow> ('d, device_buffer) kernel_op" where
  "attention_block D q k v d masks step shared_bytes =
     andthen (lift (grid_u32 (head_count d * seq_len d))) (\<lambda>blocks.
     andthen (alloc_output D (slen (buf_slice q))) (\<lambda>out.
     andthen (load_function D ''attention_block_kernel'') (\<lambda>_.
     andthen (launch_kernel D ''attention_block_kernel''
       ([APtr (ptr (buf_slice q)), APtr (ptr (buf_slice k)), APtr (ptr (buf_slice v)), APtr (ptr out),
         AU64 (seq_len d), AU64 (kv_seq_len d), AU64 (head_count d), AU64 (kv_head_count d),
         AU64 (head_dimension d), AU64 (q_model_dim d), AU64 (kv_model_dim d)] @ masks @
        [AU64 (query_position_offset d), APtr step])
       \<lparr>grid_dim = (blocks, 1, 1), block_dim = (ATTENTION_THREADS, 1, 1),
        shared_mem_bytes = as_u32 shared_bytes\<rparr>) (\<lambda>_.
     ret (plain out (shape q))))))"

definition attention_threads ::
  "'d external \<Rightarrow> device_buffer \<Rightarrow> device_buffer \<Rightarrow> device_buffer \<Rightarrow> attention_dims \<Rightarrow> karg list \<Rightarrow>
   ('d, device_buffer) kernel_op" where
  "attention_threads D q k v d masks =
     andthen (gets is_capturing) (\<lambda>capturing.
     andthen (if capturing then forbid_in_capture ''attention over a history this long'' else ret ()) (\<lambda>_.
     andthen (alloc_zeros D F32 (slen (buf_slice q))) (\<lambda>out.
     andthen (launch_elems D ''attention_kernel''
       ([APtr (ptr (buf_slice q)), APtr (ptr (buf_slice k)), APtr (ptr (buf_slice v)), APtr (ptr out),
         AU64 (seq_len d), AU64 (kv_seq_len d), AU64 (head_count d), AU64 (kv_head_count d),
         AU64 (head_dimension d), AU64 (q_model_dim d), AU64 (kv_model_dim d)] @ masks @
        [AU64 (query_position_offset d)]) (head_count d * seq_len d)) (\<lambda>_.
     ret (plain out (shape q))))))"

text \<open>The offset of a captured, bounded attention; its bound is the rows left in K.\<close>

definition key_step_offset :: "attention_dims \<Rightarrow> u64 option \<Rightarrow> ('d, u64) kernel_op" where
  "key_step_offset d key_count =
     (case key_count of
        Some _ \<Rightarrow> advancing_offset ''key_count'' (kv_rows d - kv_seq_len d)
      | None \<Rightarrow> ret 0)"

definition block_shared_bytes :: "attention_dims \<Rightarrow> u64 \<Rightarrow> u64" where
  "block_shared_bytes d step =
     (head_dimension d + ucast ATTENTION_THREADS +
      (if step \<noteq> 0 then kv_rows d else kv_seq_len d)) * 4"

definition attention_bounded ::
  "'d external \<Rightarrow> device_buffer \<Rightarrow> device_buffer \<Rightarrow> device_buffer \<Rightarrow> u64 \<Rightarrow> u64 \<Rightarrow> u64 option \<Rightarrow>
   u64 option \<Rightarrow> bool \<Rightarrow> u64 option \<Rightarrow> ('d, device_buffer) kernel_op" where
  "attention_bounded D q k v heads width kv_heads window causal key_count =
     andthen (lift (attention_dims_of q k v heads width kv_heads window causal key_count)) (\<lambda>d.
     (let masks = mask_args window causal in
      if seq_len d = 1 then
        andthen (key_step_offset d key_count) (\<lambda>step.
        attention_split D q k v d masks step)
      else
        andthen (attention_tcp D q k v d masks) (\<lambda>tcp.
        (case tcp of Some out \<Rightarrow> ret out | None \<Rightarrow>
        andthen (attention_tiled D q k v d masks) (\<lambda>tiled.
        (case tiled of Some out \<Rightarrow> ret out | None \<Rightarrow>
        andthen (key_step_offset d key_count) (\<lambda>step.
        (let shared_bytes = block_shared_bytes d step in
         if shared_bytes \<le> ATTENTION_MAX_SHARED_BYTES then
           attention_block D q k v d masks step shared_bytes
         else attention_threads D q k v d masks))))))))"

definition attention ::
  "'d external \<Rightarrow> device_buffer \<Rightarrow> device_buffer \<Rightarrow> device_buffer \<Rightarrow> u64 \<Rightarrow> u64 \<Rightarrow> u64 option \<Rightarrow>
   u64 option \<Rightarrow> bool \<Rightarrow> ('d, device_buffer) kernel_op" where
  "attention D q k v heads width kv_heads window causal =
     attention_bounded D q k v heads width kv_heads window causal None"

section \<open>What attention keeps and returns\<close>

lemma keeps_attention_scratch: "keeps (frame_le P) (attention_scratch_buffer D n)"
  unfolding attention_scratch_buffer_def
  by (rule outside_keeps [OF keeps_modify] kernel_keeps | simp)+

lemma keeps_attention_launches:
  assumes "recorded_keeps D P"
  shows "keeps (frame_le P) (attention_grouped_launch D name p q k v d m s)"
    and "keeps (frame_le P) (attention_single_launch D p q k v d m s)"
    and "keeps (frame_le P) (attention_combine_launch D p out d)"
  unfolding attention_grouped_launch_def attention_single_launch_def attention_combine_launch_def
  by (rule kernel_keeps assms)+

lemma keeps_attention_split:
  "recorded_keeps D P \<Longrightarrow> keeps (frame_le P) (attention_split D q k v d m s)"
  unfolding attention_split_def
  by (rule keeps_attention_scratch keeps_attention_launches kernel_keeps | assumption)+

lemma keeps_set_max_shared:
  "recorded_keeps D P \<Longrightarrow> keeps (frame_le P) (drv D (cu_set_max_shared D f n))"
  by (rule keeps_drv_recorded) (simp add: recorded_keeps_def)

lemma keeps_attention_prompt:
  assumes "recorded_keeps D P"
  shows "keeps (frame_le P) (attention_tcp D q k v d m)"
    and "keeps (frame_le P) (attention_tiled D q k v d m)"
    and "keeps (frame_le P) (attention_block D q k v d m s b)"
    and "keeps (frame_le P) (key_step_offset d kc)"
  unfolding attention_tcp_def attention_tiled_def attention_block_def key_step_offset_def
  by (rule keeps_set_max_shared keeps_split_bf16_all kernel_keeps assms)+

lemma keeps_attention_threads: "keeps (frame_le P) (attention_threads D q k v d m)"
proof -
  have forbid: "keeps_outside P (f ()) \<Longrightarrow>
      keeps (frame_le P) (andthen (gets is_capturing)
        (\<lambda>c. andthen (if c then forbid_in_capture w else ret ()) f))" for f w
    by (rule keeps_gets_capturing)
      (simp_all add: keeps_forbid_then, simp add: andthen_def ret_def keeps_outside_def)
  show ?thesis
    unfolding attention_threads_def by (rule forbid outside_launch_elems outside_all)+
qed

lemma keeps_attention:
  assumes "recorded_keeps D P"
  shows "keeps (frame_le P) (attention_bounded D q k v h w kv win c kc)"
  unfolding attention_bounded_def
  by (rule keeps_attention_split keeps_attention_threads keeps_attention_prompt kernel_keeps assms)+

lemma attention_dims_of_Inr:
  assumes "attention_dims_of q k v h w kv win c kc = Inr d"
  shows "bf16 q = None \<and> bf16 k = None \<and> bf16 v = None \<and> shape k = shape v \<and>
    shape q = [seq_len d, q_model_dim d] \<and> shape k = [kv_rows d, kv_model_dim d] \<and>
    head_count d = h \<and> head_dimension d = w \<and> kv_head_count d = (case kv of Some x \<Rightarrow> x | None \<Rightarrow> h) \<and>
    h \<noteq> 0 \<and> w \<noteq> 0 \<and> kv_head_count d \<noteq> 0 \<and> is_multiple_of h (kv_head_count d) \<and>
    win \<noteq> Some 0 \<and> (win \<noteq> None \<longrightarrow> c) \<and>
    kv_seq_len d = (case kc of Some x \<Rightarrow> x | None \<Rightarrow> kv_rows d) \<and>
    kv_seq_len d \<le> kv_rows d \<and> seq_len d \<le> kv_seq_len d \<and>
    h * w = q_model_dim d \<and> kv_head_count d * w = kv_model_dim d"
  using assms
  by (auto simp: attention_dims_of_def Let_def same_shape_buf_def not_less
      split: sum.splits if_splits prod.splits) (simp_all split: option.splits)

lemma returns_attention_parts:
  assumes "wf_buffer q" "bf16 q = None"
  shows "returns (attention_split D q k v d m s) (output_of (shape q))"
    and "returns (attention_block D q k v d m s b) (output_of (shape q))"
    and "returns (attention_threads D q k v d m) (output_of (shape q))"
  unfolding attention_split_def attention_block_def attention_threads_def
  by (rule kernel_returns | simp add: wf_buffer_f32 [OF assms])+

lemma returns_attention_prompt:
  assumes "wf_buffer q" "bf16 q = None"
  shows "returns (attention_tcp D q k v d m) (\<lambda>r. \<forall>b. r = Some b \<longrightarrow> output_of (shape q) b)"
    and "returns (attention_tiled D q k v d m) (\<lambda>r. \<forall>b. r = Some b \<longrightarrow> output_of (shape q) b)"
  unfolding attention_tcp_def attention_tiled_def
  by (rule kernel_returns | simp add: wf_buffer_f32 [OF assms])+

lemma returns_attention_bounded:
  assumes "wf_buffer q"
  shows "returns (attention_bounded D q k v h w kv win c kc) (output_of (shape q))"
  unfolding attention_bounded_def
proof (rule returns_lift_then)
  fix d assume "attention_dims_of q k v h w kv win c kc = Inr d"
  then have q: "bf16 q = None" by (simp add: attention_dims_of_Inr)
  note parts = returns_attention_parts [OF assms q]
  note prompt = returns_andthen [OF returns_attention_prompt(1) [OF assms q]]
    returns_andthen [OF returns_attention_prompt(2) [OF assms q]]
  show "returns (let masks = mask_args win c in
      if seq_len d = 1 then
        andthen (key_step_offset d kc) (\<lambda>step. attention_split D q k v d masks step)
      else
        andthen (attention_tcp D q k v d masks) (\<lambda>tcp.
        (case tcp of Some out \<Rightarrow> ret out | None \<Rightarrow>
        andthen (attention_tiled D q k v d masks) (\<lambda>tiled.
        (case tiled of Some out \<Rightarrow> ret out | None \<Rightarrow>
        andthen (key_step_offset d kc) (\<lambda>step.
        (let shared_bytes = block_shared_bytes d step in
         if shared_bytes \<le> ATTENTION_MAX_SHARED_BYTES then
           attention_block D q k v d masks step shared_bytes
         else attention_threads D q k v d masks))))))) (output_of (shape q))"
    by (rule parts prompt returns_intros | simp)+
qed

lemma returns_attention:
  "wf_buffer q \<Longrightarrow> returns (attention D q k v h w kv win c) (output_of (shape q))"
  by (simp add: attention_def returns_attention_bounded)

end
