(* ===== verification/Simulated_Device.thy ===== *)
theory Simulated_Device
  imports Driver
begin

text \<open>
  One instance of the driver interface: a Device whose state is the next free address and
  whose calls succeed. The concrete cases of the properties run the operations on it.
\<close>

definition sim_config :: "u32 \<Rightarrow> launch_config" where
  "sim_config n = \<lparr>grid_dim = (div_ceil n 1024, 1, 1), block_dim = (1024, 1, 1), shared_mem_bytes = 0\<rparr>"

definition sim_alloc :: "(u64, cu_result, u64) exec" where
  "sim_alloc = (\<lambda>d. (Inr d, d + 256))"

definition sim_host :: "u64 list \<Rightarrow> f32 list \<Rightarrow> string + host_tensor" where
  "sim_host sh data =
     (if foldr (*) sh 1 = of_nat (length data) then Inr \<lparr>tshape = sh, tdata = data\<rparr> else Inl ''shape'')"

definition sim :: "u64 external" where
  "sim = \<lparr>cu_text = (\<lambda>_. ''CUDA error''),
     cu_alloc = (\<lambda>_ _. sim_alloc), cu_alloc_zeros = (\<lambda>_ _. sim_alloc), cu_clone_htod = (\<lambda>_. sim_alloc),
     cu_memcpy_htod = (\<lambda>_ _. ret ()), cu_dtoh_f32 = (\<lambda>_ n. ret (replicate (unat n) 0)),
     cu_dtoh_u16 = (\<lambda>_ n. ret (replicate (unat n) 0)), cu_dtoh_u64 = (\<lambda>_. ret 0), cu_dtoh_i32 = (\<lambda>_. ret 0),
     cu_clone_dtod = (\<lambda>_ _. sim_alloc), cu_memcpy_dtod = (\<lambda>_ _. ret ()), cu_memset_zeros = (\<lambda>_. ret ()),
     cu_synchronize = ret (), cu_load_function = (\<lambda>_. ret ()), cu_load_tensor_function = (\<lambda>_. ret ()),
     cu_set_max_shared = (\<lambda>_ _. ret ()), cu_launch = (\<lambda>_. ret ()), cu_begin_capture = ret (),
     cu_end_capture = ret (Some 1), cu_graph_launch = (\<lambda>_. ret ()), for_num_elems = sim_config,
     banded_validate = (\<lambda>_. Inr ()), host_new = sim_host\<rparr>"

end
