(* ===== verification/Device_Kernels.thy ===== *)
theory Device_Kernels
  imports Kernel_Attention Simulated_Device
begin

text \<open>
  The index arithmetic of \<open>src/kernels.cu\<close> that the launches of \<open>src/kernels.rs\<close> depend
  on, in its 64-bit unsigned arithmetic: where \<open>kv_write_kernel\<close> writes, which keys each
  block of the split decode attention scores and where it leaves its partial, and the lanes of
  the combine Kernel. The floating-point contents of these Kernels are not modelled.
\<close>

section \<open>Device code\<close>

text \<open>\<open>kv_write_kernel\<close>: the element of the store thread \<open>i\<close> writes.\<close>

definition kv_write_index :: "u64 \<Rightarrow> u64 \<Rightarrow> u64 \<Rightarrow> u64 \<Rightarrow> u64" where
  "kv_write_index row_offset step width i = (row_offset + step) * width + i"

text \<open>The keys \<open>[key_lower, key_upper)\<close> one query attends to; \<open>window\<close> is an \<open>i64\<close>.\<close>

definition key_window :: "u64 \<Rightarrow> u64 \<Rightarrow> bool \<Rightarrow> u64 \<Rightarrow> u64 \<Rightarrow> u64 \<times> u64" where
  "key_window kv_len query_offset causal window step =
     (let kv_len = kv_len + step;
          query_position = query_offset + step;
          key_upper = (if causal then query_position + 1 else kv_len);
          key_lower = (if window < 0x8000000000000000 then
             (let back = (if window > 0 then window - 1 else 0);
                  lower = (if query_position > back then query_position - back else 0)
              in if lower > key_upper then key_upper else lower)
             else 0)
      in (key_lower, key_upper))"

text \<open>The keys block \<open>chunk\<close> of \<open>attention_split_kernel\<close> or its grouped form scores.\<close>

definition split_key_range :: "u64 \<times> u64 \<Rightarrow> u64 \<Rightarrow> u64 \<Rightarrow> u64 \<times> u64" where
  "split_key_range = (\<lambda>(key_lower, key_upper) keys chunk.
     (let first = key_lower + chunk * keys;
          last = first + keys
      in (first, if last > key_upper then key_upper else last)))"

text \<open>Where the partial of (head, chunk) starts; it has \<open>width + 2\<close> elements.\<close>

definition partial_index :: "u64 \<Rightarrow> u64 \<Rightarrow> u64 \<Rightarrow> u64 \<Rightarrow> u64" where
  "partial_index head chunk count width = (head * count + chunk) * (width + 2)"

text \<open>\<open>attention_combine_kernel\<close>: its lanes, and the dimensions it sums at a time.\<close>

definition combine_lanes :: "u32 \<Rightarrow> u64 \<Rightarrow> u32" where
  "combine_lanes threads width =
     (let lanes = threads div as_u32 width in if lanes = 0 then 1 else lanes)"

section \<open>In-place KV writes under replay\<close>

lemma advancing_offset_run:
  assumes "advancing_offset a n k = (r, k')" "capture k = Some c" "a \<in> advancing c"
  shows "r = Inr (ptr (cap_offset c)) \<and> capture k' = Some (c\<lparr>max_offset := min (max_offset c) n\<rparr>)"
  using assms by (auto simp: advancing_offset_def)

lemma recorded_keeps_True: "recorded_keeps D (\<lambda>_. True)"
  by (simp add: recorded_keeps_def)

lemma kv_write_Inr:
  assumes "kv_write D store rows off k = (Inr (), k')"
  obtains cap w n r k1 where "shape store = [cap, w]" "shape rows = [n, w]"
    "bf16 store = None" "bf16 rows = None"
    "unat off + unat n \<le> unat cap" "advancing_offset ''row_offset'' (cap - (off + n)) k = (Inr r, k1)"
    "capture_le (capture k1) (capture k')"
proof -
  have launch: "capture_le (capture k1) (capture k')"
    if "launch_elems D f args m k1 = (Inr (), k')" for f args m k1
    using keepsD [OF keeps_launch_elems [OF recorded_keeps_True] that] by (simp add: frame_le_def)
  from assms(1) show ?thesis
    unfolding kv_write_def andthen_def lift_def ensure_def ret_def throw_def
    by (auto split: prod.splits sum.splits if_splits option.splits
        simp: Let_def checked_add_le not_less intro!: that dest: launch)
qed

text \<open>C18. A captured in-place KV write can be replayed at every offset the capture then admits:
  whatever the capture's later Kernels do to its bound, the rows written at the recorded row
  offset plus the replay offset stay inside the store, and each thread's element is the one its
  row and column say, without wrap-around.\<close>
theorem kv_write_replay_in_bounds:
  assumes run: "kv_write D store rows off k = (Inr (), k')"
    and c: "capture k = Some c" "''row_offset'' \<in> advancing c"
    and later: "capture_le (capture k') (Some c')" and o: "step \<le> max_offset c'"
    and sh: "shape store = [cap, w]" "shape rows = [n, w]"
    and fits: "unat cap * unat w < 2 ^ 64"
    and i: "unat i < unat n * unat w"
  shows "unat off + unat step + unat n \<le> unat cap \<and>
    unat (kv_write_index off step w i) = (unat off + unat step) * unat w + unat i \<and>
    unat (kv_write_index off step w i) < unat cap * unat w"
proof -
  obtain r k1 where b: "unat off + unat n \<le> unat cap"
    and a: "advancing_offset ''row_offset'' (cap - (off + n)) k = (Inr r, k1)"
    and k1: "capture_le (capture k1) (capture k')"
    using kv_write_Inr [OF run] sh by (metis list.inject)
  have "max_offset c' \<le> min (max_offset c) (cap - (off + n))"
    using capture_le_trans [OF k1 later] advancing_offset_run [OF a c] by (simp add: capture_le_def)
  with o have "step \<le> cap - (off + n)" by (meson min.boundedE order_trans)
  moreover have on: "unat (off + n) = unat off + unat n"
    using b unat_lt_u64 [of cap] by (intro unat_add_u64) linarith
  then have "unat (cap - (off + n)) = unat cap - (unat off + unat n)"
    using b by (simp add: unat_sub word_le_nat_alt)
  ultimately have s: "unat off + unat step + unat n \<le> unat cap"
    using b by (simp add: word_le_nat_alt)
  have m: "(unat off + unat step) * unat w + unat n * unat w \<le> unat cap * unat w"
    using s by (metis add_mult_distrib mult_le_mono1)
  have os: "unat (off + step) = unat off + unat step"
    using s unat_lt_u64 [of cap] by (intro unat_add_u64) linarith
  have "unat ((off + step) * w) = (unat off + unat step) * unat w"
    using m fits by (subst unat_mult_u64) (simp_all add: os)
  then have "unat (kv_write_index off step w i) = (unat off + unat step) * unat w + unat i"
    using m fits i unfolding kv_write_index_def by (subst unat_add_u64) simp_all
  then show ?thesis using s m i by linarith
qed

section \<open>The chunks of a decode step's attention\<close>

text \<open>On natural numbers: chunks of \<open>C\<close> keys from \<open>lo\<close> partition \<open>[lo, up)\<close>.\<close>

lemma chunk_partition:
  fixes lo up C N j :: nat
  assumes "0 < C" "up \<le> N * C" "lo \<le> j" "j < up"
  shows "\<exists>!c. c < N \<and> lo + c * C \<le> j \<and> j < min (lo + c * C + C) up"
proof (rule ex1I)
  let ?c = "(j - lo) div C"
  have d: "?c * C + (j - lo) mod C = j - lo" and m: "(j - lo) mod C < C" using assms(1) by simp_all
  have "j - lo < N * C" using assms by simp
  then have "?c < N" using assms(1) by (simp add: less_mult_imp_div_less)
  then show "?c < N \<and> lo + ?c * C \<le> j \<and> j < min (lo + ?c * C + C) up"
    unfolding min_less_iff_conj using d m assms(3,4) by linarith
next
  fix c assume c: "c < N \<and> lo + c * C \<le> j \<and> j < min (lo + c * C + C) up"
  then have "c * C \<le> j - lo" "j - lo < (c + 1) * C" using assms by auto
  then show "c = (j - lo) div C"
    using assms(1) by (metis Suc_eq_plus1 div_nat_eqI mult.commute)
qed

lemma chunk_keys_cases: "chunk_keys d \<in> {32, 64, 128}"
  by (auto simp: chunk_keys_def split_grouped_def grouped_decode_kernel_def plan_constants
      split: option.splits if_splits)

lemma chunk_keys_unat: "chunk_keys d \<noteq> 0" "unat (chunk_keys d) \<le> 128"
  using chunk_keys_cases [of d] by auto

lemma unat_chunk_count:
  "unat (chunk_count d) = max (unat (div_ceil (kv_rows d) (chunk_keys d))) 1"
  by (simp add: chunk_count_def max_def word_le_nat_alt)

lemma chunk_count_covers: "unat (kv_rows d) \<le> unat (chunk_count d) * unat (chunk_keys d)"
proof -
  have "unat (kv_rows d) \<le> unat (div_ceil (kv_rows d) (chunk_keys d)) * unat (chunk_keys d)"
    using div_ceil_covers [OF chunk_keys_unat(1)] by simp
  also have "\<dots> \<le> unat (chunk_count d) * unat (chunk_keys d)" by (simp add: unat_chunk_count)
  finally show ?thesis .
qed

lemma chunk_offset_bound:
  assumes "c < chunk_count d"
  shows "unat c * unat (chunk_keys d) \<le> unat (kv_rows d) + 128"
proof -
  have k: "chunk_keys d \<noteq> 0" "unat (chunk_keys d) \<le> 128" by (rule chunk_keys_unat)+
  have c: "unat c + 1 \<le> unat (chunk_count d)" using assms by (simp add: word_less_nat_alt)
  show ?thesis
  proof (cases "kv_rows d = 0")
    case True
    then have "unat (chunk_count d) = 1" by (simp add: unat_chunk_count div_ceil_def)
    with c show ?thesis by simp
  next
    case False
    have "unat c \<le> unat (div_ceil (kv_rows d) (chunk_keys d)) - 1"
      using c by (simp add: unat_chunk_count)
    then have "unat c * unat (chunk_keys d) < unat (kv_rows d)"
      using div_ceil_tight [OF k(1) False] by (meson le_less_trans mult_le_mono1)
    then show ?thesis by simp
  qed
qed

lemma split_key_range_unat:
  assumes c: "c < chunk_count d" and big: "unat (kv_rows d) < 2 ^ 62" "unat lo < 2 ^ 62"
  shows "unat (fst (split_key_range (lo, up) (chunk_keys d) c)) = unat lo + unat c * unat (chunk_keys d)"
    and "unat (snd (split_key_range (lo, up) (chunk_keys d) c)) =
      min (unat lo + unat c * unat (chunk_keys d) + unat (chunk_keys d)) (unat up)"
proof -
  have cb: "unat c * unat (chunk_keys d) \<le> unat (kv_rows d) + 128" by (rule chunk_offset_bound [OF c])
  have kb: "unat (chunk_keys d) \<le> 128" by (rule chunk_keys_unat)
  have p: "unat (c * chunk_keys d) = unat c * unat (chunk_keys d)"
    using cb big by (intro unat_mult_u64) simp
  have f: "unat (lo + c * chunk_keys d) = unat lo + unat c * unat (chunk_keys d)"
    using cb big by (subst unat_add_u64) (simp_all add: p)
  have l: "unat (lo + c * chunk_keys d + chunk_keys d) =
      unat lo + unat c * unat (chunk_keys d) + unat (chunk_keys d)"
    using cb kb big by (subst unat_add_u64) (simp_all add: f)
  show "unat (fst (split_key_range (lo, up) (chunk_keys d) c)) = unat lo + unat c * unat (chunk_keys d)"
    by (simp add: split_key_range_def f Let_def)
  show "unat (snd (split_key_range (lo, up) (chunk_keys d) c)) =
      min (unat lo + unat c * unat (chunk_keys d) + unat (chunk_keys d)) (unat up)"
    by (simp add: split_key_range_def l Let_def word_less_nat_alt min_def)
qed

lemma decode_key_window:
  assumes d: "attention_dims_of q k v h w kvh win causal kc = Inr d" and one: "seq_len d = 1"
    and step: "step \<le> kv_rows d - kv_seq_len d"
    and rng: "key_window (kv_seq_len d) (query_position_offset d) causal window step = (lo, up)"
  shows "unat up = unat (kv_seq_len d) + unat step" "up \<le> kv_rows d" "lo \<le> up"
proof -
  note facts = attention_dims_of_Inr [OF d]
  have "up = kv_seq_len d + step"
    using rng one by (auto simp: key_window_def query_position_offset_def Let_def split: if_splits)
  moreover have "kv_seq_len d \<le> kv_rows d" using facts by blast
  then have le: "unat (kv_seq_len d) \<le> unat (kv_rows d)" by (simp only: word_le_nat_alt)
  moreover have s: "unat step \<le> unat (kv_rows d) - unat (kv_seq_len d)"
    using step \<open>kv_seq_len d \<le> kv_rows d\<close> by (simp only: word_le_nat_alt unat_sub_le)
  ultimately show u: "unat up = unat (kv_seq_len d) + unat step"
    using unat_lt_u64 [of "kv_rows d"] by (simp add: unat_add_u64)
  show "up \<le> kv_rows d" using u s le by (simp add: word_le_nat_alt)
  show "lo \<le> up" using rng by (auto simp: key_window_def Let_def split: if_splits)
qed

text \<open>C17. A decode step's split attention scores every key of the query's window exactly once,
  at every replay offset its capture admits: the window ends at the key count plus the offset,
  within the rows of K and V, and each of its keys lies in exactly one of the launched chunks.\<close>
theorem attention_split_covers_keys:
  assumes d: "attention_dims_of q k v h w kvh win causal kc = Inr d" and one: "seq_len d = 1"
    and big: "unat (kv_rows d) < 2 ^ 62"
    and step: "step \<le> kv_rows d - kv_seq_len d"
    and rng: "key_window (kv_seq_len d) (query_position_offset d) causal window step = (lo, up)"
  shows "unat up = unat (kv_seq_len d) + unat step \<and> up \<le> kv_rows d \<and>
    (\<forall>j. lo \<le> j \<and> j < up \<longrightarrow> (\<exists>!c. c < chunk_count d \<and>
       fst (split_key_range (lo, up) (chunk_keys d) c) \<le> j \<and>
       j < snd (split_key_range (lo, up) (chunk_keys d) c)))"
proof (intro conjI allI impI)
  note window = decode_key_window [OF d one step rng]
  show "unat up = unat (kv_seq_len d) + unat step" "up \<le> kv_rows d" by (rule window)+
  fix j assume j: "lo \<le> j \<and> j < up"
  let ?C = "unat (chunk_keys d)" and ?N = "unat (chunk_count d)"
  have lo: "unat lo < 2 ^ 62" using window big by (simp add: word_le_nat_alt)
  have "0 < ?C" using chunk_keys_unat(1) [of d] by (simp add: unat_gt_0)
  moreover have "unat up \<le> ?N * ?C"
    using window(2) chunk_count_covers [of d] by (simp add: word_le_nat_alt)
  ultimately have ex: "\<exists>!c. c < ?N \<and> unat lo + c * ?C \<le> unat j \<and>
      unat j < min (unat lo + c * ?C + ?C) (unat up)"
    by (rule chunk_partition) (use j in \<open>simp_all add: word_le_nat_alt word_less_nat_alt\<close>)
  have in_chunk: "fst (split_key_range (lo, up) (chunk_keys d) c) \<le> j \<and>
        j < snd (split_key_range (lo, up) (chunk_keys d) c) \<longleftrightarrow>
      unat lo + unat c * ?C \<le> unat j \<and> unat j < min (unat lo + unat c * ?C + ?C) (unat up)"
    if "c < chunk_count d" for c
    unfolding word_le_nat_alt word_less_nat_alt split_key_range_unat [OF that big lo] ..
  from ex obtain n where n: "n < ?N" "unat lo + n * ?C \<le> unat j"
      "unat j < min (unat lo + n * ?C + ?C) (unat up)" by blast
  have cn: "unat (of_nat n :: u64) = n"
    using n(1) unat_lt_u64 [of "chunk_count d"] by (simp add: unat_of_nat)
  show "\<exists>!c. c < chunk_count d \<and> fst (split_key_range (lo, up) (chunk_keys d) c) \<le> j \<and>
      j < snd (split_key_range (lo, up) (chunk_keys d) c)"
  proof (rule ex1I [of _ "of_nat n"])
    have "of_nat n < chunk_count d" using n(1) cn by (simp only: word_less_nat_alt)
    then show "of_nat n < chunk_count d \<and> fst (split_key_range (lo, up) (chunk_keys d) (of_nat n)) \<le> j \<and>
        j < snd (split_key_range (lo, up) (chunk_keys d) (of_nat n))"
      using in_chunk n cn by simp
  next
    fix c assume c: "c < chunk_count d \<and> fst (split_key_range (lo, up) (chunk_keys d) c) \<le> j \<and>
        j < snd (split_key_range (lo, up) (chunk_keys d) c)"
    then have "unat c < ?N" by (simp add: word_less_nat_alt)
    with c in_chunk ex n have "unat c = n" by blast
    with cn have "unat c = unat (of_nat n :: u64)" by simp
    then show "c = of_nat n" by (simp only: word_unat_eq_iff)
  qed
qed

section \<open>The scratch buffer of the split attention\<close>

definition scratch_buffers :: "cuda_slice option \<times> cuda_slice list \<Rightarrow> cuda_slice set" where
  "scratch_buffers s = set_option (fst s) \<union> set (snd s)"

lemma attention_scratch_run:
  assumes "attention_scratch_buffer D len k = (Inr s, k')"
  shows "len \<le> slen s \<and> fst (attention_scratch k') = Some s \<and>
    scratch_buffers (attention_scratch k) \<subseteq> scratch_buffers (attention_scratch k')"
proof -
  have alloc_keeps: "attention_scratch k2 = attention_scratch k1" if "alloc D ty n k1 = (r, k2)" for ty n k1 k2 r
    using that by (auto simp: alloc_def andthen_def ret_def drv_def map_err_def inside_def
        split: prod.splits sum.splits)
  have alloc_len: "slen x = n" if "alloc D ty n k1 = (Inr x, k2)" for ty n k1 k2 x
    using that by (auto simp: alloc_def andthen_def ret_def split: prod.splits sum.splits)
  from assms show ?thesis
    unfolding attention_scratch_buffer_def andthen_def gets_def forbid_in_capture_def ret_def modify_def
    by (auto split: prod.splits sum.splits option.splits if_splits simp: scratch_buffers_def
        dest: alloc_keeps alloc_len)
qed

text \<open>C23. The scratch buffer a split attention takes holds every partial of its launch: each
  element of each (head, chunk) partial lies inside it, no two partials overlap, and a buffer
  once taken is kept (a captured step may replay into it) even when a larger one replaces it.\<close>
theorem attention_partials_fit:
  assumes run: "attention_scratch_buffer D (partial_len d) k = (Inr s, k')"
    and fits: "unat (head_count d) * unat (chunk_count d) * (unat (head_dimension d) + 2) < 2 ^ 64"
    and a: "h < head_count d" "c < chunk_count d" "e < unat (head_dimension d) + 2"
  shows "unat (partial_index h c (chunk_count d) (head_dimension d)) + e < unat (slen s) \<and>
    (\<forall>h' c' e'. h' < head_count d \<and> c' < chunk_count d \<and> e' < unat (head_dimension d) + 2 \<and>
       unat (partial_index h' c' (chunk_count d) (head_dimension d)) + e' =
       unat (partial_index h c (chunk_count d) (head_dimension d)) + e \<longrightarrow> h' = h \<and> c' = c \<and> e' = e) \<and>
    scratch_buffers (attention_scratch k) \<subseteq> scratch_buffers (attention_scratch k')"
proof -
  let ?H = "unat (head_count d)" and ?N = "unat (chunk_count d)" and ?W = "unat (head_dimension d) + 2"
  have W: "unat (head_dimension d + 2) = ?W" if "0 < ?H * ?N"
  proof -
    have "?W \<le> ?H * ?N * ?W" using that by (metis Suc_leI mult_1 mult_le_mono1 One_nat_def)
    then show ?thesis using fits by (intro unat_add_u64 [THEN trans]) simp_all
  qed
  have idx: "unat (partial_index h c (chunk_count d) (head_dimension d)) = (unat h * ?N + unat c) * ?W \<and>
      unat h * ?N + unat c < ?H * ?N"
    if b: "h < head_count d" "c < chunk_count d" for h c
  proof -
    have hc: "unat h < ?H" "unat c < ?N" using b by (simp_all add: word_less_nat_alt)
    then have "(unat h + 1) * ?N \<le> ?H * ?N" by (intro mult_le_mono1) simp
    with hc have lt: "unat h * ?N + unat c < ?H * ?N" by simp
    then have lew: "(unat h * ?N + unat c) * ?W \<le> ?H * ?N * ?W" by (intro mult_le_mono1) simp
    have pos: "0 < ?H * ?N" using lt by linarith
    have "?H * ?N \<le> ?H * ?N * ?W" by simp
    then have small: "?H * ?N < 2 ^ 64" using fits by linarith
    have m: "unat (h * chunk_count d) = unat h * ?N" using lt small by (intro unat_mult_u64) simp
    have am: "unat (h * chunk_count d + c) = unat h * ?N + unat c"
      using lt small m by (subst unat_add_u64) simp_all
    have "unat (partial_index h c (chunk_count d) (head_dimension d)) = (unat h * ?N + unat c) * ?W"
      unfolding partial_index_def using lew fits am W [OF pos] by (subst unat_mult_u64) simp_all
    with lt show ?thesis by simp
  qed
  have HN: "0 < ?H * ?N" using idx [OF a(1,2)] by linarith
  have len: "unat (partial_len d) = ?H * ?N * ?W"
  proof -
    have "?H * ?N \<le> ?H * ?N * ?W" by simp
    then have "unat (head_count d * chunk_count d) = ?H * ?N" using fits by (intro unat_mult_u64) simp
    then show ?thesis unfolding partial_len_def using fits W [OF HN] by (subst unat_mult_u64) simp_all
  qed
  have in_range: "x * ?W + e < ?H * ?N * ?W" if "x < ?H * ?N" "e < ?W" for x e
  proof -
    have "(x + 1) * ?W \<le> ?H * ?N * ?W" using that(1) by (intro mult_le_mono1) simp
    with that(2) show ?thesis by simp
  qed
  have inj2: "h' = h \<and> c' = c" if "unat h' * ?N + unat c' = unat h * ?N + unat c"
      "c' < chunk_count d" "c < chunk_count d" for h' c' h c
    using digits_eq [OF that(1)] that(2,3) by (simp add: word_less_nat_alt word_unat_eq_iff)
  note run = attention_scratch_run [OF run]
  show ?thesis
  proof (intro conjI allI impI)
    show "unat (partial_index h c (chunk_count d) (head_dimension d)) + e < unat (slen s)"
    proof -
      have "(unat h * ?N + unat c) * ?W + e < unat (partial_len d)"
        unfolding len using in_range [OF _ a(3)] idx [OF a(1,2)] by blast
      moreover have "unat (partial_len d) \<le> unat (slen s)" using run by (simp only: word_le_nat_alt)
      ultimately show ?thesis using idx [OF a(1,2)] by linarith
    qed
    show "scratch_buffers (attention_scratch k) \<subseteq> scratch_buffers (attention_scratch k')"
      using run by simp
    fix h' c' e'
    assume b: "h' < head_count d \<and> c' < chunk_count d \<and> e' < ?W \<and>
       unat (partial_index h' c' (chunk_count d) (head_dimension d)) + e' =
       unat (partial_index h c (chunk_count d) (head_dimension d)) + e"
    then have eq: "(unat h' * ?N + unat c') * ?W + e' = (unat h * ?N + unat c) * ?W + e"
      using idx [OF a(1,2)] idx [of h' c'] by simp
    have "unat h' * ?N + unat c' = unat h * ?N + unat c \<and> e' = e" using digits_eq [OF eq] b a(3) by blast
    with inj2 [of h' c' h c] b a(2) show "h' = h" "c' = c" "e' = e" by blast+
  qed
qed

section \<open>The lanes of the combine Kernel\<close>

text \<open>C26. The combine Kernel's block fits its 1024-element reduction scratch, and for heads of
  at most 1024 dimensions its threads are a whole number of lanes of exactly one thread per
  output dimension, so one pass writes every dimension.\<close>
theorem combine_threads_lanes:
  assumes w: "w \<noteq> 0" "unat w < 2 ^ 32"
    and t: "try_u32 (combine_threads w) = Some threads"
  shows "0 < threads \<and> threads \<le> 1024 \<and> 1 \<le> combine_lanes threads w \<and> combine_lanes threads w \<le> 8 \<and>
    (w \<le> 1024 \<longrightarrow> unat threads = unat (combine_lanes threads w) * unat w)"
proof (cases "w \<le> 1024")
  case True
  define lanes where "lanes = unat (min (max (256 div w) 1) 8)"
  have w': "0 < unat w" "unat w \<le> 1024" using w True by (simp_all add: unat_gt_0 word_le_nat_alt)
  have q: "unat (256 div w) = 256 div unat w" by (simp add: unat_div_distrib)
  have l: "lanes = min (max (256 div unat w) 1) 8"
    unfolding lanes_def by (simp add: min_def max_def word_le_nat_alt q)
  have prod: "unat w * lanes \<le> 1024"
  proof (cases "unat w \<le> 256")
    case True
    have "unat w * lanes \<le> unat w * (256 div unat w)"
      using True w' by (intro mult_le_mono2) (simp add: l max_def div_greater_zero_iff Suc_le_eq)
    also have "\<dots> \<le> 256" by simp
    finally show ?thesis by simp
  next
    case False
    then show ?thesis using w' by (simp add: l)
  qed
  have "unat (combine_threads w) = unat w * lanes"
    using True prod unfolding combine_threads_def lanes_def
    by (subst if_not_P) (simp_all add: not_less unat_mult_u64)
  with try_u32_Some [OF t] have th: "unat threads = unat w * lanes" by simp
  have w32: "unat (as_u32 w) = unat w" using w' by (simp add: unat_as_u32)
  have "unat (threads div as_u32 w) = lanes" using w' by (simp add: unat_div_distrib th w32)
  moreover have lb: "1 \<le> lanes" "lanes \<le> 8" by (simp_all add: l)
  ultimately have cl: "unat (combine_lanes threads w) = lanes"
    by (auto simp: combine_lanes_def Let_def word_unat_eq_iff)
  show ?thesis
    using cl th lb prod w' True by (simp add: word_le_nat_alt word_less_nat_alt mult.commute)
next
  case False
  then have "1024 < w" by (simp add: not_le)
  then have th: "threads = 1024" using t by (simp add: combine_threads_def try_u32_def)
  have w32: "unat (as_u32 w) = unat w" using w by (simp add: unat_as_u32)
  have "threads div as_u32 w = 0"
    using False by (simp add: th word_unat_eq_iff unat_div_distrib w32 word_le_nat_alt)
  with th False show ?thesis by (simp add: combine_lanes_def)
qed

section \<open>Concrete cases\<close>

text \<open>A capture that advances the row offset, and buffers for it.\<close>

definition case_capture :: kernel_capture where
  "case_capture = \<lparr>advancing = {''row_offset'', ''key_count''}, cap_offset = \<lparr>ptr = 64, slen = 1\<rparr>,
     max_offset = - 1, failure = None, has_embedding = False\<rparr>"

definition case_kernels :: "u64 kernels" where
  "case_kernels = (new_kernels 4096 False)\<lparr>capture := Some case_capture\<rparr>"

definition case_buffer :: "u64 \<Rightarrow> u64 \<Rightarrow> u64 \<Rightarrow> device_buffer" where
  "case_buffer p r c = plain \<lparr>ptr = p, slen = r * c\<rparr> [r, c]"

lemma case_kv_write:
  "fst (kv_write sim (case_buffer 512 8 4) (case_buffer 1024 1 4) 2 case_kernels) = Inr ()"
  "capture (snd (kv_write sim (case_buffer 512 8 4) (case_buffer 1024 1 4) 2 case_kernels)) =
    Some (case_capture\<lparr>max_offset := 5\<rparr>)"
  by code_simp+

theorem kv_write_replay_in_bounds_witness:
  "unat (2 :: u64) + unat (5 :: u64) + unat (1 :: u64) \<le> unat (8 :: u64) \<and>
   unat (kv_write_index 2 5 4 3) = (unat (2 :: u64) + unat (5 :: u64)) * unat (4 :: u64) + unat (3 :: u64) \<and>
   unat (kv_write_index 2 5 4 3) < unat (8 :: u64) * unat (4 :: u64)"
  by (rule kv_write_replay_in_bounds [OF run_eq [OF case_kv_write(1)],
        where c = case_capture and n = 1 and c' = "case_capture\<lparr>max_offset := 5\<rparr>"])
    (simp_all only: case_kv_write fst_conv snd_conv capture_le_refl,
      simp_all add: case_kernels_def case_capture_def case_buffer_def)

definition case_dims :: attention_dims where
  "case_dims = \<lparr>seq_len = 1, kv_rows = 300, kv_seq_len = 200, head_count = 4, kv_head_count = 2,
     head_dimension = 64, q_model_dim = 256, kv_model_dim = 128\<rparr>"

lemma case_attention_dims:
  "attention_dims_of (case_buffer 0 1 256) (case_buffer 4096 300 128) (case_buffer 8192 300 128) 4 64
     (Some 2) (Some 128) True (Some 200) = Inr case_dims"
  by code_simp

theorem attention_split_covers_keys_witness:
  "300 \<le> kv_rows case_dims \<and> (\<exists>!c. c < chunk_count case_dims \<and>
     fst (split_key_range (172, 300) (chunk_keys case_dims) c) \<le> 200 \<and>
     200 < snd (split_key_range (172, 300) (chunk_keys case_dims) c))"
proof -
  have "unat (300 :: u64) = unat (kv_seq_len case_dims) + unat (100 :: u64) \<and> 300 \<le> kv_rows case_dims \<and>
    (\<forall>j. 172 \<le> j \<and> j < 300 \<longrightarrow> (\<exists>!c. c < chunk_count case_dims \<and>
       fst (split_key_range (172, 300) (chunk_keys case_dims) c) \<le> j \<and>
       j < snd (split_key_range (172, 300) (chunk_keys case_dims) c)))"
    by (rule attention_split_covers_keys [OF case_attention_dims, where window = 128 and step = 100])
      (simp_all add: case_dims_def key_window_def query_position_offset_def)
  then show ?thesis by simp
qed

lemma case_scratch:
  "fst (attention_scratch_buffer sim (partial_len case_dims) (new_kernels 4096 False)) =
    Inr \<lparr>ptr = 4096, slen = 65536\<rparr>"
  by code_simp

theorem attention_partials_fit_witness:
  "unat (partial_index 3 4 (chunk_count case_dims) (head_dimension case_dims)) + 65 <
     unat (slen \<lparr>ptr = 4096, slen = 65536\<rparr>) \<and>
    scratch_buffers (attention_scratch (new_kernels (4096 :: u64) False)) \<subseteq>
    scratch_buffers (attention_scratch (snd (attention_scratch_buffer sim (partial_len case_dims)
      (new_kernels 4096 False))))"
proof -
  have "4 < chunk_count case_dims" "3 < head_count case_dims" "65 < unat (head_dimension case_dims) + 2"
    "unat (head_count case_dims) * unat (chunk_count case_dims) * (unat (head_dimension case_dims) + 2) < 2 ^ 64"
    by (simp_all add: case_dims_def chunk_count_def chunk_keys_def split_grouped_def
      grouped_decode_kernel_def plan_constants div_ceil_def)
  then show ?thesis using attention_partials_fit [OF run_eq [OF case_scratch], of 3 4 65] by blast
qed

theorem combine_threads_lanes_witness:
  "try_u32 (combine_threads 64) = Some 256 \<and>
   unat (256 :: u32) = unat (combine_lanes 256 64) * unat (64 :: u64)"
proof -
  have t: "try_u32 (combine_threads 64) = Some 256" by code_simp
  show ?thesis using combine_threads_lanes [OF _ _ t] t by simp
qed

end
