(* ===== verification/Device_Greedy.thy ===== *)
theory Device_Greedy
  imports Device_Kernels
begin

text \<open>
  \<open>greedy_select_kernel\<close> of \<open>src/kernels.cu\<close> as it runs: the grid-stride loop of each thread,
  the shuffle reduction of each warp, and the atomic maximum of every warp in any order. The
  Device's \<open>f32\<close> division is a parameter.
\<close>

section \<open>Device code\<close>

text \<open>
  \<open>greedy_select_kernel\<close>: the score's bits mapped so that unsigned order is float order,
  above the complement of the column; \<open>fdiv\<close> is the Device's \<open>f32\<close> division.
\<close>

definition greedy_score :: "(f32 \<Rightarrow> f32 \<Rightarrow> f32) \<Rightarrow> f32 \<Rightarrow> f32 \<Rightarrow> f32" where
  "greedy_score fdiv temperature value =
     (let value = (if f32_pattern temperature \<noteq> 0 then fdiv value temperature else value)
      in if f32_pattern value = 0 then 0 else value)"

definition greedy_ordered :: "f32 \<Rightarrow> u32" where
  "greedy_ordered bits = (if bits AND 0x80000000 \<noteq> 0 then NOT bits else bits OR 0x80000000)"

definition greedy_key :: "f32 \<Rightarrow> u64 \<Rightarrow> u64" where
  "greedy_key score column =
     push_bit 32 (ucast (greedy_ordered score)) OR (0xFFFFFFFF - (column AND 0xFFFFFFFF))"

text \<open>An element of the row or of the ranges; reading past the end is a fault.\<close>

definition device_load :: "'a list \<Rightarrow> u64 \<Rightarrow> 'a option" where
  "device_load xs i = (if unat i < length xs then Some (xs ! unat i) else None)"

text \<open>The loop over the \<open>[start, end)\<close> pairs; their index is a \<open>u32\<close>.\<close>

fun greedy_excluded :: "u64 list \<Rightarrow> u64 \<Rightarrow> u32 list \<Rightarrow> bool option" where
  "greedy_excluded ranges i [] = Some False"
| "greedy_excluded ranges i (r # rs) =
     Option.bind (device_load ranges (ucast (2 * r))) (\<lambda>start.
     Option.bind (if i \<ge> start then map_option (\<lambda>stop. i < stop) (device_load ranges (ucast (2 * r + 1)))
                  else Some False) (\<lambda>hit.
     if hit then Some True else greedy_excluded ranges i rs))"

text \<open>One turn of a thread's loop: the key it continues with.\<close>

definition greedy_turn ::
  "(f32 \<Rightarrow> f32 \<Rightarrow> f32) \<Rightarrow> f32 list \<Rightarrow> u64 list \<Rightarrow> u32 \<Rightarrow> f32 \<Rightarrow> u64 \<Rightarrow> u64 \<Rightarrow> u64 option" where
  "greedy_turn fdiv logits ranges range_count temperature i key =
     Option.bind (device_load logits i) (\<lambda>value.
     if \<not> is_finite value then Some key
     else Option.bind (greedy_excluded ranges i (map of_nat [0..<unat range_count])) (\<lambda>excluded.
       if excluded then Some key
       else (let candidate = greedy_key (greedy_score fdiv temperature value) i
             in Some (if candidate > key then candidate else key))))"

partial_function (option) greedy_loop ::
  "(u64 \<Rightarrow> u64 \<Rightarrow> u64 option) \<Rightarrow> u64 \<Rightarrow> u64 \<Rightarrow> u64 \<Rightarrow> u64 \<Rightarrow> u64 option" where
  "greedy_loop turn cols stride i key =
     (if i < cols then Option.bind (turn i key) (\<lambda>key. greedy_loop turn cols stride (i + stride) key)
      else Some key)"

definition greedy_thread ::
  "(u64 \<Rightarrow> u64 \<Rightarrow> u64 option) \<Rightarrow> u64 \<Rightarrow> launch_config \<Rightarrow> u32 \<Rightarrow> u32 \<Rightarrow> u64 option" where
  "greedy_thread turn cols cfg block thread =
     (let grid_x = fst (grid_dim cfg); block_x = fst (block_dim cfg)
      in greedy_loop turn cols (ucast grid_x * ucast block_x) (ucast block * ucast block_x + ucast thread) 0)"

text \<open>\<open>__shfl_down_sync\<close> with the full mask: a lane past the warp's end gives its own value.\<close>

definition shfl_down :: "u64 list \<Rightarrow> nat \<Rightarrow> nat \<Rightarrow> u64" where
  "shfl_down keys offset lane = (if lane + offset < 32 then keys ! (lane + offset) else keys ! lane)"

definition warp_step :: "nat \<Rightarrow> u64 list \<Rightarrow> u64 list" where
  "warp_step offset keys = map (\<lambda>lane. let other = shfl_down keys offset lane
     in if other > keys ! lane then other else keys ! lane) [0..<32]"

fun warp_reduce :: "nat \<Rightarrow> u64 list \<Rightarrow> u64 list" where
  "warp_reduce offset keys =
     (if offset > 0 then warp_reduce (offset div 2) (warp_step offset keys) else keys)"

declare warp_reduce.simps [simp del]

text \<open>A warp of a block: the loops of its 32 threads, the reduction, and the atomic of its first lane.\<close>

definition greedy_warp ::
  "(u64 \<Rightarrow> u64 \<Rightarrow> u64 option) \<Rightarrow> u64 \<Rightarrow> launch_config \<Rightarrow> nat \<times> nat \<Rightarrow> u64 \<Rightarrow> u64 option" where
  "greedy_warp turn cols cfg = (\<lambda>(block, warp) best.
     map_option (\<lambda>keys.
         foldl (\<lambda>best lane. let key = warp_reduce 16 keys ! lane in
             if of_nat (32 * warp + lane) AND (31 :: u32) = 0 \<and> key \<noteq> 0 then max best key else best)
           best [0..<32])
       (those (map (\<lambda>lane. greedy_thread turn cols cfg (of_nat block) (of_nat (32 * warp + lane))) [0..<32])))"

text \<open>The launch: every warp once, in the order given; \<open>best\<close> starts at zero.\<close>

definition greedy_launch ::
  "(f32 \<Rightarrow> f32 \<Rightarrow> f32) \<Rightarrow> f32 list \<Rightarrow> u64 \<Rightarrow> u64 list \<Rightarrow> u32 \<Rightarrow> f32 \<Rightarrow> launch_config \<Rightarrow>
   (nat \<times> nat) list \<Rightarrow> u64 option" where
  "greedy_launch fdiv logits cols ranges range_count temperature cfg order =
     foldl (\<lambda>best warp. Option.bind best
         (greedy_warp (greedy_turn fdiv logits ranges range_count temperature) cols cfg warp)) (Some 0) order"

definition warp_schedule :: "launch_config \<Rightarrow> (nat \<times> nat) list \<Rightarrow> bool" where
  "warp_schedule cfg order \<longleftrightarrow> distinct order \<and>
     set order = {..<unat (fst (grid_dim cfg))} \<times> {..<unat (fst (block_dim cfg)) div 32}"

section \<open>The largest of a set\<close>

definition is_top :: "u64 \<Rightarrow> u64 set \<Rightarrow> bool" where
  "is_top best S \<longleftrightarrow> (best = 0 \<or> best \<in> S) \<and> (\<forall>x \<in> S. x \<le> best)"

lemma is_top_empty: "is_top 0 {}"
  by (simp add: is_top_def)

lemma is_top_max: "is_top a A \<Longrightarrow> is_top b B \<Longrightarrow> is_top (max a b) (A \<union> B)"
  by (auto simp: is_top_def max_def intro: order_trans)

lemma is_top_one: "is_top x {x}"
  by (simp add: is_top_def)

section \<open>The loops\<close>

text \<open>A column is eligible when its score is finite and no range holds it.\<close>

definition greedy_eligible :: "f32 list \<Rightarrow> (u64 \<times> u64) list \<Rightarrow> nat \<Rightarrow> bool" where
  "greedy_eligible logits ranges i \<longleftrightarrow> is_finite (logits ! i) \<and>
     \<not> list_ex (\<lambda>(start, stop). start \<le> of_nat i \<and> (of_nat i :: u64) < stop) ranges"

lemma concat_pairs_nth:
  "k < length ranges \<Longrightarrow> concat (map (\<lambda>(a, b). [a, b]) ranges) ! (2 * k) = fst (ranges ! k) \<and>
    concat (map (\<lambda>(a, b). [a, b]) ranges) ! (2 * k + 1) = snd (ranges ! k)"
  by (induction ranges arbitrary: k) (auto simp: nth_Cons split: nat.splits)

lemma length_concat_pairs: "length (concat (map (\<lambda>(a, b). [a, b]) ranges)) = 2 * length ranges"
  by (induction ranges) auto

lemma load_ranges:
  assumes "k < length ranges" "length ranges < 2 ^ 31"
  shows "device_load (greedy_ranges ranges) (ucast (2 * of_nat k :: u32)) = Some (fst (ranges ! k))"
    "device_load (greedy_ranges ranges) (ucast (2 * of_nat k + 1 :: u32)) = Some (snd (ranges ! k))"
proof -
  have "2 * of_nat k = (of_nat (2 * k) :: u32)" "2 * of_nat k + 1 = (of_nat (2 * k + 1) :: u32)" by simp_all
  then have i: "unat (ucast (2 * of_nat k :: u32) :: u64) = 2 * k"
    "unat (ucast (2 * of_nat k + 1 :: u32) :: u64) = 2 * k + 1"
    using assms by (simp_all only: unat_ucast_mod unat_of_nat) simp_all
  have r: "greedy_ranges ranges = concat (map (\<lambda>(a, b). [a, b]) ranges)"
    using assms(1) by (cases ranges) (auto simp: greedy_ranges_def)
  show "device_load (greedy_ranges ranges) (ucast (2 * of_nat k :: u32)) = Some (fst (ranges ! k))"
    "device_load (greedy_ranges ranges) (ucast (2 * of_nat k + 1 :: u32)) = Some (snd (ranges ! k))"
    unfolding device_load_def i r using concat_pairs_nth [OF assms(1)] assms(1) length_concat_pairs [of ranges]
    by simp_all
qed

text \<open>The loop over the ranges finds whether one of them holds the column.\<close>

lemma greedy_excluded_from:
  assumes "length ranges < 2 ^ 31" "k \<le> length ranges"
  shows "greedy_excluded (greedy_ranges ranges) i (map of_nat [k..<length ranges]) =
    Some (list_ex (\<lambda>(start, stop). start \<le> i \<and> i < stop) (drop k ranges))"
  using assms(2)
proof (induction "length ranges - k" arbitrary: k)
  case 0
  then show ?case by simp
next
  case (Suc n)
  then have k: "k < length ranges" by simp
  obtain a b where ab: "ranges ! k = (a, b)" by fastforce
  have "[k..<length ranges] = k # [Suc k..<length ranges]" using k by (rule upt_conv_Cons)
  moreover have "drop k ranges = (a, b) # drop (Suc k) ranges" using Cons_nth_drop_Suc [OF k] ab by simp
  moreover note load_ranges [OF k assms(1), unfolded ab fst_conv snd_conv]
  moreover have "greedy_excluded (greedy_ranges ranges) i (map of_nat [Suc k..<length ranges]) =
      Some (list_ex (\<lambda>(start, stop). start \<le> i \<and> i < stop) (drop (Suc k) ranges))"
    using Suc k by (intro Suc.hyps(1)) simp_all
  ultimately show ?case by simp
qed

lemma greedy_turn_run:
  assumes "length ranges < 2 ^ 31" "unat i < length logits"
  shows "greedy_turn fdiv logits (greedy_ranges ranges) (of_nat (length ranges)) temperature i key =
    Some (if greedy_eligible logits ranges (unat i)
      then max key (greedy_key (greedy_score fdiv temperature (logits ! unat i)) i) else key)"
proof -
  have n: "unat (of_nat (length ranges) :: u32) = length ranges" using assms(1) by (simp add: unat_of_nat)
  show ?thesis
    using greedy_excluded_from [OF assms(1), of 0 i] assms(2)
    by (auto simp: greedy_turn_def device_load_def n greedy_eligible_def Let_def max_def)
qed

text \<open>The loop returns, with the largest of its start and the keys of the columns it visits.\<close>

lemma greedy_loop_top:
  fixes key :: "nat \<Rightarrow> u64"
  assumes turn: "\<And>i best. unat i < unat cols \<Longrightarrow>
      turn i best = Some (if elig (unat i) then max best (key (unat i)) else best)"
    and s: "0 < unat stride" "unat cols + unat stride < 2 ^ 64"
  shows "is_top best A \<Longrightarrow> \<exists>top. greedy_loop turn cols stride i best = Some top \<and>
    is_top top (A \<union> key ` {j. j < unat cols \<and> elig j \<and> (\<exists>m. j = unat i + m * unat stride)})"
proof (induction "unat cols - unat i" arbitrary: i best A rule: less_induct)
  case less
  let ?V = "\<lambda>i. {j. j < unat cols \<and> elig j \<and> (\<exists>m. j = unat i + m * unat stride)}"
  show ?case
  proof (cases "i < cols")
    case False
    then have v: "key ` ?V i = {}" by (auto simp: not_less word_le_nat_alt)
    show ?thesis unfolding v Un_empty_right using less.prems False by (subst greedy_loop.simps) simp
  next
    case True
    then have i: "unat i < unat cols" by (simp add: word_less_nat_alt)
    then have next_i: "unat (i + stride) = unat i + unat stride" using s by (simp add: unat_plus_if')
    define best' where "best' = (if elig (unat i) then max best (key (unat i)) else best)"
    define A' where "A' = (if elig (unat i) then A \<union> {key (unat i)} else A)"
    have "is_top best' A'"
      using less.prems is_top_max [OF _ is_top_one] by (simp add: best'_def A'_def)
    moreover have "unat cols - unat (i + stride) < unat cols - unat i" using i s(1) next_i by linarith
    ultimately obtain top where top: "greedy_loop turn cols stride (i + stride) best' = Some top"
      "is_top top (A' \<union> key ` ?V (i + stride))"
      using less.hyps by blast
    have "?V i = (if elig (unat i) then {unat i} else {}) \<union> ?V (i + stride)"
    proof (rule set_eqI)
      fix j
      have "(\<exists>m. j = unat i + m * unat stride) \<longleftrightarrow> j = unat i \<or> (\<exists>m. j = unat (i + stride) + m * unat stride)"
      proof
        assume "\<exists>m. j = unat i + m * unat stride"
        then obtain m where m: "j = unat i + m * unat stride" ..
        show "j = unat i \<or> (\<exists>m. j = unat (i + stride) + m * unat stride)"
        proof (cases m)
          case (Suc q)
          then have "j = unat (i + stride) + q * unat stride" using m next_i by simp
          then show ?thesis by blast
        qed (use m in simp)
      next
        assume "j = unat i \<or> (\<exists>m. j = unat (i + stride) + m * unat stride)"
        then show "\<exists>m. j = unat i + m * unat stride"
        proof
          assume "j = unat i"
          then have "j = unat i + 0 * unat stride" by simp
          then show ?thesis by blast
        next
          assume "\<exists>m. j = unat (i + stride) + m * unat stride"
          then obtain m where "j = unat (i + stride) + m * unat stride" ..
          then have "j = unat i + Suc m * unat stride" using next_i by simp
          then show ?thesis by blast
        qed
      qed
      then show "j \<in> ?V i \<longleftrightarrow> j \<in> (if elig (unat i) then {unat i} else {}) \<union> ?V (i + stride)"
        using i by auto
    qed
    then have "A' \<union> key ` ?V (i + stride) = A \<union> key ` ?V i" by (auto simp: A'_def)
    then show ?thesis using top True turn [OF i, of best] by (subst greedy_loop.simps) (simp add: best'_def)
  qed
qed

section \<open>The reduction of a warp\<close>

lemma warp_step_nth:
  "lane < 32 \<Longrightarrow> warp_step offset keys ! lane =
    max (keys ! lane) (if lane + offset < 32 then keys ! (lane + offset) else keys ! lane)"
  by (auto simp: warp_step_def shfl_down_def Let_def max_def)

lemma length_warp_step: "length (warp_step offset keys) = 32"
  unfolding warp_step_def length_map length_upt by simp

lemma set_warp_step:
  assumes "length keys = 32"
  shows "set (warp_step offset keys) \<subseteq> set keys"
proof
  fix x assume "x \<in> set (warp_step offset keys)"
  then obtain j where j: "j < 32" "x = warp_step offset keys ! j"
    by (metis in_set_conv_nth length_warp_step)
  then show "x \<in> set keys" using assms by (auto simp: warp_step_nth max_def split: if_splits)
qed

text \<open>From offset \<open>2 ^ n\<close> the first lane ends with the largest of the first \<open>2 ^ (n + 1)\<close> keys.\<close>

lemma warp_reduce_first:
  assumes "length keys = 32" "n \<le> 4"
  shows "warp_reduce (2 ^ n) keys ! 0 \<in> set keys \<and> (\<forall>j < 2 ^ Suc n. keys ! j \<le> warp_reduce (2 ^ n) keys ! 0)"
  using assms
proof (induction n arbitrary: keys)
  case 0
  have "warp_reduce (2 ^ 0) keys = warp_step 1 keys"
    by (subst warp_reduce.simps, subst warp_reduce.simps) simp
  then have w: "warp_reduce (2 ^ 0) keys ! 0 = max (keys ! 0) (keys ! 1)"
    by (simp add: warp_step_nth)
  have "keys ! 0 \<in> set keys" "keys ! 1 \<in> set keys" using 0 by simp_all
  then show ?case unfolding w by (auto simp: max_def less_2_cases_iff)
next
  case (Suc n)
  define s where "s = (2 :: nat) ^ Suc n"
  have s: "s \<le> 16" using Suc.prems(2) power_increasing [of "Suc n" 4 "2 :: nat"] by (simp add: s_def)
  have two: "(2 :: nat) ^ Suc (Suc n) = s + s" by (simp add: s_def)
  let ?ks = "warp_step s keys"
  define top where "top = warp_reduce (2 ^ n) ?ks ! 0"
  have red: "warp_reduce (2 ^ Suc n) keys ! 0 = top"
    by (subst warp_reduce.simps) (simp add: top_def s_def)
  have IH: "top \<in> set ?ks" "\<And>j. j < s \<Longrightarrow> ?ks ! j \<le> top"
    using Suc.IH [of ?ks] Suc.prems(2) unfolding top_def s_def by (simp_all add: length_warp_step)
  have nth: "?ks ! j = max (keys ! j) (keys ! (j + s))" if "j < s" for j
    using that s by (simp add: warp_step_nth)
  have "keys ! j \<le> top" if j: "j < s + s" for j
  proof (cases "j < s")
    case True
    with nth have "keys ! j \<le> ?ks ! j" by simp
    with IH(2) [OF True] show ?thesis by simp
  next
    case False
    then have l: "j - s < s" "j - s + s = j" using j by simp_all
    with nth [OF l(1)] have "keys ! j \<le> ?ks ! (j - s)" by simp
    with IH(2) [OF l(1)] show ?thesis by simp
  qed
  moreover have "top \<in> set keys" using IH(1) set_warp_step [OF Suc.prems(1)] by blast
  ultimately show ?case unfolding red two by blast
qed

lemma warp_reduce_top:
  assumes "length keys = 32" "\<And>lane. lane < 32 \<Longrightarrow> is_top (keys ! lane) (S lane)"
  shows "is_top (warp_reduce 16 keys ! 0) (\<Union>lane < 32. S lane)"
proof -
  have r: "warp_reduce 16 keys ! 0 \<in> set keys" "\<And>j. j < 32 \<Longrightarrow> keys ! j \<le> warp_reduce 16 keys ! 0"
    using warp_reduce_first [OF assms(1), of 4] by simp_all
  from r(1) obtain j where j: "j < 32" "warp_reduce 16 keys ! 0 = keys ! j"
    using assms(1) by (metis in_set_conv_nth)
  show ?thesis
    unfolding is_top_def
  proof
    show "warp_reduce 16 keys ! 0 = 0 \<or> warp_reduce 16 keys ! 0 \<in> (\<Union>lane < 32. S lane)"
      using assms(2) [OF j(1)] j by (auto simp: is_top_def)
    show "\<forall>x \<in> \<Union>lane < 32. S lane. x \<le> warp_reduce 16 keys ! 0"
    proof
      fix x assume "x \<in> (\<Union>lane < 32. S lane)"
      then obtain l where l: "l < 32" "x \<in> S l" by auto
      then have "x \<le> keys ! l" using assms(2) [OF l(1)] by (auto simp: is_top_def)
      with r(2) [OF l(1)] show "x \<le> warp_reduce 16 keys ! 0" by simp
    qed
  qed
qed

section \<open>Keys compare as scores do\<close>

text \<open>The exact value of an \<open>f32\<close> that is not a NaN, in units of \<open>2 ^ -149\<close>.\<close>

definition f32_value :: "f32 \<Rightarrow> int" where
  "f32_value v = (if f32_sign v = 1 then - int (f32_mag v) else int (f32_mag v))"

lemma top_bit: "v AND 0x80000000 \<noteq> 0 \<longleftrightarrow> f32_sign v = 1" for v :: f32
proof -
  have e: "(0x80000000 :: u32) = push_bit 31 1" by simp
  have "v AND 0x80000000 \<noteq> 0 \<longleftrightarrow> bit v 31"
    unfolding e by (metis and_exp_eq_0_iff_not_bit push_bit_of_1 bit_and_iff and.commute)
  also have "\<dots> \<longleftrightarrow> bit (unat v) 31" by (simp add: bit_unsigned_iff)
  also have "\<dots> \<longleftrightarrow> odd (f32_sign v)" by (simp only: bit_iff_odd f32_sign_def)
  finally show ?thesis using f32_bounds(1) [of v] by (auto simp: less_2_cases_iff)
qed

lemma greedy_ordered_unat:
  "unat (greedy_ordered v) =
    (if f32_sign v = 1 then 2 ^ 31 - 1 - f32_pattern v else 2 ^ 31 + f32_pattern v)"
proof (cases "f32_sign v = 1")
  case True
  have "NOT v = - 1 - v" by (simp add: not_eq_complement)
  then have "unat (NOT v) = unat (- 1 - v)" by (rule arg_cong)
  also have "unat (- 1 - v) = 2 ^ 32 - 1 - unat v"
    by (subst unat_sub_le) (simp_all add: unsigned_minus_1_eq_mask mask_eq_exp_minus_1)
  also have "unat v = 2 ^ 31 + f32_pattern v" using True f32_split [of v] by (simp add: f32_exp_def f32_man_def)
  finally have "unat (NOT v) = 2 ^ 31 - 1 - f32_pattern v" by simp
  then show ?thesis using True by (simp only: greedy_ordered_def top_bit if_True simp_thms)
next
  case False
  then have "f32_sign v = 0" using f32_bounds(1) [of v] by simp
  then have "unat v < 2 ^ 31" unfolding f32_sign_def by (simp add: div_eq_0_iff)
  then have s: "unat v = f32_pattern v" unfolding f32_pattern_def by simp
  have "unat (0x80000000 OR v) = unat (0x80000000 :: u32) + unat v"
    by (rule unat_or_disjoint [of 31]) (use s f32_bounds(4) [of v] in simp_all)
  with False s show ?thesis by (simp add: greedy_ordered_def top_bit or.commute)
qed

lemma greedy_key_unat:
  assumes "unat i < 2 ^ 32"
  shows "unat (greedy_key v i) = unat (greedy_ordered v) * 2 ^ 32 + (2 ^ 32 - 1 - unat i)"
proof -
  have m: "(0xFFFFFFFF :: u64) = mask 32" by (simp add: mask_eq_exp_minus_1)
  have i: "unat (i AND 0xFFFFFFFF) = unat i" unfolding m unat_and_mask using assms by simp
  then have le: "i AND 0xFFFFFFFF \<le> 0xFFFFFFFF" using assms by (simp add: word_le_nat_alt)
  have low: "unat (0xFFFFFFFF - (i AND 0xFFFFFFFF)) = 2 ^ 32 - 1 - unat i"
    by (simp add: unat_sub_le [OF le] i)
  have o: "unat (greedy_ordered v) < 2 ^ 32" using unsigned_less [of "greedy_ordered v"] by simp
  have high: "unat (push_bit 32 (ucast (greedy_ordered v)) :: u64) = unat (greedy_ordered v) * 2 ^ 32"
    unfolding unat_push_bit unat_ucast_mod using o by simp
  have "unat (greedy_key v i) = unat (push_bit 32 (ucast (greedy_ordered v)) :: u64) +
      unat (0xFFFFFFFF - (i AND 0xFFFFFFFF))"
    unfolding greedy_key_def by (rule unat_or_disjoint [of 32]) (simp_all add: high low)
  then show ?thesis by (simp only: high low)
qed

lemma greedy_column_key:
  assumes "\<not> is_nan v" "unat i < 2 ^ 32"
  shows "greedy_column (greedy_key v i) = Some i"
proof -
  have m: "(0xFFFFFFFF :: u64) = mask 32" by (simp add: mask_eq_exp_minus_1)
  have o: "0 < unat (greedy_ordered v)"
  proof -
    have "f32_pattern v < 2 ^ 31 - 1"
    proof (rule ccontr)
      assume "\<not> f32_pattern v < 2 ^ 31 - 1"
      then have "f32_pattern v = 2 ^ 31 - 1" using f32_bounds(4) [of v] by simp
      then have "is_nan v" by (simp add: is_nan_def f32_exp_def f32_man_def)
      with assms(1) show False ..
    qed
    then show ?thesis by (simp add: greedy_ordered_unat)
  qed
  note k = greedy_key_unat [OF assms(2), of v]
  have "unat (greedy_key v i) mod 2 ^ 32 = 2 ^ 32 - 1 - unat i" unfolding k by simp
  then have a: "unat (greedy_key v i AND 0xFFFFFFFF) = 2 ^ 32 - 1 - unat i"
    unfolding m unat_and_mask .
  then have "unat (0xFFFFFFFF - (greedy_key v i AND 0xFFFFFFFF)) = unat i"
    using assms(2) by (subst unat_sub_le) (simp_all add: word_le_nat_alt)
  moreover have "greedy_key v i \<noteq> 0" using o k by (metis add_is_0 mult_is_0 unat_0 neq0_conv power_not_zero zero_neq_numeral)
  ultimately show ?thesis by (simp add: greedy_column_def word_unat_eq_iff)
qed

text \<open>Keys compare as their values do, the lower column first among equal values.\<close>

lemma f32_value_less:
  assumes "\<not> is_nan v" "\<not> is_nan w" "f32_pattern v = 0 \<longrightarrow> v = 0" "f32_pattern w = 0 \<longrightarrow> w = 0"
  shows "f32_value v < f32_value w \<longleftrightarrow> unat (greedy_ordered v) < unat (greedy_ordered w)"
    and "f32_value v = f32_value w \<longleftrightarrow> unat (greedy_ordered v) = unat (greedy_ordered w)"
proof -
  have pos: "f32_sign x = 1 \<longrightarrow> 0 < f32_pattern x" if "f32_pattern x = 0 \<longrightarrow> x = 0" for x
    using that by (auto simp: f32_sign_def)
  have "mag32 0 = 0" by (simp add: mag_def)
  then have z: "0 < f32_mag x \<longleftrightarrow> 0 < f32_pattern x" for x
    unfolding f32_mag_def by (metis mag_less_iff)
  have b: "f32_pattern v < 2 ^ 31" "f32_pattern w < 2 ^ 31" by (rule f32_bounds)+
  note mono = mag_less_iff [of 23 "f32_pattern v" "f32_pattern w"]
    mag_less_iff [of 23 "f32_pattern w" "f32_pattern v"] mag_eq_iff [of 23 "f32_pattern v" "f32_pattern w"]
  show "f32_value v < f32_value w \<longleftrightarrow> unat (greedy_ordered v) < unat (greedy_ordered w)"
    "f32_value v = f32_value w \<longleftrightarrow> unat (greedy_ordered v) = unat (greedy_ordered w)"
    using pos [OF assms(3)] pos [OF assms(4)] z [of v] z [of w] b mono
    by (auto simp: f32_value_def greedy_ordered_unat f32_mag_def)
qed

lemma greedy_key_less:
  assumes "\<not> is_nan v" "\<not> is_nan w" "f32_pattern v = 0 \<longrightarrow> v = 0" "f32_pattern w = 0 \<longrightarrow> w = 0"
    and "unat i < 2 ^ 32" "unat j < 2 ^ 32"
  shows "greedy_key v i \<le> greedy_key w j \<longleftrightarrow>
    f32_value v < f32_value w \<or> f32_value v = f32_value w \<and> j \<le> i"
proof -
  have "x * 2 ^ 32 + (2 ^ 32 - 1 - a) \<le> y * 2 ^ 32 + (2 ^ 32 - 1 - b) \<longleftrightarrow> x < y \<or> x = y \<and> b \<le> a"
    if "a < 2 ^ 32" "b < 2 ^ 32" for x y a b :: nat
    using that by (cases x y rule: linorder_cases) auto
  with assms show ?thesis
    by (simp only: word_le_nat_alt greedy_key_unat f32_value_less [OF assms(1-4)] simp_thms)
qed

section \<open>The launch\<close>

lemma those_map_Some: "(\<And>x. x \<in> set xs \<Longrightarrow> f x = Some (g x)) \<Longrightarrow> those (map f xs) = Some (map g xs)"
  by (induction xs) simp_all

lemma first_lane:
  assumes "32 * warp + 32 \<le> 2 ^ 32" "lane < 32"
  shows "of_nat (32 * warp + lane) AND (31 :: u32) = 0 \<longleftrightarrow> lane = 0"
proof -
  have m: "(31 :: u32) = mask 5" by (simp add: mask_eq_exp_minus_1)
  define x where "x = 32 * warp + lane"
  have "x < 2 ^ 32" using assms by (simp add: x_def)
  then have "unat (of_nat x :: u32) = x" by (simp add: unat_of_nat)
  then have "unat (of_nat x AND (31 :: u32)) = x mod 2 ^ 5" unfolding m unat_and_mask by simp
  also have "\<dots> = lane" using assms(2) by (simp add: x_def)
  finally show ?thesis unfolding x_def by (metis unat_0 unat_eq_zero)
qed

lemma foldl_skip:
  "(\<And>l. l \<in> set ls \<Longrightarrow> f b l = b) \<Longrightarrow> foldl f b ls = b"
  by (induction ls) simp_all

lemma greedy_warp_top:
  assumes w: "32 * warp + 32 \<le> 2 ^ 32" and best: "is_top best A"
    and threads: "\<And>lane. lane < 32 \<Longrightarrow>
      \<exists>top. greedy_thread turn cols cfg (of_nat block) (of_nat (32 * warp + lane)) = Some top \<and> is_top top (S lane)"
  shows "\<exists>top. greedy_warp turn cols cfg (block, warp) best = Some top \<and> is_top top (A \<union> (\<Union>lane < 32. S lane))"
proof -
  from threads obtain top where top: "\<And>lane. lane < 32 \<Longrightarrow>
      greedy_thread turn cols cfg (of_nat block) (of_nat (32 * warp + lane)) = Some (top lane) \<and> is_top (top lane) (S lane)"
    by metis
  let ?keys = "map top [0..<32]"
  define key where "key = warp_reduce 16 ?keys"
  have keys: "those (map (\<lambda>lane. greedy_thread turn cols cfg (of_nat block) (of_nat (32 * warp + lane))) [0..<32]) = Some ?keys"
    by (rule those_map_Some) (use top in simp)
  have red: "is_top (key ! 0) (\<Union>lane < 32. S lane)"
    unfolding key_def by (rule warp_reduce_top) (simp_all add: top)
  let ?f = "\<lambda>best lane. let key = warp_reduce 16 ?keys ! lane in
      if of_nat (32 * warp + lane) AND (31 :: u32) = 0 \<and> key \<noteq> 0 then max best key else best"
  have zero: "?f b 0 = max b (key ! 0)" for b
    using first_lane [OF w, of 0] by (simp add: key_def [symmetric] Let_def)
  have rest: "foldl ?f b [1..<32] = b" for b
    by (rule foldl_skip) (use first_lane [OF w] in \<open>simp add: Let_def\<close>)
  have "foldl ?f best [0..<32] = foldl ?f (?f best 0) [1..<32]"
    by (subst upt_conv_Cons) simp_all
  also have "\<dots> = max best (key ! 0)" by (simp only: rest zero)
  finally have "greedy_warp turn cols cfg (block, warp) best = Some (max best (key ! 0))"
    by (simp only: greedy_warp_def prod.case keys option.map)
  with is_top_max [OF best red] show ?thesis by blast
qed

lemma greedy_order_top:
  assumes "\<And>block warp best A. (block, warp) \<in> set order \<Longrightarrow> is_top best A \<Longrightarrow>
      \<exists>top. greedy_warp turn cols cfg (block, warp) best = Some top \<and> is_top top (A \<union> T (block, warp))"
  shows "is_top best A \<Longrightarrow> \<exists>top. foldl (\<lambda>best warp. Option.bind best (greedy_warp turn cols cfg warp)) (Some best) order =
      Some top \<and> is_top top (A \<union> (\<Union>warp \<in> set order. T warp))"
  using assms
proof (induction order arbitrary: best A)
  case Nil
  then show ?case by simp
next
  case (Cons bw order)
  obtain b w where bw: "bw = (b, w)" by fastforce
  obtain top where top: "greedy_warp turn cols cfg bw best = Some top" "is_top top (A \<union> T bw)"
    using Cons.prems by (metis bw list.set_intros(1))
  have "\<exists>top'. foldl (\<lambda>best warp. Option.bind best (greedy_warp turn cols cfg warp)) (Some top) order =
      Some top' \<and> is_top top' ((A \<union> T bw) \<union> (\<Union>warp \<in> set order. T warp))"
    using Cons.IH [OF top(2)] Cons.prems(2) by simp
  then show ?case using top(1) by (simp add: Un_assoc)
qed

text \<open>Every column belongs to some turn of some thread of the launch.\<close>

lemma columns_covered:
  fixes g :: nat
  assumes g: "0 < g"
  shows "(\<Union>(block, warp) \<in> {..<g} \<times> {..<8}. \<Union>lane < 32.
      {j. P j \<and> (\<exists>m. j = block * 256 + (32 * warp + lane) + m * (g * 256))}) = Collect P"
proof (rule set_eqI)
  fix j
  have "\<exists>block < g. \<exists>warp < 8. \<exists>lane < 32. \<exists>m. j = block * 256 + (32 * warp + lane) + m * (g * 256)"
  proof -
    define r where "r = j mod (g * 256)"
    define t where "t = r mod 256"
    have "r < g * 256" unfolding r_def using g by simp
    then have b: "r div 256 < g" by (simp add: less_mult_imp_div_less)
    have t: "t < 256" by (simp add: t_def)
    then have w: "t div 32 < 8" by (simp add: less_mult_imp_div_less)
    have l: "t mod 32 < 32" by simp
    have "j = r + (j div (g * 256)) * (g * 256)" unfolding r_def by (simp add: mod_div_mult_eq)
    moreover have "r = (r div 256) * 256 + t" unfolding t_def by (simp add: div_mult_mod_eq)
    moreover have "t = 32 * (t div 32) + t mod 32" by (simp add: mult_div_mod_eq)
    ultimately have "j = (r div 256) * 256 + (32 * (t div 32) + t mod 32) + (j div (g * 256)) * (g * 256)"
      by metis
    with b w l show ?thesis by blast
  qed
  then show "j \<in> (\<Union>(block, warp) \<in> {..<g} \<times> {..<8}. \<Union>lane < 32.
      {j. P j \<and> (\<exists>m. j = block * 256 + (32 * warp + lane) + m * (g * 256))}) \<longleftrightarrow> j \<in> Collect P"
    by (auto 4 3)
qed

lemma greedy_grid:
  assumes "0 < cols"
  shows "0 < unat (fst (grid_dim (greedy_config cols)))" "unat (fst (grid_dim (greedy_config cols))) \<le> 256"
proof -
  have n: "cols \<noteq> 0" "(256 :: u64) \<noteq> 0" using assms by auto
  have "0 < unat (div_ceil cols 256)"
  proof (rule ccontr)
    assume "\<not> 0 < unat (div_ceil cols 256)"
    with div_ceil_covers [OF n(2), of cols] have "unat cols = 0" by simp
    with n(1) show False by (simp add: unat_eq_zero)
  qed
  then have c: "0 < unat (min (div_ceil cols 256) 256)" "unat (min (div_ceil cols 256) 256) \<le> 256"
    by (auto simp: min_def word_le_nat_alt)
  then have "unat (as_u32 (min (div_ceil cols 256) 256)) = unat (min (div_ceil cols 256) 256)"
    by (simp add: unat_as_u32)
  with c show "0 < unat (fst (grid_dim (greedy_config cols)))" "unat (fst (grid_dim (greedy_config cols))) \<le> 256"
    by (simp_all add: greedy_config_def)
qed

text \<open>The launch returns, and the word it leaves is the largest key of an eligible column.\<close>

lemma greedy_launch_top:
  fixes fdiv :: "f32 \<Rightarrow> f32 \<Rightarrow> f32" and temperature :: f32 and key :: "nat \<Rightarrow> u64"
  assumes n: "0 < length logits" "length logits < 2 ^ 32" and r: "length ranges < 2 ^ 31"
    and order: "warp_schedule (greedy_config (of_nat (length logits))) order"
  defines "key \<equiv> \<lambda>i. greedy_key (greedy_score fdiv temperature (logits ! i)) (of_nat i)"
  shows "\<exists>best. greedy_launch fdiv logits (of_nat (length logits)) (greedy_ranges ranges) (of_nat (length ranges))
      temperature (greedy_config (of_nat (length logits))) order = Some best \<and>
    is_top best (key ` {i. i < length logits \<and> greedy_eligible logits ranges i})"
proof -
  let ?cols = "of_nat (length logits) :: u64"
  let ?cfg = "greedy_config ?cols"
  let ?turn = "greedy_turn fdiv logits (greedy_ranges ranges) (of_nat (length ranges)) temperature"
  let ?P = "\<lambda>j. j < length logits \<and> greedy_eligible logits ranges j"
  define g where "g = unat (fst (grid_dim ?cfg))"
  have cols: "unat ?cols = length logits" using n(2) by (simp add: unat_of_nat)
  have "0 < ?cols" using n(1) cols by (simp add: word_less_nat_alt)
  then have g: "0 < g" "g \<le> 256" unfolding g_def by (rule greedy_grid)+
  have block: "fst (block_dim ?cfg) = 256" by (simp add: greedy_config_def)
  have set_order: "set order = {..<g} \<times> {..<8}" using order by (simp add: warp_schedule_def block g_def)
  have stride: "unat (ucast (fst (grid_dim ?cfg)) * ucast (256 :: u32) :: u64) = g * 256"
    using g(2) by (simp add: unat_word_ariths unat_ucast_mod g_def)
  have turn: "?turn i best = Some (if greedy_eligible logits ranges (unat i) then max best (key (unat i)) else best)"
    if "unat i < unat ?cols" for i best
    using greedy_turn_run [OF r, of i logits] that cols by (simp add: key_def)
  let ?V = "\<lambda>s. key ` {j. ?P j \<and> (\<exists>m. j = s + m * (g * 256))}"
  have thread: "\<exists>top. greedy_thread ?turn ?cols ?cfg (of_nat block) (of_nat (32 * warp + lane)) = Some top \<and>
      is_top top (?V (block * 256 + (32 * warp + lane)))" if "block < g" "warp < 8" "lane < 32" for block warp lane
  proof -
    let ?i = "ucast (of_nat block :: u32) * ucast (256 :: u32) + ucast (of_nat (32 * warp + lane) :: u32) :: u64"
    have b: "block < 256" using that(1) g(2) by simp
    have t: "32 * warp + lane < 256" using that(2,3) by simp
    have i: "unat ?i = block * 256 + (32 * warp + lane)"
      using b t by (simp add: unat_word_ariths unat_ucast_mod unat_of_nat)
    have "\<exists>top. greedy_loop ?turn ?cols (ucast (fst (grid_dim ?cfg)) * ucast (256 :: u32)) ?i 0 = Some top \<and>
        is_top top ({} \<union> key ` {j. j < unat ?cols \<and> greedy_eligible logits ranges j \<and>
          (\<exists>m. j = unat ?i + m * unat (ucast (fst (grid_dim ?cfg)) * ucast (256 :: u32) :: u64))})"
      by (rule greedy_loop_top [where elig = "greedy_eligible logits ranges", OF turn _ _ is_top_empty]) (use g n(2) in \<open>simp_all only: stride cols\<close>, simp_all)
    then show ?thesis
      by (simp only: greedy_thread_def Let_def block stride i cols Un_empty_left conj_assoc)
  qed
  have "\<exists>top. foldl (\<lambda>best warp. Option.bind best (greedy_warp ?turn ?cols ?cfg warp)) (Some 0) order = Some top \<and>
      is_top top ({} \<union> (\<Union>bw \<in> set order. (\<lambda>(block, warp). \<Union>lane < 32. ?V (block * 256 + (32 * warp + lane))) bw))"
  proof (rule greedy_order_top [OF _ is_top_empty])
    fix block warp best A
    assume bw: "(block, warp) \<in> set order" and best: "is_top best A"
    then have "block < g" "warp < 8" using set_order by auto
    then show "\<exists>top. greedy_warp ?turn ?cols ?cfg (block, warp) best = Some top \<and>
        is_top top (A \<union> (\<lambda>(block, warp). \<Union>lane < 32. ?V (block * 256 + (32 * warp + lane))) (block, warp))"
      unfolding prod.case by (intro greedy_warp_top best thread) simp_all
  qed
  moreover have "(\<Union>bw \<in> set order. (\<lambda>(block, warp). \<Union>lane < 32. ?V (block * 256 + (32 * warp + lane))) bw) =
      key ` (\<Union>(block, warp) \<in> {..<g} \<times> {..<8}. \<Union>lane < 32.
        {j. ?P j \<and> (\<exists>m. j = block * 256 + (32 * warp + lane) + m * (g * 256))})"
    unfolding set_order by (simp add: image_UN case_prod_beta)
  ultimately show ?thesis by (simp only: columns_covered [OF g(1)] greedy_launch_def Un_empty_left) 
qed

section \<open>The selected column\<close>

text \<open>C24. The greedy Kernel selects the greedy choice, whatever order its warps run in. For a row of
  fewer than \<open>2 ^ 32\<close> columns and fewer than \<open>2 ^ 31\<close> excluded ranges, the launch that
  \<open>greedy_select\<close> makes returns and reads nothing outside the row and the ranges, and the
  column decoded from the one word it leaves is none exactly when no column is eligible, and
  otherwise an eligible column whose score is the largest, the lowest such column when several
  scores are equal. So the threads' strided loops visit every column, the shuffles of a warp lose
  no key and the atomic maxima combine the warps.\<close>
theorem greedy_column_is_best:
  assumes n: "0 < length logits" "length logits < 2 ^ 32" and r: "length ranges < 2 ^ 31"
    and order: "warp_schedule (greedy_config (of_nat (length logits))) order"
    and nan: "\<And>i. i < length logits \<Longrightarrow> greedy_eligible logits ranges i \<Longrightarrow> \<not> is_nan (score (logits ! i))"
    and score: "score = greedy_score fdiv temperature"
  shows "\<exists>best. greedy_launch fdiv logits (of_nat (length logits)) (greedy_ranges ranges) (of_nat (length ranges))
      temperature (greedy_config (of_nat (length logits))) order = Some best \<and>
    (greedy_column best = None \<longleftrightarrow> (\<forall>i < length logits. \<not> greedy_eligible logits ranges i)) \<and>
    (\<forall>c. greedy_column best = Some c \<longrightarrow>
      unat c < length logits \<and> greedy_eligible logits ranges (unat c) \<and>
      (\<forall>j < length logits. greedy_eligible logits ranges j \<longrightarrow>
        f32_value (score (logits ! j)) < f32_value (score (logits ! unat c)) \<or>
        f32_value (score (logits ! j)) = f32_value (score (logits ! unat c)) \<and> unat c \<le> j))"
proof -
  define key where "key i = greedy_key (score (logits ! i)) (of_nat i)" for i
  define E where "E = {i. i < length logits \<and> greedy_eligible logits ranges i}"
  obtain best where launch: "greedy_launch fdiv logits (of_nat (length logits)) (greedy_ranges ranges)
      (of_nat (length ranges)) temperature (greedy_config (of_nat (length logits))) order = Some best"
    and top: "is_top best (key ` E)"
    using greedy_launch_top [OF n r order, of fdiv temperature] by (auto simp: E_def key_def [abs_def] score)
  have E: "i \<in> E \<longleftrightarrow> i < length logits \<and> greedy_eligible logits ranges i" for i by (simp add: E_def)
  have col: "unat (of_nat i :: u64) = i" if "i < length logits" for i
    using that n(2) by (simp add: unat_of_nat)
  have zero: "f32_pattern (score x) = 0 \<longrightarrow> score x = 0" for x
    by (simp add: score greedy_score_def Let_def)
  have key_column: "greedy_column (key i) = Some (of_nat i)" if "i \<in> E" for i
    unfolding key_def using that E n nan col by (intro greedy_column_key) auto
  have le: "key j \<le> key i \<longleftrightarrow> f32_value (score (logits ! j)) < f32_value (score (logits ! i)) \<or>
      f32_value (score (logits ! j)) = f32_value (score (logits ! i)) \<and> i \<le> j"
    if "i \<in> E" "j \<in> E" for i j
  proof -
    have "(of_nat i :: u64) \<le> of_nat j \<longleftrightarrow> i \<le> j" using that E col by (simp add: word_le_nat_alt)
    then show ?thesis unfolding key_def
      using that E n nan col zero by (subst greedy_key_less) auto
  qed
  have z: "greedy_column 0 = None" by (simp add: greedy_column_def)
  show ?thesis
  proof (intro exI [of _ best] conjI launch)
    show "greedy_column best = None \<longleftrightarrow> (\<forall>i < length logits. \<not> greedy_eligible logits ranges i)"
    proof (cases "E = {}")
      case True
      then show ?thesis using top z E by (auto simp: is_top_def)
    next
      case False
      then obtain e where e: "e \<in> E" by blast
      have "key e \<noteq> 0" using key_column [OF e] z by auto
      then have "best \<noteq> 0" using top e by (auto simp: is_top_def)
      then show ?thesis using e E by (auto simp: greedy_column_def)
    qed
    show "\<forall>c. greedy_column best = Some c \<longrightarrow> unat c < length logits \<and> greedy_eligible logits ranges (unat c) \<and>
      (\<forall>j < length logits. greedy_eligible logits ranges j \<longrightarrow>
        f32_value (score (logits ! j)) < f32_value (score (logits ! unat c)) \<or>
        f32_value (score (logits ! j)) = f32_value (score (logits ! unat c)) \<and> unat c \<le> j)"
    proof (intro allI impI)
      fix c assume c: "greedy_column best = Some c"
      then have "best \<noteq> 0" using z by auto
      then obtain i where i: "i \<in> E" "best = key i" using top by (auto simp: is_top_def)
      have ci: "unat c = i" using c i key_column [OF i(1)] E col by auto
      have "key j \<le> key i" if "j \<in> E" for j using top that i(2) by (auto simp: is_top_def)
      then show "unat c < length logits \<and> greedy_eligible logits ranges (unat c) \<and>
        (\<forall>j < length logits. greedy_eligible logits ranges j \<longrightarrow>
          f32_value (score (logits ! j)) < f32_value (score (logits ! unat c)) \<or>
          f32_value (score (logits ! j)) = f32_value (score (logits ! unat c)) \<and> unat c \<le> j)"
        using i(1) E le [OF i(1)] unfolding ci by blast
    qed
  qed
qed

text \<open>Three columns scoring 1, 3 and 3 with the first excluded, the warps in falling order: the second wins.\<close>

theorem greedy_column_is_best_witness:
  "map_option greedy_column (greedy_launch (\<lambda>a b. a) [0x3F800000, 0x40400000, 0x40400000] 3 [0, 1] 1 0
     (greedy_config 3) (map (\<lambda>w. (0, 7 - w)) [0..<8])) = Some (Some 1)"
proof -
  let ?xs = "[0x3F800000, 0x40400000, 0x40400000 :: f32]"
  let ?order = "map (\<lambda>w. (0, 7 - w)) [0..<8] :: (nat \<times> nat) list"
  let ?score = "greedy_score (\<lambda>a b. a) 0"
  have p: "\<not> is_nan 0x3F800000" "\<not> is_nan 0x40400000" "f32_pattern 0 = 0"
    "f32_pattern 0x3F800000 \<noteq> 0" "f32_pattern 0x40400000 \<noteq> 0"
    by (simp_all add: is_nan_def f32_fields)
  have nan: "\<not> is_nan (?score (?xs ! i))" if "i < length ?xs" for i
  proof -
    from that have "i = 0 \<or> i = 1 \<or> i = 2" by auto
    then show ?thesis using p by (auto simp: greedy_score_def)
  qed
  have eligible: "greedy_eligible ?xs [(0, 1)] 1" "\<not> greedy_eligible ?xs [(0, 1)] 0"
    by (simp_all add: greedy_eligible_def is_finite_def f32_fields)
  have grid: "fst (grid_dim (greedy_config 3)) = 1" and block: "fst (block_dim (greedy_config 3)) = 256"
    by code_simp+
  have "(0, w) \<in> set ?order" if "w < 8" for w :: nat
    using that by (auto intro!: image_eqI [where x = "7 - w"])
  then have "set ?order = {..<1} \<times> {..<8}" by auto
  moreover have "distinct ?order" by (auto simp: distinct_map inj_on_def)
  ultimately have sched: "warp_schedule (greedy_config 3) ?order"
    by (simp add: warp_schedule_def grid block)
  have ranges: "greedy_ranges [(0, 1)] = [0, 1]" by code_simp
  have len: "of_nat (length ?xs) = (3 :: u64)" "of_nat (length [(0 :: u64, 1 :: u64)]) = (1 :: u32)" by simp_all
  have "\<exists>best. greedy_launch (\<lambda>a b. a) ?xs (of_nat (length ?xs)) (greedy_ranges [(0, 1)]) (of_nat (length [(0 :: u64, 1 :: u64)]))
      0 (greedy_config (of_nat (length ?xs))) ?order = Some best \<and>
    (greedy_column best = None \<longleftrightarrow> (\<forall>i < length ?xs. \<not> greedy_eligible ?xs [(0, 1)] i)) \<and>
    (\<forall>c. greedy_column best = Some c \<longrightarrow> unat c < length ?xs \<and> greedy_eligible ?xs [(0, 1)] (unat c) \<and>
      (\<forall>j < length ?xs. greedy_eligible ?xs [(0, 1)] j \<longrightarrow>
        f32_value (?score (?xs ! j)) < f32_value (?score (?xs ! unat c)) \<or>
        f32_value (?score (?xs ! j)) = f32_value (?score (?xs ! unat c)) \<and> unat c \<le> j))"
    by (rule greedy_column_is_best [OF _ _ _ _ _ refl]) (use nan sched in \<open>simp_all only: len\<close>, simp_all)
  then obtain best where best: "greedy_launch (\<lambda>a b. a) ?xs 3 [0, 1] 1 0 (greedy_config 3) ?order = Some best \<and>
    (greedy_column best = None \<longleftrightarrow> (\<forall>i < length ?xs. \<not> greedy_eligible ?xs [(0, 1)] i)) \<and>
    (\<forall>c. greedy_column best = Some c \<longrightarrow> unat c < length ?xs \<and> greedy_eligible ?xs [(0, 1)] (unat c) \<and>
      (\<forall>j < length ?xs. greedy_eligible ?xs [(0, 1)] j \<longrightarrow>
        f32_value (?score (?xs ! j)) < f32_value (?score (?xs ! unat c)) \<or>
        f32_value (?score (?xs ! j)) = f32_value (?score (?xs ! unat c)) \<and> unat c \<le> j))"
    unfolding len ranges by (rule exE)
  note launch = best [THEN conjunct1] and none = best [THEN conjunct2, THEN conjunct1]
  have "1 < length ?xs" by simp
  with none eligible(1) have "greedy_column best \<noteq> None" by blast
  then obtain c where c: "greedy_column best = Some c" by blast
  note won = best [THEN conjunct2, THEN conjunct2, THEN spec, THEN mp, OF c]
  then have "unat c < 3" by simp
  moreover have "unat c \<noteq> 0" using won eligible(2) by metis
  moreover have "unat c \<noteq> 2"
  proof
    assume two: "unat c = 2"
    have same: "?xs ! 1 = ?xs ! 2" by simp
    from won \<open>1 < length ?xs\<close> eligible(1) have
      "f32_value (?score (?xs ! 1)) < f32_value (?score (?xs ! unat c)) \<or> unat c \<le> 1" by blast
    then show False unfolding two same by simp
  qed
  ultimately have "unat c = 1" by linarith
  then have "c = 1" by (simp add: word_unat_eq_iff)
  then show ?thesis using launch c by simp
qed

end
