(* ===== verification/Executor_State.thy ===== *)
theory Executor_State
  imports Kernel_Attention
begin

text \<open>
  \<open>CudaExecutor\<close> of \<open>src/executor.rs\<close>: the Runtime's values it works on, its own
  state, and the helpers every operation uses: running a Kernel inside the executor,
  reading an invocation's inputs and attributes, its execution ids, and the bounded
  observation log. Identifiers of the Runtime are strings.
\<close>

section \<open>Values of the Runtime\<close>

datatype compute_dtype = Float32 | Half16 | Brain16 | OtherDType string

text \<open>\<open>DTypeDescriptor::Portable\<close>, and any other descriptor.\<close>

datatype dtype_descriptor = Portable compute_dtype | OtherDescriptor string

text \<open>An \<open>f64\<close> attribute is its bit pattern, an \<open>i64\<close> one its two's complement.\<close>

datatype attribute = FloatAttr u64 | IntegerAttr u64 | BooleanAttr bool | StringAttr string
  | DTypeAttr compute_dtype | OtherAttr string

type_synonym attributes = "string \<Rightarrow> attribute option"

text \<open>
  A tensor resource of an invocation; \<open>byte_size\<close> is what its descriptor's own
  \<open>byte_size()\<close> returns.
\<close>

record resource =
  rid :: string
  rdtype :: dtype_descriptor
  byte_size :: "string + u64"
  affinity :: string

record invocation =
  inv_id :: string
  kernel_name :: string
  inputs :: "resource list"
  outputs :: "resource list"
  attributes :: attributes
  deadline_millis :: "u64 option"

text \<open>A \<open>KernelResult\<close>: a failure with its error, or a success with the outputs it updated.\<close>

datatype outcome = Succeeded "resource list" | Failed kernel_error

record kernel_result =
  result_id :: string
  result_outcome :: outcome

definition result_success :: "invocation \<Rightarrow> resource list \<Rightarrow> kernel_result" where
  "result_success call updated = \<lparr>result_id = inv_id call, result_outcome = Succeeded updated\<rparr>"

definition result_failure :: "invocation \<Rightarrow> kernel_error \<Rightarrow> kernel_result" where
  "result_failure call error = \<lparr>result_id = inv_id call, result_outcome = Failed error\<rparr>"

datatype observation_kind = DispatchStarted | DispatchCompleted | DispatchFailed kernel_error
  | TimedOut | MemoryFeasibilityFailed

record observation =
  obs_kind :: observation_kind
  obs_kernel :: string
  obs_invocation :: string

datatype execution_error_code = CodeExecutionFailed | CodeMaterializationFailed

datatype execution_phase = PhaseSubmit | PhaseComplete | PhaseObserve

record execution_error =
  ecode :: execution_error_code
  phase :: execution_phase
  eprovider :: string
  edevice :: "string option"
  edetail :: string

record execution_handle =
  handle_id :: string
  handle_operation :: u64
  handle_plan :: string
  handle_provider :: string
  handle_device :: "string option"

text \<open>A \<open>ProviderExecutionRequest\<close>; its plan is the plan's id.\<close>

record execution_request =
  operation :: u64
  plan_id :: string
  req_provider :: string
  req_device :: "string option"

text \<open>
  What the executor calls of the Runtime besides the Memory Manager: the advertisement's
  own validation, the banded RoPE parameters of an attribute map, and the decimal
  rendering of a \<open>u64\<close>.
\<close>

record runtime =
  rt_validate :: "invocation \<Rightarrow> kernel_error + unit"
  rt_banded :: "attributes \<Rightarrow> string + banded_scaling option"
  rt_handle_id :: "execution_request \<Rightarrow> string"

section \<open>State\<close>

text \<open>The address and the length (in floats) of a captured resource's buffer.\<close>

record recording =
  resources :: "(string \<times> u64 \<times> usize) list"
  embedding_ids :: "(string \<times> u64) list"

record captured_executor_step =
  cstep :: captured_step
  captured :: recording

record 'd executor =
  kernels :: "'d kernels"
  device_id :: string
  provider_name :: string
  storage :: "string \<Rightarrow> device_buffer option"
  observations :: "observation list"
  submitted :: "string \<Rightarrow> execution_request option"
  kernel_executions :: "string \<Rightarrow> kernel_result option"
  resource_allocations :: "string \<Rightarrow> u64 option"
  next_execution_ordinal :: u64
  step_recording :: "recording option"
  captures :: "string \<Rightarrow> captured_executor_step option"
  next_capture :: u64

type_synonym ('d, 'e, 'a) executor_op = "('d executor, 'e, 'a) exec"

definition new_executor :: "'d kernels \<Rightarrow> string \<Rightarrow> string \<Rightarrow> 'd executor" where
  "new_executor ks device_name name =
     \<lparr>kernels = ks, device_id = device_name, provider_name = name, storage = (\<lambda>_. None),
      observations = [], submitted = (\<lambda>_. None), kernel_executions = (\<lambda>_. None),
      resource_allocations = (\<lambda>_. None), next_execution_ordinal = 0, step_recording = None,
      captures = (\<lambda>_. None), next_capture = 0\<rparr>"

section \<open>Running a Kernel operation\<close>

definition kern :: "('d, 'a) kernel_op \<Rightarrow> ('d, cuda_error, 'a) executor_op" where
  "kern m = inside kernels (\<lambda>ks x. x\<lparr>kernels := ks\<rparr>) m"

text \<open>\<open>.map_err(KernelError::from)\<close>\<close>

definition kernel_call :: "('d, 'a) kernel_op \<Rightarrow> ('d, kernel_error, 'a) executor_op" where
  "kernel_call m = map_err into_kernel_error (kern m)"

text \<open>\<open>CudaError\<close>'s \<open>Display\<close>: the category, then the detail.\<close>

definition code_name :: "cuda_error_code \<Rightarrow> string" where
  "code_name c = (case c of ShapeUnsupported \<Rightarrow> ''ShapeUnsupported''
     | DTypeUnsupported \<Rightarrow> ''DTypeUnsupported'' | LayoutUnsupported \<Rightarrow> ''LayoutUnsupported''
     | ExecutionFailed \<Rightarrow> ''ExecutionFailed'' | OutOfDeviceMemory \<Rightarrow> ''OutOfDeviceMemory''
     | CompilationFailed \<Rightarrow> ''CompilationFailed'' | DriverFailed \<Rightarrow> ''DriverFailed''
     | DeviceUnavailable \<Rightarrow> ''DeviceUnavailable'' | CaptureUnsupported \<Rightarrow> ''CaptureUnsupported'')"

definition cuda_error_text :: "cuda_error \<Rightarrow> string" where
  "cuda_error_text e = code_name (code e) @ '': '' @ detail e"

text \<open>\<open>step_capture_error\<close> and the materialization errors of the tensor writes.\<close>

definition execution_error_of ::
  "'d executor \<Rightarrow> execution_error_code \<Rightarrow> execution_phase \<Rightarrow> string \<Rightarrow> execution_error" where
  "execution_error_of x c p text =
     \<lparr>ecode = c, phase = p, eprovider = provider_name x, edevice = Some (device_id x), edetail = text\<rparr>"

definition step_capture_error :: "'d executor \<Rightarrow> execution_phase \<Rightarrow> string \<Rightarrow> execution_error" where
  "step_capture_error x p text = execution_error_of x CodeExecutionFailed p text"

definition materialization_error :: "'d executor \<Rightarrow> string \<Rightarrow> execution_error" where
  "materialization_error x text = execution_error_of x CodeMaterializationFailed PhaseSubmit text"

section \<open>Attributes\<close>

definition attribute_float :: "attributes \<Rightarrow> string \<Rightarrow> f32 \<Rightarrow> f32" where
  "attribute_float attrs key fallback =
     (case attrs key of Some (FloatAttr v) \<Rightarrow> f64_as_f32 v | _ \<Rightarrow> fallback)"

definition attribute_integer :: "attributes \<Rightarrow> string \<Rightarrow> u64 option" where
  "attribute_integer attrs key =
     (case attrs key of Some (IntegerAttr v) \<Rightarrow> (if 0 \<le> sint v then Some v else None) | _ \<Rightarrow> None)"

definition attribute_bool :: "attributes \<Rightarrow> string \<Rightarrow> bool \<Rightarrow> bool" where
  "attribute_bool attrs key fallback =
     (case attrs key of Some (BooleanAttr v) \<Rightarrow> v | _ \<Rightarrow> fallback)"

definition require_f32_accumulation :: "attributes \<Rightarrow> kernel_error + unit" where
  "require_f32_accumulation attrs =
     (case attrs ''accumulation_dtype'' of
        Some (DTypeAttr dtype) \<Rightarrow>
          (if dtype \<noteq> Float32
           then Inl (KernelDTypeUnsupported ''the CUDA Provider only accumulates in f32'')
           else Inr ())
      | _ \<Rightarrow> Inr ())"

definition half_dtype_from_descriptor :: "dtype_descriptor \<Rightarrow> kernel_error + half_dtype" where
  "half_dtype_from_descriptor dtype =
     (case dtype of
        Portable Half16 \<Rightarrow> Inr Float16
      | Portable Brain16 \<Rightarrow> Inr BrainFloat16
      | _ \<Rightarrow> Inl (KernelDTypeUnsupported ''not a half-precision dtype''))"

section \<open>Inputs\<close>

definition nth_opt :: "'a list \<Rightarrow> nat \<Rightarrow> 'a option" where
  "nth_opt xs i = (if i < length xs then Some (xs ! i) else None)"

definition input_resource_id :: "invocation \<Rightarrow> nat \<Rightarrow> kernel_error + string" where
  "input_resource_id call index =
     (case nth_opt (inputs call) index of
        None \<Rightarrow> Inl (KernelExecutionFailed ''missing input at index'')
      | Some r \<Rightarrow> Inr (rid r))"

definition get_input :: "invocation \<Rightarrow> nat \<Rightarrow> ('d, kernel_error, device_buffer) executor_op" where
  "get_input call index =
     andthen (lift (input_resource_id call index)) (\<lambda>name.
     andthen (gets storage) (\<lambda>st.
     (case st name of
        None \<Rightarrow> throw (KernelExecutionFailed ''no materialized data for input resource'')
      | Some b \<Rightarrow> ret b)))"

definition set_storage :: "string \<Rightarrow> device_buffer \<Rightarrow> 'd executor \<Rightarrow> 'd executor" where
  "set_storage name b x = x\<lparr>storage := (storage x)(name \<mapsto> b)\<rparr>"

definition drop_storage :: "string \<Rightarrow> 'd executor \<Rightarrow> 'd executor" where
  "drop_storage name x = x\<lparr>storage := (storage x)(name := None)\<rparr>"

section \<open>Execution ids\<close>

definition next_provider_execution_id :: "string \<Rightarrow> 'd executor \<Rightarrow> string \<times> 'd executor" where
  "next_provider_execution_id label x =
     (let ordinal = next_execution_ordinal x
      in (provider_name x @ '':'' @ label @ '':'' @ decimal ordinal,
          x\<lparr>next_execution_ordinal := ordinal + 1\<rparr>))"

section \<open>Observations\<close>

definition KERNEL_OBSERVATION_LOG_CAPACITY :: nat where
  "KERNEL_OBSERVATION_LOG_CAPACITY = 4096"

definition observe :: "observation_kind \<Rightarrow> invocation \<Rightarrow> 'd executor \<Rightarrow> 'd executor" where
  "observe kind call x =
     (let log = observations x;
          log = (if length log \<ge> 2 * KERNEL_OBSERVATION_LOG_CAPACITY
                 then drop KERNEL_OBSERVATION_LOG_CAPACITY log else log)
      in x\<lparr>observations := log @ [\<lparr>obs_kind = kind, obs_kernel = kernel_name call,
                                       obs_invocation = inv_id call\<rparr>]\<rparr>)"

definition recent_observations :: "'d executor \<Rightarrow> observation list" where
  "recent_observations x =
     drop (length (observations x) - KERNEL_OBSERVATION_LOG_CAPACITY) (observations x)"

text \<open>The invariant of the log against the whole history \<open>h\<close> of observations.\<close>

definition log_of :: "observation list \<Rightarrow> observation list \<Rightarrow> bool" where
  "log_of h log \<longleftrightarrow> (\<exists>old. h = old @ log \<and> (old = [] \<or> KERNEL_OBSERVATION_LOG_CAPACITY \<le> length log)) \<and>
     length log \<le> 2 * KERNEL_OBSERVATION_LOG_CAPACITY"

definition observation_of :: "observation_kind \<Rightarrow> invocation \<Rightarrow> observation" where
  "observation_of kind call = \<lparr>obs_kind = kind, obs_kernel = kernel_name call, obs_invocation = inv_id call\<rparr>"

lemma log_of_observe:
  assumes "log_of h (observations x)"
  shows "log_of (h @ [observation_of kind call]) (observations (observe kind call x))"
proof -
  obtain old where h: "h = old @ observations x"
    and full: "old = [] \<or> KERNEL_OBSERVATION_LOG_CAPACITY \<le> length (observations x)"
    and len: "length (observations x) \<le> 2 * KERNEL_OBSERVATION_LOG_CAPACITY"
    using assms by (auto simp: log_of_def)
  show ?thesis
  proof (cases "length (observations x) \<ge> 2 * KERNEL_OBSERVATION_LOG_CAPACITY")
    case True
    then have "observations (observe kind call x) =
        drop KERNEL_OBSERVATION_LOG_CAPACITY (observations x) @ [observation_of kind call]"
      by (simp add: observe_def observation_of_def Let_def)
    moreover have "h @ [observation_of kind call] =
        (old @ take KERNEL_OBSERVATION_LOG_CAPACITY (observations x)) @
        drop KERNEL_OBSERVATION_LOG_CAPACITY (observations x) @ [observation_of kind call]"
      by (metis h append_assoc append_take_drop_id)
    ultimately show ?thesis using True len
      by (auto simp: log_of_def KERNEL_OBSERVATION_LOG_CAPACITY_def simp del: append_assoc
          intro!: exI [of _ "old @ take KERNEL_OBSERVATION_LOG_CAPACITY (observations x)"])
  next
    case False
    then have "observations (observe kind call x) = observations x @ [observation_of kind call]"
      by (simp add: observe_def observation_of_def Let_def)
    then show ?thesis using h full False by (auto simp: log_of_def)
  qed
qed

text \<open>C32. The bounded log answers as an unbounded one would: after any sequence of observations the
  recent observations are exactly the last 4,096 of the whole history (all of it while it is
  shorter), and the log never holds more than 8,192.\<close>
theorem recent_observations_of_history:
  "recent_observations (foldl (\<lambda>x (kind, call). observe kind call x) (new_executor ks dev name) es) =
     drop (length es - KERNEL_OBSERVATION_LOG_CAPACITY) (map (\<lambda>(kind, call). observation_of kind call) es) \<and>
   length (observations (foldl (\<lambda>x (kind, call). observe kind call x) (new_executor ks dev name) es)) \<le>
     2 * KERNEL_OBSERVATION_LOG_CAPACITY"
proof -
  let ?run = "\<lambda>es. foldl (\<lambda>x (kind, call). observe kind call x) (new_executor ks dev name) es"
  let ?h = "\<lambda>es. map (\<lambda>(kind, call). observation_of kind call) es"
  have "log_of (?h es) (observations (?run es))"
  proof (induction es rule: rev_induct)
    case Nil
    then show ?case by (simp add: log_of_def new_executor_def)
  next
    case (snoc e es)
    then show ?case by (cases e) (simp add: log_of_observe)
  qed
  then obtain old where h: "?h es = old @ observations (?run es)"
    and full: "old = [] \<or> KERNEL_OBSERVATION_LOG_CAPACITY \<le> length (observations (?run es))"
    and len: "length (observations (?run es)) \<le> 2 * KERNEL_OBSERVATION_LOG_CAPACITY"
    by (auto simp: log_of_def)
  have "length es = length old + length (observations (?run es))" using h by (metis length_append length_map)
  then have "drop (length es - KERNEL_OBSERVATION_LOG_CAPACITY) (?h es) =
      drop (length (observations (?run es)) - KERNEL_OBSERVATION_LOG_CAPACITY) (observations (?run es))"
    using full by (auto simp: h)
  with len show ?thesis by (simp add: recent_observations_def)
qed

end
