(* ===== verification/Provider_Device.thy ===== *)
theory Provider_Device
  imports Executor_State
begin

text \<open>
  \<open>src/device.rs\<close> and \<open>src/peer.rs\<close>: the portable metadata of a discovered Device and its
  pressure estimate, and peer access between two Devices. The driver's answers about a
  context \<open>'c\<close> are the parameter \<open>'c cuda_host\<close>; any of them may unwind, as cudarc
  does when the driver's shared library is missing.
\<close>

section \<open>Calls that may unwind\<close>

datatype 'a caught = Returned 'a | Panicked

type_synonym ('e, 'a) host_call = "('e + 'a) caught"

definition and_call :: "('e, 'a) host_call \<Rightarrow> ('a \<Rightarrow> ('e, 'b) host_call) \<Rightarrow> ('e, 'b) host_call" where
  "and_call m f = (case m of Panicked \<Rightarrow> Panicked | Returned (Inl e) \<Rightarrow> Returned (Inl e) | Returned (Inr x) \<Rightarrow> f x)"

definition call_error :: "('e \<Rightarrow> 'f) \<Rightarrow> ('e, 'a) host_call \<Rightarrow> ('f, 'a) host_call" where
  "call_error f m = (case m of Panicked \<Rightarrow> Panicked | Returned (Inl e) \<Rightarrow> Returned (Inl (f e))
     | Returned (Inr x) \<Rightarrow> Returned (Inr x))"

text \<open>\<open>.ok()\<close>, which catches an error and not a panic.\<close>

definition call_ok :: "('e, 'a) host_call \<Rightarrow> ('f, 'a option) host_call" where
  "call_ok m = (case m of Panicked \<Rightarrow> Panicked | Returned (Inl _) \<Rightarrow> Returned (Inr None)
     | Returned (Inr x) \<Rightarrow> Returned (Inr (Some x)))"

text \<open>
  The driver and NVRTC, as construction asks them. An \<open>i32\<close> answer is its two's
  complement word; \<open>h_device\<close> is the state of the Device behind a context.
\<close>

record ('c, 'd) cuda_host =
  h_text :: "cu_result \<Rightarrow> string"
  h_device_count :: "(cu_result, u32) host_call"
  h_context :: "usize \<Rightarrow> (cu_result, 'c) host_call"
  h_ordinal :: "'c \<Rightarrow> usize"
  h_name :: "'c \<Rightarrow> (cu_result, string) host_call"
  h_compute_capability :: "'c \<Rightarrow> (cu_result, u32 \<times> u32) host_call"
  h_total_mem :: "'c \<Rightarrow> (cu_result, usize) host_call"
  h_multiprocessors :: "'c \<Rightarrow> (cu_result, u32) host_call"
  h_mem_info :: "'c \<Rightarrow> (cu_result, usize \<times> usize) host_call"
  h_compile_kernels :: "(string, string) host_call"
  h_compile_tensor_kernels :: "(string, string) host_call"
  h_load_module :: "'c \<Rightarrow> string \<Rightarrow> (cu_result, unit) host_call"
  h_new_stream :: "'c \<Rightarrow> (cu_result, unit) host_call"
  h_tensor_cores_env :: "string option"
  h_device :: "'c \<Rightarrow> 'd"

section \<open>The pressure estimate\<close>

datatype pressure = PressureUnknown | Low | Moderate | High | Saturated

fun bit_length :: "nat \<Rightarrow> nat" where
  "bit_length n = (if n = 0 then 0 else Suc (bit_length (n div 2)))"

declare bit_length.simps [simp del]

text \<open>The quotient rounded to the nearest integer, ties to even.\<close>

definition div_even :: "nat \<Rightarrow> nat \<Rightarrow> nat" where
  "div_even a b = (let q = a div b; r = a mod b in if 2 * r < b \<or> 2 * r = b \<and> even q then q else q + 1)"

text \<open>
  \<open>n as f64\<close>, and the \<open>f64\<close> quotient of two such values in units of \<open>2 ^ -128\<close>: both
  keep the 53 leading bits. A quotient of two \<open>u64\<close> values has no bit below that unit.
\<close>

definition f64_of_nat :: "nat \<Rightarrow> nat" where
  "f64_of_nat n = (let k = bit_length n - 53 in div_even n (2 ^ k) * 2 ^ k)"

definition f64_ratio :: "nat \<Rightarrow> nat \<Rightarrow> nat" where
  "f64_ratio a b = (let k = bit_length (a * 2 ^ 128 div b) - 53 in div_even (a * 2 ^ 128) (b * 2 ^ k) * 2 ^ k)"

text \<open>The thresholds are the \<open>f64\<close> values 0.5, 0.2 and 0.05.\<close>

definition pressure_from_free_ratio :: "usize \<Rightarrow> usize \<Rightarrow> pressure" where
  "pressure_from_free_ratio free all_bytes =
     (let free_ratio = f64_ratio (f64_of_nat (unat free)) (f64_of_nat (unat all_bytes)) in
      if free_ratio > 2 ^ 127 then Low
      else if free_ratio > 0x1999999999999A * 2 ^ 73 then Moderate
      else if free_ratio > 0x1999999999999A * 2 ^ 71 then High
      else Saturated)"

section \<open>Device metadata\<close>

datatype device_type = Gpu

datatype layout_kind = Contiguous

datatype memory_class = DeviceMemory

text \<open>\<open>DeviceMetadata\<close>; its execution limits are the Runtime's defaults.\<close>

record device_metadata =
  dev_id :: string
  dev_name :: string
  dev_type :: device_type
  dev_provider :: string
  dev_vendor :: string
  dev_architecture :: string
  dev_memory_capacity :: u64
  dev_compute_units :: u32
  dev_dtypes :: "compute_dtype set"
  dev_layouts :: "layout_kind set"
  dev_memory_classes :: "memory_class set"
  dev_pressure :: pressure

definition cuda_device_id :: "usize \<Rightarrow> string" where
  "cuda_device_id ordinal = ''cuda:'' @ decimal ordinal"

definition decimal_i32 :: "u32 \<Rightarrow> string" where
  "decimal_i32 n = (if 0 \<le> sint n then decimal_nat (nat (sint n)) else CHR ''-'' # decimal_nat (nat (- sint n)))"

definition cuda_device_descriptor ::
  "('c, 'd) cuda_host \<Rightarrow> 'c \<Rightarrow> string \<Rightarrow> (cu_result, device_metadata) host_call" where
  "cuda_device_descriptor H ctx name =
     and_call (h_name H ctx) (\<lambda>device_name.
     and_call (h_compute_capability H ctx) (\<lambda>(major, minor).
     and_call (h_total_mem H ctx) (\<lambda>total_mem.
     and_call (call_ok (h_multiprocessors H ctx)) (\<lambda>count.
     (let units = (case count of Some n \<Rightarrow> (if 0 \<le> sint n then n else 0) | None \<Rightarrow> 0) in
      and_call (call_ok (h_mem_info H ctx)) (\<lambda>info.
      (let level = (case info of
             Some (free, all_bytes) \<Rightarrow> (if all_bytes > 0 then pressure_from_free_ratio free all_bytes else PressureUnknown)
           | None \<Rightarrow> PressureUnknown)
       in Returned (Inr \<lparr>dev_id = cuda_device_id (h_ordinal H ctx), dev_name = device_name, dev_type = Gpu,
            dev_provider = name, dev_vendor = ''NVIDIA'',
            dev_architecture = ''sm_'' @ decimal_i32 major @ decimal_i32 minor,
            dev_memory_capacity = total_mem, dev_compute_units = units, dev_dtypes = {Float32},
            dev_layouts = {Contiguous}, dev_memory_classes = {DeviceMemory},
            dev_pressure = level\<rparr>))))))))"

section \<open>Peer access\<close>

text \<open>The driver calls of peer access, over its own state \<open>'p\<close> of enabled pairs.\<close>

record ('c, 'p) peer_driver =
  p_can_access :: "'c \<Rightarrow> 'c \<Rightarrow> 'p \<Rightarrow> (cu_result \<times> u32) \<times> 'p"
  p_bind_to_thread :: "'c \<Rightarrow> ('p, cu_result, unit) exec"
  p_enable :: "'c \<Rightarrow> 'c \<Rightarrow> 'p \<Rightarrow> cu_result \<times> 'p"

definition device_can_access_peer :: "('c, 'p) peer_driver \<Rightarrow> 'c \<Rightarrow> 'c \<Rightarrow> ('p, cu_result, bool) exec" where
  "device_can_access_peer V a b = (\<lambda>p.
     case p_can_access V a b p of
       ((r, can_access), p) \<Rightarrow> (if r = CUDA_SUCCESS then Inr (can_access \<noteq> 0) else Inl r, p))"

definition enable_peer_access :: "('c, 'p) peer_driver \<Rightarrow> 'c \<Rightarrow> 'c \<Rightarrow> ('p, cu_result, unit) exec" where
  "enable_peer_access V a b =
     andthen (p_bind_to_thread V a) (\<lambda>_ p.
     case p_enable V a b p of
       (r, p) \<Rightarrow> (if r = CUDA_SUCCESS \<or> r = CUDA_ERROR_PEER_ACCESS_ALREADY_ENABLED then Inr () else Inl r, p))"

end
