(* ===== verification/Advertisements.thy ===== *)
theory Advertisements
  imports Provider_Device
begin

text \<open>\<open>src/advertisements.rs\<close>: the Kernels a discovered Device is advertised with.\<close>

section \<open>Advertisements\<close>

datatype operator_family = LinearAlgebra | Activation | TensorFamily | Normalization | PositionEncoding
  | AttentionFamily

record operator_id =
  op_name :: string
  op_version :: nat
  op_family :: operator_family

datatype cancellation_support = TimeoutOnly

record kernel_id =
  kid_provider :: string
  kid_name :: string
  kid_version :: "nat \<times> nat \<times> nat"
  kid_operator :: operator_id
  kid_operator_version :: nat
  kid_family :: string
  kid_profile :: string
  kid_features :: "string set"

datatype tensor_role = InputRole | OutputRole

record advertisement =
  ad_id :: kernel_id
  ad_dtypes :: "tensor_role \<Rightarrow> compute_dtype set"
  ad_layouts :: "layout_kind set"
  ad_memory_classes :: "memory_class set"
  ad_devices :: "string set"
  ad_cancellation :: cancellation_support
  ad_rank :: "nat option"

definition KEY_COUNT_FEATURE :: string where
  "KEY_COUNT_FEATURE = ''key-count''"

text \<open>The Runtime's \<open>ROPE_BANDED_FREQUENCY_SCALING_FEATURE\<close> is a constant of the Runtime.\<close>

definition CUDA_CONFORMANCE_PROFILE :: string where
  "CUDA_CONFORMANCE_PROFILE = ''cuda-conformance-v1''"

definition cuda_kernel_id :: "operator_id \<Rightarrow> string \<Rightarrow> string \<Rightarrow> kernel_id" where
  "cuda_kernel_id operator name provider =
     \<lparr>kid_provider = provider, kid_name = name, kid_version = (1, 0, 0), kid_operator = operator,
      kid_operator_version = 1, kid_family = ''Cuda'', kid_profile = CUDA_CONFORMANCE_PROFILE,
      kid_features = {}\<rparr>"

definition baseline_advertisement :: "string \<Rightarrow> operator_family \<Rightarrow> string \<Rightarrow> string \<Rightarrow> advertisement" where
  "baseline_advertisement name fam dev provider =
     \<lparr>ad_id = cuda_kernel_id \<lparr>op_name = name, op_version = 1, op_family = fam\<rparr> name provider,
      ad_dtypes = (\<lambda>_. {Float32}), ad_layouts = {Contiguous}, ad_memory_classes = {DeviceMemory},
      ad_devices = {dev}, ad_cancellation = TimeoutOnly,
      ad_rank = (if name \<in> set [''matmul'', ''rope'', ''attention'', ''softmax''] then Some 2 else None)\<rparr>"

definition half_precision_advertisement ::
  "string \<Rightarrow> operator_family \<Rightarrow> string \<Rightarrow> string \<Rightarrow> advertisement" where
  "half_precision_advertisement base_name fam dev provider =
     \<lparr>ad_id = cuda_kernel_id \<lparr>op_name = base_name, op_version = 1, op_family = fam\<rparr>
        (base_name @ ''-half'') provider,
      ad_dtypes = (\<lambda>_. {Half16, Brain16}), ad_layouts = {Contiguous}, ad_memory_classes = {DeviceMemory},
      ad_devices = {dev}, ad_cancellation = TimeoutOnly, ad_rank = None\<rparr>"

definition with_feature :: "string \<Rightarrow> advertisement \<Rightarrow> advertisement" where
  "with_feature f ad = ad\<lparr>ad_id := (ad_id ad)\<lparr>kid_features := insert f (kid_features (ad_id ad))\<rparr>\<rparr>"

text \<open>\<open>banded\<close> is the Runtime's \<open>ROPE_BANDED_FREQUENCY_SCALING_FEATURE\<close>.\<close>

definition cuda_kernel_advertisements :: "string \<Rightarrow> string \<Rightarrow> string \<Rightarrow> advertisement list" where
  "cuda_kernel_advertisements banded dev provider =
     [baseline_advertisement ''matmul'' LinearAlgebra dev provider,
      baseline_advertisement ''matmul-bias'' LinearAlgebra dev provider,
      baseline_advertisement ''matmul-residual'' LinearAlgebra dev provider,
      baseline_advertisement ''silu-mul'' Activation dev provider,
      baseline_advertisement ''gated-matmul'' LinearAlgebra dev provider,
      baseline_advertisement ''embedding'' TensorFamily dev provider,
      baseline_advertisement ''rmsnorm'' Normalization dev provider,
      with_feature banded (baseline_advertisement ''rope'' PositionEncoding dev provider),
      with_feature KEY_COUNT_FEATURE (baseline_advertisement ''attention'' AttentionFamily dev provider),
      baseline_advertisement ''softmax'' Activation dev provider,
      baseline_advertisement ''silu'' Activation dev provider,
      baseline_advertisement ''add'' TensorFamily dev provider,
      baseline_advertisement ''mul'' TensorFamily dev provider,
      baseline_advertisement ''concat'' TensorFamily dev provider,
      baseline_advertisement ''kv-write'' TensorFamily dev provider,
      baseline_advertisement ''residual-add'' TensorFamily dev provider,
      half_precision_advertisement ''add'' TensorFamily dev provider,
      half_precision_advertisement ''mul'' TensorFamily dev provider]"

definition advertised_names :: "string list" where
  "advertised_names =
     [''matmul'', ''matmul-bias'', ''matmul-residual'', ''silu-mul'', ''gated-matmul'', ''embedding'',
      ''rmsnorm'', ''rope'', ''attention'', ''softmax'', ''silu'', ''add'', ''mul'', ''concat'', ''kv-write'',
      ''residual-add'', ''add-half'', ''mul-half'']"

lemmas advertisement_defs = baseline_advertisement_def half_precision_advertisement_def with_feature_def
  cuda_kernel_id_def

lemma advertised_names:
  "map (\<lambda>ad. kid_name (ad_id ad)) (cuda_kernel_advertisements banded dev provider) = advertised_names"
  by (simp add: cuda_kernel_advertisements_def advertised_names_def advertisement_defs)

lemma advertised_binding:
  "ad \<in> set (cuda_kernel_advertisements banded dev provider) \<Longrightarrow>
     ad_devices ad = {dev} \<and> kid_provider (ad_id ad) = provider"
  by (auto simp: cuda_kernel_advertisements_def advertisement_defs)

end
