(* ===== verification/Executor_Dispatch.thy ===== *)
theory Executor_Dispatch
  imports Executor_State "HOL-Library.AList"
begin

text \<open>
  Kernel dispatch in \<open>src/executor.rs\<close>: which Kernel an invocation's name selects and
  with which attributes, the expansion of compact inputs, the in-place \<open>kv-write\<close>, the
  output buffer offered to the Kernel, and what a capture records of an invocation.
\<close>

section \<open>Compact inputs\<close>

definition reads_compact :: "string \<Rightarrow> nat \<Rightarrow> bool" where
  "reads_compact name index \<longleftrightarrow>
     (if name = ''matmul'' \<or> name = ''matmul-bias'' \<or> name = ''matmul-residual'' then index = 1
      else if name = ''gated-matmul'' then index = 1 \<or> index = 2
      else if name = ''embedding'' then index = 0
      else False)"

fun expand_inputs ::
  "'d external \<Rightarrow> string \<Rightarrow> nat \<Rightarrow> resource list \<Rightarrow> ('d, kernel_error, unit) executor_op" where
  "expand_inputs D name index [] = ret ()"
| "expand_inputs D name index (input # rest) =
     andthen (gets storage) (\<lambda>st.
     andthen
       (case st (rid input) of
          None \<Rightarrow> ret ()
        | Some b \<Rightarrow>
            (if reads_compact name index \<or> \<not> is_compact b then ret ()
             else andthen (kernel_call (expand D b)) (\<lambda>expanded.
                  modify (set_storage (rid input) expanded)))) (\<lambda>_.
     expand_inputs D name (Suc index) rest))"

definition expand_unsupported_compact_inputs ::
  "'d external \<Rightarrow> invocation \<Rightarrow> ('d, kernel_error, unit) executor_op" where
  "expand_unsupported_compact_inputs D call = expand_inputs D (kernel_name call) 0 (inputs call)"

section \<open>The Kernels by name\<close>

definition dispatch_matmul :: "'d external \<Rightarrow> invocation \<Rightarrow> ('d, kernel_error, device_buffer) executor_op" where
  "dispatch_matmul D call =
     (let attrs = attributes call;
          transpose_a = attribute_bool attrs ''transpose_a'' False;
          transpose_b = attribute_bool attrs ''transpose_b'' False
      in
      if kernel_name call = ''matmul'' then
        andthen (get_input call 0) (\<lambda>a. andthen (get_input call 1) (\<lambda>b.
        andthen (lift (require_f32_accumulation attrs)) (\<lambda>_.
        kernel_call (matmul D a b transpose_a transpose_b))))
      else if kernel_name call = ''matmul-bias'' then
        andthen (get_input call 0) (\<lambda>a. andthen (get_input call 1) (\<lambda>b. andthen (get_input call 2) (\<lambda>bias.
        andthen (lift (require_f32_accumulation attrs)) (\<lambda>_.
        kernel_call (matmul_bias D a b bias transpose_a transpose_b)))))
      else if kernel_name call = ''matmul-residual'' then
        andthen (get_input call 0) (\<lambda>a. andthen (get_input call 1) (\<lambda>b. andthen (get_input call 2) (\<lambda>residual.
        andthen (lift (require_f32_accumulation attrs)) (\<lambda>_.
        kernel_call (matmul_residual D a b residual transpose_a transpose_b)))))
      else
        andthen (lift (require_f32_accumulation attrs)) (\<lambda>_.
        andthen (get_input call 0) (\<lambda>a. andthen (get_input call 1) (\<lambda>gate. andthen (get_input call 2) (\<lambda>up.
        kernel_call (gated_matmul D a gate up transpose_a transpose_b))))))"

definition rope_position_offset :: "attributes \<Rightarrow> kernel_error + u64" where
  "rope_position_offset attrs =
     (case attrs ''position_offset'' of
        None \<Rightarrow> Inr 0
      | Some (IntegerAttr offset) \<Rightarrow>
          (if 0 \<le> sint offset then Inr offset
           else Inl (KernelAttributeUnsupported ''position_offset must not be negative''))
      | Some _ \<Rightarrow> Inl (KernelAttributeUnsupported ''position_offset must be an integer''))"

definition rope_rotation_pairing :: "attributes \<Rightarrow> kernel_error + rope_pairing" where
  "rope_rotation_pairing attrs =
     (case attrs ''rotation_pairing'' of
        None \<Rightarrow> Inr Interleaved
      | Some (StringAttr value) \<Rightarrow>
          (case from_attribute value of
             Some p \<Rightarrow> Inr p
           | None \<Rightarrow> Inl (KernelAttributeUnsupported ''rotation_pairing is not implemented''))
      | Some _ \<Rightarrow> Inl (KernelAttributeUnsupported ''rotation_pairing must be a string''))"

definition required_integer :: "attributes \<Rightarrow> string \<Rightarrow> kernel_error + u64" where
  "required_integer attrs key =
     (case attribute_integer attrs key of
        Some v \<Rightarrow> Inr v | None \<Rightarrow> Inl (KernelAttributeUnsupported key))"

text \<open>The defaults of \<open>base\<close> and \<open>scale\<close> are the \<open>f32\<close> values 10000.0 and 1.0.\<close>

definition dispatch_rope ::
  "'d external \<Rightarrow> runtime \<Rightarrow> invocation \<Rightarrow> ('d, kernel_error, device_buffer) executor_op" where
  "dispatch_rope D R call =
     (let attrs = attributes call in
      andthen (get_input call 0) (\<lambda>input.
      (let base = attribute_float attrs ''base'' 0x461C4000;
           scale = attribute_float attrs ''scale'' 0x3F800000
       in
       andthen (lift (required_integer attrs ''dimension'')) (\<lambda>dimension.
       andthen (ensure (case attrs ''position_mode'' of Some (StringAttr mode) \<Rightarrow> mode = ''sequential'' | _ \<Rightarrow> True)
         (KernelAttributeUnsupported ''position_mode is not implemented'')) (\<lambda>_.
       andthen (lift (rope_position_offset attrs)) (\<lambda>position_offset.
       (let heads = (case attribute_integer attrs ''head_count'' of Some h \<Rightarrow> h | None \<Rightarrow> 1) in
        andthen (lift (rope_rotation_pairing attrs)) (\<lambda>pairing.
        andthen (lift (case rt_banded R attrs of
            Inl attribute \<Rightarrow> Inl (KernelAttributeUnsupported attribute) | Inr f \<Rightarrow> Inr f)) (\<lambda>scaling.
        kernel_call (rope_with_frequency_scaling D input base scale dimension position_offset heads
          pairing scaling))))))))))"

text \<open>\<open>attention_mask_kind\<close> must name an implemented mask and agree with \<open>causal\<close>.\<close>

definition check_mask_kind :: "attributes \<Rightarrow> bool \<Rightarrow> kernel_error + unit" where
  "check_mask_kind attrs causal =
     (case attrs ''attention_mask_kind'' of
        Some (StringAttr kind) \<Rightarrow>
          (if kind = ''causal'' \<or> kind = ''bidirectional'' then
             (if (kind = ''causal'') \<noteq> causal
              then Inl (KernelAttributeUnsupported ''attention_mask_kind is inconsistent with causal'')
              else Inr ())
           else Inl (KernelAttributeUnsupported ''attention_mask_kind is not implemented''))
      | _ \<Rightarrow> Inr ())"

definition dispatch_attention :: "'d external \<Rightarrow> invocation \<Rightarrow> ('d, kernel_error, device_buffer) executor_op" where
  "dispatch_attention D call =
     (let attrs = attributes call in
      andthen (get_input call 0) (\<lambda>q. andthen (get_input call 1) (\<lambda>k. andthen (get_input call 2) (\<lambda>v.
      andthen (lift (required_integer attrs ''head_count'')) (\<lambda>heads.
      andthen (lift (required_integer attrs ''head_dimension'')) (\<lambda>width.
      (let kv_heads = attribute_integer attrs ''kv_head_count'';
           window = attribute_integer attrs ''window_size'';
           causal = attribute_bool attrs ''causal'' False
       in
       andthen (lift (check_mask_kind attrs causal)) (\<lambda>_.
       kernel_call (attention_bounded D q k v heads width kv_heads window causal
         (attribute_integer attrs ''key_count''))))))))))"

definition dispatch_half :: "'d external \<Rightarrow> invocation \<Rightarrow> ('d, kernel_error, device_buffer) executor_op" where
  "dispatch_half D call =
     andthen (get_input call 0) (\<lambda>a. andthen (get_input call 1) (\<lambda>b.
     andthen (lift (half_dtype_from_descriptor (rdtype (inputs call ! 0)))) (\<lambda>dtype.
     andthen (kernel_call (download D a)) (\<lambda>a_host.
     andthen (kernel_call (download D b)) (\<lambda>b_host.
     andthen (kernel_call (upload_half D a_host dtype)) (\<lambda>a_half.
     andthen (kernel_call (upload_half D b_host dtype)) (\<lambda>b_half.
     andthen (kernel_call (if kernel_name call = ''add-half'' then add_half D a_half b_half
                           else mul_half D a_half b_half)) (\<lambda>result_half.
     andthen (kernel_call (download_half D result_half)) (\<lambda>result_host.
     kernel_call (upload D result_host))))))))))"

definition run_kernel ::
  "'d external \<Rightarrow> runtime \<Rightarrow> invocation \<Rightarrow> ('d, kernel_error, device_buffer) executor_op" where
  "run_kernel D R call =
     (let name = kernel_name call;
          unary = (\<lambda>op. andthen (get_input call 0) (\<lambda>a. kernel_call (op a)));
          binary = (\<lambda>op. andthen (get_input call 0) (\<lambda>a. andthen (get_input call 1) (\<lambda>b. kernel_call (op a b))))
      in
      if name = ''matmul'' \<or> name = ''matmul-bias'' \<or> name = ''matmul-residual'' \<or> name = ''gated-matmul''
      then dispatch_matmul D call
      else if name = ''silu-mul'' then binary (silu_mul D)
      else if name = ''embedding'' then binary (embedding_lookup D)
      else if name = ''rmsnorm'' then
        binary (\<lambda>input weight. rmsnorm D input weight
          (attribute_float (attributes call) ''epsilon'' 0x358637BD))
      else if name = ''rope'' then dispatch_rope D R call
      else if name = ''attention'' then dispatch_attention D call
      else if name = ''softmax'' then unary (softmax_rows D)
      else if name = ''silu'' then unary (silu D)
      else if name = ''add'' then binary (add D)
      else if name = ''mul'' then binary (mul D)
      else if name = ''concat'' then binary (concat_rows D)
      else if name = ''residual-add'' then binary (residual_add D)
      else if name = ''add-half'' \<or> name = ''mul-half'' then dispatch_half D call
      else throw (KernelNotFound name))"

section \<open>Running an invocation\<close>

definition store_output ::
  "invocation \<Rightarrow> nat \<Rightarrow> device_buffer \<Rightarrow> ('d, kernel_error, resource) executor_op" where
  "store_output call index buffer =
     (case nth_opt (outputs call) index of
        None \<Rightarrow> throw (KernelExecutionFailed ''missing output at index'')
      | Some r \<Rightarrow> andthen (modify (set_storage (rid r) buffer)) (\<lambda>_. ret r))"

definition run_invocation_with_offer ::
  "'d external \<Rightarrow> runtime \<Rightarrow> invocation \<Rightarrow> ('d, kernel_error, kernel_result) executor_op" where
  "run_invocation_with_offer D R call =
     andthen (run_kernel D R call) (\<lambda>output.
     andthen (store_output call 0 output) (\<lambda>descriptor.
     ret (result_success call [descriptor])))"

definition kv_store :: "'d external \<Rightarrow> string \<Rightarrow> string \<Rightarrow> ('d, kernel_error, device_buffer option) executor_op" where
  "kv_store D store_id output_id =
     andthen (gets storage) (\<lambda>st.
     (if output_id = store_id then andthen (modify (drop_storage store_id)) (\<lambda>_. ret (st store_id))
      else (case st store_id of
              None \<Rightarrow> ret None
            | Some store \<Rightarrow> andthen (kernel_call (clone_buffer D store)) (\<lambda>b. ret (Some b)))))"

text \<open>The store goes back under the output's id whether or not the write succeeded.\<close>

definition kv_write_back ::
  "'d external \<Rightarrow> string \<Rightarrow> string \<Rightarrow> u64 \<Rightarrow> device_buffer \<Rightarrow> ('d, kernel_error, unit) executor_op" where
  "kv_write_back D rows_id output_id row_offset store = (\<lambda>x.
     case (case storage x rows_id of
             Some rows \<Rightarrow> kernel_call (kv_write D store rows row_offset) x
           | None \<Rightarrow> (Inl (KernelExecutionFailed ''no materialized data for input resource''), x)) of
       (written, x) \<Rightarrow> (written, set_storage output_id store x))"

definition run_kv_write :: "'d external \<Rightarrow> invocation \<Rightarrow> ('d, kernel_error, kernel_result) executor_op" where
  "run_kv_write D call =
     andthen (lift (required_integer (attributes call) ''row_offset'')) (\<lambda>row_offset.
     andthen (lift (input_resource_id call 0)) (\<lambda>store_id.
     andthen (lift (input_resource_id call 1)) (\<lambda>rows_id.
     (case outputs call of
        [] \<Rightarrow> throw (KernelExecutionFailed ''missing output at index 0'')
      | output # _ \<Rightarrow>
          andthen (kv_store D store_id (rid output)) (\<lambda>store.
          (case store of
             None \<Rightarrow> throw (KernelExecutionFailed ''no materialized data for input resource'')
           | Some store \<Rightarrow>
               andthen (kv_write_back D rows_id (rid output) row_offset store) (\<lambda>_.
               ret (result_success call [output]))))))))"

text \<open>
  The buffer the first output overwrites is taken from storage and offered to the Kernel,
  unless the invocation reads it or it is compact. A dispatch that fails before a Kernel
  takes it puts it back; the guard's drop clears the offer either way.
\<close>

definition previous_output :: "invocation \<Rightarrow> 'd executor \<Rightarrow> (string \<times> device_buffer) option" where
  "previous_output call x =
     (case outputs call of
        [] \<Rightarrow> None
      | output # _ \<Rightarrow>
          (if list_ex (\<lambda>input. rid input = rid output) (inputs call) then None
           else (case storage x (rid output) of
                   None \<Rightarrow> None
                 | Some b \<Rightarrow> (if is_compact b then None else Some (rid output, b)))))"

definition take_offer :: "(string \<times> device_buffer) option \<Rightarrow> 'd executor \<Rightarrow> 'd executor" where
  "take_offer prev x =
     (let x = (case prev of None \<Rightarrow> x | Some (name, _) \<Rightarrow> drop_storage name x)
      in x\<lparr>kernels := offer_output (map_option (\<lambda>(_, b). buf_slice b) prev) (kernels x)\<rparr>)"

definition restore_offer :: "(string \<times> device_buffer) option \<Rightarrow> 'd executor \<Rightarrow> 'd executor" where
  "restore_offer prev x =
     (case prev of
        None \<Rightarrow> x
      | Some (name, b) \<Rightarrow>
          (case reclaim (kernels x) of
             (Some s, ks) \<Rightarrow> set_storage name (plain s (shape b)) (x\<lparr>kernels := ks\<rparr>)
           | (None, ks) \<Rightarrow> x\<lparr>kernels := ks\<rparr>))"

definition clear_offer :: "'d executor \<Rightarrow> 'd executor" where
  "clear_offer x = x\<lparr>kernels := drop_offer (kernels x)\<rparr>"

definition run_offered ::
  "'d external \<Rightarrow> runtime \<Rightarrow> invocation \<Rightarrow> ('d, kernel_error, kernel_result) executor_op" where
  "run_offered D R call = (\<lambda>x.
     let prev = previous_output call x
     in case run_invocation_with_offer D R call (take_offer prev x) of
          (Inr r, x) \<Rightarrow> (Inr r, clear_offer x)
        | (Inl e, x) \<Rightarrow> (Inl e, clear_offer (restore_offer prev x)))"

definition run_invocation_uncaptured ::
  "'d external \<Rightarrow> runtime \<Rightarrow> invocation \<Rightarrow> ('d, kernel_error, kernel_result) executor_op" where
  "run_invocation_uncaptured D R call =
     andthen (expand_unsupported_compact_inputs D call) (\<lambda>_.
     (if kernel_name call = ''kv-write'' then run_kv_write D call else run_offered D R call))"

section \<open>What a capture records\<close>

definition extend_with :: "('a \<times> 'b) list \<Rightarrow> ('a \<times> 'b) list \<Rightarrow> ('a \<times> 'b) list" where
  "extend_with added m = foldl (\<lambda>m (k, v). AList.update k v m) m added"

definition touched :: "'d executor \<Rightarrow> invocation \<Rightarrow> (string \<times> u64 \<times> usize) list" where
  "touched x call = concat (map (\<lambda>r. case storage x (rid r) of
       Some b \<Rightarrow> [(rid r, address b, buffer_len b)] | None \<Rightarrow> []) (inputs call @ outputs call))"

definition touched_ids :: "'d executor \<Rightarrow> invocation \<Rightarrow> (string \<times> u64) list" where
  "touched_ids x call =
     (case (nth_opt (inputs call) 0, nth_opt (inputs call) 1) of
        (Some table, Some ids) \<Rightarrow>
          (if kernel_name call = ''embedding'' then
             (case storage x (rid table) of
                Some b \<Rightarrow> (case shape b of vocab # _ \<Rightarrow> [(rid ids, vocab)] | [] \<Rightarrow> [])
              | None \<Rightarrow> [])
           else [])
      | _ \<Rightarrow> [])"

definition record_captured_resources :: "invocation \<Rightarrow> 'd executor \<Rightarrow> 'd executor" where
  "record_captured_resources call x =
     x\<lparr>step_recording := map_option (\<lambda>rc. rc\<lparr>
         resources := extend_with (touched x call) (resources rc),
         embedding_ids := extend_with (touched_ids x call) (embedding_ids rc)\<rparr>) (step_recording x)\<rparr>"

definition run_invocation ::
  "'d external \<Rightarrow> runtime \<Rightarrow> invocation \<Rightarrow> ('d, kernel_error, kernel_result) executor_op" where
  "run_invocation D R call =
     andthen (run_invocation_uncaptured D R call) (\<lambda>r.
     andthen (modify (record_captured_resources call)) (\<lambda>_. ret r))"

text \<open>Validation before dispatch, and an observation at each outcome. It returns no error.\<close>

definition execute_invocation ::
  "'d external \<Rightarrow> runtime \<Rightarrow> invocation \<Rightarrow> 'd executor \<Rightarrow> kernel_result \<times> 'd executor" where
  "execute_invocation D R call x =
     (let x = observe DispatchStarted call x in
      if deadline_millis call = Some 0 then (result_failure call KernelTimeout, observe TimedOut call x)
      else
        (case andthen (lift (rt_validate R call)) (\<lambda>_. run_invocation D R call) x of
           (Inr result, x) \<Rightarrow> (result, observe DispatchCompleted call x)
         | (Inl error, x) \<Rightarrow> (result_failure call error, observe (DispatchFailed error) call x)))"

end
