(* ===== verification/Provider.thy ===== *)
theory Provider
  imports Advertisements Executor_Dispatch
begin

text \<open>
  \<open>CudaProvider\<close> of \<open>src/provider.rs\<close>, with \<open>CudaKernels::compile_and_load\<close>:
  construction that never fails, and the health, Devices, advertisements and execution
  interface it reports.
\<close>

section \<open>Compiling and loading the Kernels\<close>

definition tensor_module_of :: "('c, 'd) cuda_host \<Rightarrow> 'c \<Rightarrow> (cuda_error, bool) host_call" where
  "tensor_module_of H ctx =
     (let allowed = (h_tensor_cores_env H \<noteq> Some ''0'') in
      and_call (call_ok (h_compute_capability H ctx)) (\<lambda>capability.
      (case capability of
         Some (major, _) \<Rightarrow>
           (if 8 \<le> sint major \<and> allowed then
              and_call (call_ok (h_compile_tensor_kernels H)) (\<lambda>ptx.
              (case ptx of
                 None \<Rightarrow> Returned (Inr False)
               | Some ptx \<Rightarrow>
                   and_call (call_ok (h_load_module H ctx ptx)) (\<lambda>m. Returned (Inr (m \<noteq> None)))))
            else Returned (Inr False))
       | None \<Rightarrow> Returned (Inr False))))"

definition compile_and_load :: "('c, 'd) cuda_host \<Rightarrow> 'c \<Rightarrow> (cuda_error, 'd kernels) host_call" where
  "compile_and_load H ctx =
     and_call (call_error from_compile_error (h_compile_kernels H)) (\<lambda>ptx.
     and_call (call_error (from_driver_error (h_text H)) (h_load_module H ctx ptx)) (\<lambda>_.
     and_call (tensor_module_of H ctx) (\<lambda>tensor.
     and_call (call_error (from_driver_error (h_text H)) (h_new_stream H ctx)) (\<lambda>_.
     Returned (Inr (new_kernels (h_device H ctx) tensor))))))"

section \<open>Construction\<close>

record provider_metadata =
  pm_name :: string
  pm_version :: string
  pm_vendor :: string
  pm_description :: string

definition CUDA_PROVIDER_NAME :: string where
  "CUDA_PROVIDER_NAME = ''magnetar:provider/cuda''"

definition CUDA_PROVIDER_VERSION :: string where
  "CUDA_PROVIDER_VERSION = ''0.1.0''"

definition CUDA_PROVIDER_VENDOR :: string where
  "CUDA_PROVIDER_VENDOR = ''magnetar''"

definition cuda_provider_metadata_for :: "string \<Rightarrow> provider_metadata" where
  "cuda_provider_metadata_for name =
     \<lparr>pm_name = name, pm_version = CUDA_PROVIDER_VERSION, pm_vendor = CUDA_PROVIDER_VENDOR,
      pm_description = ''Optimized, GPU-executing Provider built on the CUDA driver API''\<rparr>"

record ('c, 'd) provider =
  p_metadata :: provider_metadata
  p_context :: "'c option"
  p_device :: "device_metadata option"
  p_executor :: "'d executor option"

definition discover_device ::
  "('c, 'd) cuda_host \<Rightarrow> usize \<Rightarrow> string \<Rightarrow> (cu_result, 'c \<times> device_metadata) host_call" where
  "discover_device H ordinal name =
     and_call (h_device_count H) (\<lambda>count.
     (if ordinal \<ge> (if 0 \<le> sint count then ucast count else 0) then Returned (Inl CUDA_ERROR_NO_DEVICE)
      else
        and_call (h_context H ordinal) (\<lambda>ctx.
        and_call (cuda_device_descriptor H ctx name) (\<lambda>dev.
        Returned (Inr (ctx, dev))))))"

text \<open>\<open>catch_unwind\<close>: a panic of the discovery is the error of a missing Device.\<close>

definition discover_device_catching_missing_library_panic ::
  "('c, 'd) cuda_host \<Rightarrow> usize \<Rightarrow> string \<Rightarrow> cu_result + ('c \<times> device_metadata)" where
  "discover_device_catching_missing_library_panic H ordinal name =
     (case discover_device H ordinal name of
        Returned r \<Rightarrow> r | Panicked \<Rightarrow> Inl CUDA_ERROR_NO_DEVICE)"

definition compile_kernels_catching_missing_library_panic ::
  "('c, 'd) cuda_host \<Rightarrow> 'c \<Rightarrow> 'd kernels option" where
  "compile_kernels_catching_missing_library_panic H ctx =
     (case compile_and_load H ctx of
        Returned (Inr ks) \<Rightarrow> Some ks | Returned (Inl _) \<Rightarrow> None | Panicked \<Rightarrow> None)"

definition for_device :: "('c, 'd) cuda_host \<Rightarrow> usize \<Rightarrow> string \<Rightarrow> ('c, 'd) provider" where
  "for_device H ordinal name =
     (case discover_device_catching_missing_library_panic H ordinal name of
        Inr (ctx, dev) \<Rightarrow>
          \<lparr>p_metadata = cuda_provider_metadata_for name, p_context = Some ctx, p_device = Some dev,
           p_executor = map_option (\<lambda>ks. new_executor ks (dev_id dev) name)
             (compile_kernels_catching_missing_library_panic H ctx)\<rparr>
      | Inl _ \<Rightarrow>
          \<lparr>p_metadata = cuda_provider_metadata_for name, p_context = None, p_device = None,
           p_executor = None\<rparr>)"

definition new_provider :: "('c, 'd) cuda_host \<Rightarrow> ('c, 'd) provider" where
  "new_provider H = for_device H 0 CUDA_PROVIDER_NAME"

section \<open>What it reports\<close>

datatype health = Available | Degraded | Unavailable

definition is_available :: "('c, 'd) provider \<Rightarrow> bool" where
  "is_available p \<longleftrightarrow> p_context p \<noteq> None"

definition provider_health :: "('c, 'd) provider \<Rightarrow> health" where
  "provider_health p =
     (if p_device p \<noteq> None then (if p_executor p \<noteq> None then Available else Degraded) else Unavailable)"

definition provider_devices :: "('c, 'd) provider \<Rightarrow> device_metadata list" where
  "provider_devices p = (case p_device p of Some dev \<Rightarrow> [dev] | None \<Rightarrow> [])"

definition kernel_advertisements :: "string \<Rightarrow> ('c, 'd) provider \<Rightarrow> advertisement list" where
  "kernel_advertisements banded p =
     (case p_device p of
        Some dev \<Rightarrow> cuda_kernel_advertisements banded (dev_id dev) (pm_name (p_metadata p))
      | None \<Rightarrow> [])"

definition execution_api :: "('c, 'd) provider \<Rightarrow> 'd executor option" where
  "execution_api p = p_executor p"

text \<open>C21. Construction is total: whatever the driver answers, and wherever it unwinds, a Provider is
  built that reports itself consistently. It is available exactly when it has an execution
  interface; it is unavailable exactly when it has no Device, and then it has no context, no
  executor and no advertised Kernel; and when it has a Device, that Device is the ordinal asked for,
  its Provider name, the executor's and the one of every advertised Kernel are the given name, and
  every Kernel is advertised on that Device, the one the executor runs on. A Provider that has a
  Device but no execution interface, because its Kernels did not compile, is degraded, as \<open>health()\<close>
  and its test have it. The doc comment of the field \<open>executor\<close> differs: it says that in this case
  \<open>health()\<close> still reports the hardware as found and \<open>execution_api()\<close> alone reports \<open>None\<close>.\<close>
theorem provider_is_consistent:
  assumes "\<And>o' c. h_context H o' = Returned (Inr c) \<Longrightarrow> h_ordinal H c = o'"
    and "p = for_device H ordinal name"
  shows "(provider_health p = Available \<longleftrightarrow> execution_api p \<noteq> None) \<and>
    (provider_health p = Unavailable \<longleftrightarrow> provider_devices p = []) \<and>
    (provider_health p = Degraded \<longleftrightarrow> provider_devices p \<noteq> [] \<and> execution_api p = None) \<and>
    (provider_devices p = [] \<longleftrightarrow> \<not> is_available p) \<and>
    (provider_devices p = [] \<longleftrightarrow> kernel_advertisements banded p = []) \<and>
    (provider_devices p = [] \<longrightarrow> execution_api p = None) \<and>
    (\<forall>dev \<in> set (provider_devices p). dev_id dev = cuda_device_id ordinal \<and> dev_provider dev = name \<and>
      (\<forall>x. execution_api p = Some x \<longrightarrow> device_id x = dev_id dev \<and> provider_name x = name) \<and>
      (\<forall>ad \<in> set (kernel_advertisements banded p).
        ad_devices ad = {dev_id dev} \<and> kid_provider (ad_id ad) = name))"
proof -
  have bound: "dev_id dev = cuda_device_id ordinal \<and> dev_provider dev = name"
    if "discover_device H ordinal name = Returned (Inr (ctx, dev))" for ctx dev
    using that assms(1)
    by (fastforce simp: discover_device_def cuda_device_descriptor_def and_call_def
        split: caught.splits sum.splits if_splits prod.splits)
  have some: "cuda_kernel_advertisements banded d n \<noteq> []" for d n
    by (simp add: cuda_kernel_advertisements_def)
  show ?thesis
  proof (cases "discover_device_catching_missing_library_panic H ordinal name")
    case (Inl e)
    then show ?thesis unfolding assms(2)
      by (simp add: for_device_def provider_health_def provider_devices_def execution_api_def
          is_available_def kernel_advertisements_def)
  next
    case (Inr r)
    obtain ctx dev where r: "r = (ctx, dev)" by (cases r)
    then have "discover_device H ordinal name = Returned (Inr (ctx, dev))"
      using Inr by (simp add: discover_device_catching_missing_library_panic_def split: caught.splits)
    from bound [OF this] show ?thesis using Inr some unfolding assms(2)
      by (auto simp: r for_device_def provider_health_def provider_devices_def execution_api_def
          is_available_def kernel_advertisements_def cuda_provider_metadata_for_def new_executor_def
          dest: advertised_binding)
  qed
qed

text \<open>A host with one Device whose NVRTC library is missing: compiling the Kernels unwinds.\<close>

definition demo_host :: "(usize, u64) cuda_host" where
  "demo_host = \<lparr>h_text = (\<lambda>_. ''CUDA error''), h_device_count = Returned (Inr 1),
     h_context = (\<lambda>ordinal. Returned (Inr ordinal)), h_ordinal = (\<lambda>c. c),
     h_name = (\<lambda>_. Returned (Inr ''Simulated'')), h_compute_capability = (\<lambda>_. Returned (Inr (8, 6))),
     h_total_mem = (\<lambda>_. Returned (Inr 4096)), h_multiprocessors = (\<lambda>_. Returned (Inr 2)),
     h_mem_info = (\<lambda>_. Returned (Inl CUDA_ERROR_INVALID_DEVICE)), h_compile_kernels = Panicked,
     h_compile_tensor_kernels = Panicked, h_load_module = (\<lambda>_ _. Returned (Inr ())),
     h_new_stream = (\<lambda>_. Returned (Inr ())), h_tensor_cores_env = None, h_device = (\<lambda>_. 1024)\<rparr>"

theorem provider_is_consistent_witness:
  "provider_health (new_provider demo_host) = Degraded \<and> execution_api (new_provider demo_host) = None \<and>
   map dev_id (provider_devices (new_provider demo_host)) = [''cuda:0''] \<and>
   kernel_advertisements ''banded'' (new_provider demo_host) \<noteq> [] \<and>
   provider_devices (for_device demo_host 1 ''magnetar:provider/cuda-1'') = []"
proof -
  have ordinal: "h_context demo_host o' = Returned (Inr c) \<Longrightarrow> h_ordinal demo_host c = o'" for o' c
    by (simp add: demo_host_def)
  have "map dev_id (provider_devices (new_provider demo_host)) = [''cuda:0'']"
    "execution_api (new_provider demo_host) = None"
    "provider_devices (for_device demo_host 1 ''magnetar:provider/cuda-1'') = []"
    by code_simp+
  moreover from this have "provider_devices (new_provider demo_host) \<noteq> []" by auto
  moreover have "provider_health p \<in> {Available, Degraded, Unavailable}" for p :: "(usize, u64) provider"
    by (cases "provider_health p") auto
  ultimately show ?thesis
    using provider_is_consistent [OF ordinal refl, of 0 CUDA_PROVIDER_NAME "''banded''"]
    by (fold new_provider_def) auto
qed

end
