(* ===== verification/Simulated_Executor.thy ===== *)
theory Simulated_Executor
  imports Executor_Dispatch Simulated_Device
begin

text \<open>
  A small executor over the simulated Device, for the concrete cases of the properties:
  two 1 x 2 buffers in storage, an output under \<open>''c''\<close>, and one captured step.
\<close>

definition demo_buffer :: "u64 \<Rightarrow> device_buffer" where
  "demo_buffer p = plain \<lparr>ptr = p, slen = 2\<rparr> [1, 2]"

definition demo_step :: captured_executor_step where
  "demo_step =
     \<lparr>cstep = \<lparr>graph = 1, step_offset = \<lparr>ptr = 8, slen = 1\<rparr>, step_max_offset = 5, step_has_embedding = False\<rparr>,
      captured = \<lparr>resources = [(''a'', 512, 2)], embedding_ids = []\<rparr>\<rparr>"

definition demo_executor :: "u64 executor" where
  "demo_executor = (new_executor (new_kernels 1024 False) ''cuda:0'' ''magnetar:provider/cuda'')
     \<lparr>storage := [''a'' \<mapsto> demo_buffer 512, ''b'' \<mapsto> demo_buffer 768, ''c'' \<mapsto> demo_buffer 256],
      captures := [''s'' \<mapsto> demo_step]\<rparr>"

definition demo_capture :: kernel_capture where
  "demo_capture = \<lparr>advancing = {''position_offset''}, cap_offset = \<lparr>ptr = 8, slen = 1\<rparr>, max_offset = - 1,
     failure = None, has_embedding = False\<rparr>"

definition demo_recording :: "u64 executor" where
  "demo_recording = demo_executor
     \<lparr>kernels := (kernels demo_executor)\<lparr>capture := Some demo_capture\<rparr>,
      step_recording := Some \<lparr>resources = [], embedding_ids = []\<rparr>\<rparr>"

definition demo_resource :: "string \<Rightarrow> resource" where
  "demo_resource name = \<lparr>rid = name, rdtype = Portable Float32, byte_size = Inr 8, affinity = ''any''\<rparr>"

definition demo_call :: "string \<Rightarrow> string \<Rightarrow> invocation" where
  "demo_call name out = \<lparr>inv_id = ''call-1'', kernel_name = name,
     inputs = [demo_resource ''a'', demo_resource ''b''], outputs = [demo_resource out],
     attributes = (\<lambda>_. None), deadline_millis = None\<rparr>"

definition demo_runtime :: runtime where
  "demo_runtime = \<lparr>rt_validate = (\<lambda>_. Inr ()), rt_banded = (\<lambda>_. Inr None), rt_handle_id = (\<lambda>_. ''handle'')\<rparr>"

lemmas demo_defs = demo_buffer_def demo_step_def demo_executor_def demo_capture_def demo_recording_def
  demo_resource_def demo_call_def demo_runtime_def

text \<open>The recorded calls of the simulated Device leave its state as it is.\<close>

lemma recorded_keeps_sim: "recorded_keeps sim P"
  by (simp add: recorded_keeps_def sim_def ret_def)

end
