(* ===== verification/Executor_Capture.thy ===== *)
theory Executor_Capture
  imports Simulated_Executor
begin

text \<open>
  Step capture and replay in \<open>src/executor.rs\<close>: \<open>begin_step_capture\<close>,
  \<open>end_step_capture\<close>, \<open>abort_step_capture\<close>, \<open>replay_step\<close> and
  \<open>release_step_capture\<close>.
\<close>

text \<open>A Kernel operation of a step capture, its error reported in a phase.\<close>

definition in_phase :: "execution_phase \<Rightarrow> ('d, 'a) kernel_op \<Rightarrow> ('d, execution_error, 'a) executor_op" where
  "in_phase p m = (\<lambda>x. map_err (\<lambda>e. step_capture_error x p (cuda_error_text e)) (kern m) x)"

definition begin_step_capture :: "'d external \<Rightarrow> string set \<Rightarrow> ('d, execution_error, unit) executor_op" where
  "begin_step_capture D attrs = (\<lambda>x.
     if step_recording x \<noteq> None then
       (Inl (step_capture_error x PhaseSubmit ''a step capture is already in progress''), x)
     else
       andthen (in_phase PhaseSubmit (begin_capture D attrs)) (\<lambda>_.
       modify (\<lambda>x. x\<lparr>step_recording := Some \<lparr>resources = [], embedding_ids = []\<rparr>\<rparr>)) x)"

definition add_capture :: "captured_step \<Rightarrow> recording \<Rightarrow> ('d, execution_error, string) executor_op" where
  "add_capture cs rc = (\<lambda>x.
     let name = provider_name x @ '':step-capture:'' @ decimal (next_capture x)
     in (Inr name, x\<lparr>next_capture := next_capture x + 1,
           captures := (captures x)(name \<mapsto> \<lparr>cstep = cs, captured = rc\<rparr>)\<rparr>))"

definition end_step_capture :: "'d external \<Rightarrow> ('d, execution_error, string) executor_op" where
  "end_step_capture D = (\<lambda>x.
     case step_recording x of
       None \<Rightarrow> (Inl (step_capture_error x PhaseComplete ''no step capture is in progress''), x)
     | Some rc \<Rightarrow>
         andthen (in_phase PhaseComplete (end_capture D)) (\<lambda>cs.
         andthen (in_phase PhaseComplete (launch_captured D cs 0)) (\<lambda>_.
         andthen (if step_has_embedding cs then in_phase PhaseComplete (check_embedding_flag D) else ret ()) (\<lambda>_.
         add_capture cs rc))) (x\<lparr>step_recording := None\<rparr>))"

definition abort_step_capture :: "'d external \<Rightarrow> ('d, cuda_error, unit) executor_op" where
  "abort_step_capture D =
     andthen (modify (\<lambda>x. x\<lparr>step_recording := None\<rparr>)) (\<lambda>_. kern (abort_capture D))"

definition release_step_capture :: "string \<Rightarrow> 'd executor \<Rightarrow> 'd executor" where
  "release_step_capture name x = x\<lparr>captures := (captures x)(name := None)\<rparr>"

section \<open>Replay\<close>

text \<open>\<open>ReplayPanic\<close> is the \<open>expect\<close> on an input's buffer; no replay reaches it.\<close>

datatype replay_error = Invalidated string | ReplayFailed execution_error | ReplayPanic

definition valid_token :: "u64 \<Rightarrow> f32 \<Rightarrow> bool" where
  "valid_token vocab v \<longleftrightarrow> f32_ge_zero v \<and> f32_is_integral v \<and> f32_as_u64 v < vocab"

definition still_captured :: "'d executor \<Rightarrow> string \<times> u64 \<times> usize \<Rightarrow> bool" where
  "still_captured x = (\<lambda>(name, addr, len).
     map_option (\<lambda>b. (address b, buffer_len b)) (storage x name) = Some (addr, len))"

fun check_inputs ::
  "'d executor \<Rightarrow> recording \<Rightarrow> (string \<times> host_tensor) list \<Rightarrow> replay_error + unit" where
  "check_inputs x rc [] = Inr ()"
| "check_inputs x rc ((name, tensor) # rest) =
     (if map_of (resources rc) name = None then
        Inl (Invalidated ''an input was not read by the captured step'')
      else if (case map_of (embedding_ids rc) name of
                 None \<Rightarrow> False
               | Some vocab \<Rightarrow> list_ex (\<lambda>v. \<not> valid_token vocab v) (tdata tensor)) then
        Inl (ReplayFailed (step_capture_error x PhaseSubmit
          ''embedding lookup id is not a valid in-range non-negative integer''))
      else check_inputs x rc rest)"

definition replay_call :: "('d, 'a) kernel_op \<Rightarrow> ('d, replay_error, 'a) executor_op" where
  "replay_call m = map_err ReplayFailed (in_phase PhaseSubmit m)"

fun write_inputs ::
  "'d external \<Rightarrow> (string \<times> host_tensor) list \<Rightarrow> ('d, replay_error, unit) executor_op" where
  "write_inputs D [] = ret ()"
| "write_inputs D ((name, tensor) # rest) =
     andthen (gets storage) (\<lambda>st.
     (case st name of
        None \<Rightarrow> throw ReplayPanic
      | Some b \<Rightarrow>
          andthen (replay_call (write_into D b (tdata tensor))) (\<lambda>_.
          write_inputs D rest)))"

definition replay_step ::
  "'d external \<Rightarrow> string \<Rightarrow> u64 \<Rightarrow> (string \<times> host_tensor) list \<Rightarrow> ('d, replay_error, unit) executor_op" where
  "replay_step D name offset ins = (\<lambda>x.
     case captures x name of
       None \<Rightarrow> (Inl (Invalidated ''no step capture''), x)
     | Some c \<Rightarrow>
         if offset > step_max_offset (cstep c) then
           (Inl (Invalidated ''offset leaves the captured bounds''), x)
         else if \<not> list_all (still_captured x) (resources (captured c)) then
           (Inl (Invalidated ''a resource no longer has its captured storage''), x)
         else
           andthen (lift (check_inputs x (captured c) ins)) (\<lambda>_.
           andthen (write_inputs D ins) (\<lambda>_.
           replay_call (launch_captured D (cstep c) offset))) x)"

section \<open>What the operations leave alone\<close>

text \<open>Running a Kernel operation changes the Kernels' own state only.\<close>

definition only_kernels :: "'d executor \<Rightarrow> 'd executor \<Rightarrow> bool" where
  "only_kernels x y \<longleftrightarrow> y = x\<lparr>kernels := kernels y\<rparr>"

interpretation ok: frame only_kernels
  by unfold_locales (auto simp: only_kernels_def, metis executor.surjective executor.update_convs(1))

lemma only_kernels_fields:
  assumes "only_kernels x y"
  shows "storage y = storage x" "captures y = captures x" "step_recording y = step_recording x"
    "device_id y = device_id x" "provider_name y = provider_name x" "observations y = observations x"
    "submitted y = submitted x" "kernel_executions y = kernel_executions x"
    "resource_allocations y = resource_allocations x" "next_capture y = next_capture x"
    "next_execution_ordinal y = next_execution_ordinal x"
  by (subst assms [unfolded only_kernels_def], simp)+

lemma keeps_kern: "keeps only_kernels (kern m)"
  by (simp add: keeps_def only_kernels_def kern_def inside_def split: prod.splits)

lemma keeps_in_phase: "keeps only_kernels (in_phase p m)"
  using ok.keeps_map_err [OF keeps_kern, of _ m] by (auto simp: keeps_def in_phase_def)

lemma keeps_replay_call: "keeps only_kernels (replay_call m)"
  unfolding replay_call_def by (rule ok.keeps_map_err keeps_in_phase)+

lemma keeps_write_inputs: "keeps only_kernels (write_inputs D ins)"
proof (induction ins)
  case Nil
  then show ?case by (simp add: ok.keeps_ret)
next
  case (Cons i ins)
  then show ?case
    by (cases i) (simp, (rule ok.keeps_basic keeps_option keeps_replay_call | assumption)+)
qed

section \<open>Replay is guarded\<close>

lemma check_inputs_Inr:
  "check_inputs x rc ins = Inr u \<Longrightarrow> (name, tensor) \<in> set ins \<Longrightarrow>
    (\<exists>v. map_of (resources rc) name = Some v) \<and>
    (\<forall>vocab. map_of (embedding_ids rc) name = Some vocab \<longrightarrow> list_all (valid_token vocab) (tdata tensor))"
proof (induction ins)
  case Nil
  then show ?case by simp
next
  case (Cons i ins)
  obtain n t where i: "i = (n, t)" by (cases i)
  have rest: "check_inputs x rc ins = Inr u" and known: "map_of (resources rc) n \<noteq> None"
    and ids: "\<not> (case map_of (embedding_ids rc) n of None \<Rightarrow> False
      | Some vocab \<Rightarrow> list_ex (\<lambda>v. \<not> valid_token vocab v) (tdata t))"
    using Cons.prems(1) by (simp_all add: i split: if_splits)
  show ?case
  proof (cases "(name, tensor) = (n, t)")
    case True
    then show ?thesis using known ids by (auto simp: list_ex_iff list_all_iff)
  next
    case False
    then show ?thesis using Cons.IH [OF rest] Cons.prems(2) i by auto
  qed
qed

lemma check_inputs_no_panic: "check_inputs x rc ins \<noteq> Inl ReplayPanic"
  by (induction x rc ins rule: check_inputs.induct) auto

lemma write_inputs_error:
  assumes "write_inputs D ins x = (Inl e, x')" "\<And>name tensor. (name, tensor) \<in> set ins \<Longrightarrow> storage x name \<noteq> None"
  shows "\<exists>f. e = ReplayFailed f"
  using assms
proof (induction ins arbitrary: x)
  case Nil
  then show ?case by (simp add: ret_def)
next
  case (Cons i ins)
  obtain name tensor where i: "i = (name, tensor)" by (cases i)
  obtain b where b: "storage x name = Some b" using Cons.prems(2) i by fastforce
  obtain r y where w: "replay_call (write_into D b (tdata tensor)) x = (r, y)" by fastforce
  have y: "storage y = storage x"
    using only_kernels_fields(1) [OF keepsD [OF keeps_replay_call w]] .
  show ?case
  proof (cases r)
    case (Inl f)
    then have "e = f" using Cons.prems(1) w b by (simp add: i andthen_def gets_def)
    moreover have "\<exists>g. f = ReplayFailed g"
      using w Inl by (auto simp: replay_call_def map_err_def split: prod.splits sum.splits)
    ultimately show ?thesis by simp
  next
    case (Inr u)
    then have "write_inputs D ins y = (Inl e, x')" using Cons.prems(1) w b by (simp add: i andthen_def gets_def)
    then show ?thesis
    proof (rule Cons.IH)
      fix n t assume "(n, t) \<in> set ins"
      then show "storage y n \<noteq> None" using Cons.prems(2) [of n t] y by simp
    qed
  qed
qed

text \<open>C14. A replay runs only inside what was captured. It returns successfully only for a known
  capture, an offset within the capture's bound, every captured resource still at its captured
  address and length, and token inputs that are valid rows of their embedding table; a replay
  reported invalidated left the executor as it was; the \<open>expect\<close> on an input's buffer is
  never reached; and no replay touches anything but the Kernels' own state.\<close>
theorem replay_step_guarded:
  assumes run: "replay_step D name offset ins x = (r, x')"
  shows "only_kernels x x' \<and> r \<noteq> Inl ReplayPanic \<and> ((\<exists>why. r = Inl (Invalidated why)) \<longrightarrow> x' = x) \<and>
    (r = Inr () \<longrightarrow> (\<exists>c. captures x name = Some c \<and> offset \<le> step_max_offset (cstep c) \<and>
       list_all (still_captured x) (resources (captured c)) \<and>
       (\<forall>(input, tensor) \<in> set ins. (\<exists>v. map_of (resources (captured c)) input = Some v) \<and>
          (\<forall>vocab. map_of (embedding_ids (captured c)) input = Some vocab \<longrightarrow>
             list_all (valid_token vocab) (tdata tensor)))))"
proof (cases "captures x name")
  case None
  then show ?thesis using run by (auto simp: replay_step_def only_kernels_def)
next
  case (Some c)
  let ?ok = "offset \<le> step_max_offset (cstep c) \<and> list_all (still_captured x) (resources (captured c))"
  show ?thesis
  proof (cases "?ok \<and> check_inputs x (captured c) ins = Inr ()")
    case False
    then have "x' = x \<and> (\<exists>e. r = Inl e \<and> e \<noteq> ReplayPanic)"
    proof (cases ?ok)
      case True
      then obtain e where e: "check_inputs x (captured c) ins = Inl e"
        using False by (cases "check_inputs x (captured c) ins") auto
      then have "e \<noteq> ReplayPanic" using check_inputs_no_panic by metis
      moreover have "replay_step D name offset ins x = (Inl e, x)"
        using Some True e by (simp add: replay_step_def andthen_def lift_def leD)
      ultimately show ?thesis using run by simp
    qed (use run Some in \<open>auto simp: replay_step_def not_le split: if_splits\<close>)
    then show ?thesis by (auto simp: only_kernels_def)
  next
    case True
    then have rest: "andthen (write_inputs D ins) (\<lambda>_. replay_call (launch_captured D (cstep c) offset)) x = (r, x')"
      using run Some by (simp add: replay_step_def andthen_def lift_def leD)
    have "keeps only_kernels (andthen (write_inputs D ins) (\<lambda>_. replay_call (launch_captured D (cstep c) offset)))"
      by (rule ok.keeps_andthen keeps_write_inputs keeps_replay_call)+
    from keepsD [OF this rest] have keep: "only_kernels x x'" .
    have present: "storage x input \<noteq> None" if "(input, tensor) \<in> set ins" for input tensor
    proof -
      from check_inputs_Inr [OF _ that, of x "captured c" "()"] True
      obtain a l where "map_of (resources (captured c)) input = Some (a, l)" by auto
      then have "(input, a, l) \<in> set (resources (captured c))" by (rule map_of_SomeD)
      then show ?thesis using True by (fastforce simp: list_all_iff still_captured_def)
    qed
    have err: "\<exists>f. e = ReplayFailed f" if "r = Inl e" for e
    proof -
      obtain q y where w: "write_inputs D ins x = (q, y)" by fastforce
      show ?thesis
      proof (cases q)
        case (Inl f)
        then show ?thesis using rest w that write_inputs_error [of D ins x f y] present
          by (auto simp: andthen_def)
      next
        case (Inr u)
        then show ?thesis using rest w that
          by (auto simp: andthen_def replay_call_def map_err_def split: prod.splits sum.splits)
      qed
    qed
    show ?thesis using keep err True Some check_inputs_Inr [of x "captured c" ins "()"] by fastforce
  qed
qed

theorem replay_step_guarded_witness:
  "fst (replay_step sim ''s'' 3 [(''a'', \<lparr>tshape = [1, 2], tdata = [0, 0]\<rparr>)] demo_executor) = Inr () \<and>
   (\<exists>c. captures demo_executor ''s'' = Some c \<and> 3 \<le> step_max_offset (cstep c))"
proof -
  let ?ins = "[(''a'', \<lparr>tshape = [1, 2], tdata = [0, 0]\<rparr>)]"
  have run: "fst (replay_step sim ''s'' 3 ?ins demo_executor) = Inr ()"
    by code_simp
  show ?thesis
    using replay_step_guarded [of sim "''s''" 3 ?ins demo_executor, OF prod.collapse [symmetric]] run by auto
qed

end
