(* ===== verification/Executor_Memory.thy ===== *)
theory Executor_Memory
  imports Executor_Capture
begin

text \<open>
  The tensor storage of \<open>src/executor.rs\<close>, and its admission through the Runtime's
  Memory Manager. The Memory Manager is not in this repository: it is the parameter
  \<open>'m memory\<close> over its own state, and an admitted operation runs on the pair of the
  executor's state and the manager's.
\<close>

section \<open>Plain tensor operations\<close>

definition write_weight_tensor :: "'d external \<Rightarrow> string \<Rightarrow> host_tensor \<Rightarrow> ('d, cuda_error, unit) executor_op" where
  "write_weight_tensor D name tensor =
     andthen (kern (upload_weight D tensor)) (\<lambda>buffer. modify (set_storage name buffer))"

definition write_tensor :: "'d external \<Rightarrow> string \<Rightarrow> host_tensor \<Rightarrow> ('d, cuda_error, unit) executor_op" where
  "write_tensor D name tensor =
     andthen (kern (upload D tensor)) (\<lambda>buffer. modify (set_storage name buffer))"

text \<open>The reads return \<open>None\<close> for a resource that is not there or cannot be downloaded.\<close>

definition read_tensor :: "'d external \<Rightarrow> string \<Rightarrow> 'd executor \<Rightarrow> host_tensor option \<times> 'd executor" where
  "read_tensor D name x =
     (case storage x name of
        None \<Rightarrow> (None, x)
      | Some b \<Rightarrow> (case kern (download D b) x of (Inr t, x) \<Rightarrow> (Some t, x) | (Inl _, x) \<Rightarrow> (None, x)))"

definition release_tensor :: "string \<Rightarrow> 'd executor \<Rightarrow> bool \<times> 'd executor" where
  "release_tensor name x = (storage x name \<noteq> None, drop_storage name x)"

definition resident_shape :: "string \<Rightarrow> 'd executor \<Rightarrow> u64 list option" where
  "resident_shape name x = map_option shape (storage x name)"

datatype tensor_value = HostValue host_tensor | OpaqueValue

definition read_tensor_value :: "string \<Rightarrow> 'd executor \<Rightarrow> tensor_value option" where
  "read_tensor_value name x = (if storage x name \<noteq> None then Some OpaqueValue else None)"

definition opaque_passthrough_error :: "'d executor \<Rightarrow> execution_error" where
  "opaque_passthrough_error x =
     materialization_error x ''no existing device allocation for opaque resource''"

definition materializing :: "string \<Rightarrow> ('d, cuda_error, 'a) executor_op \<Rightarrow> ('d, execution_error, 'a) executor_op" where
  "materializing what m = (\<lambda>x. map_err (\<lambda>e. materialization_error x (what @ cuda_error_text e)) m x)"

definition write_tensor_value ::
  "'d external \<Rightarrow> string \<Rightarrow> tensor_value \<Rightarrow> ('d, execution_error, unit) executor_op" where
  "write_tensor_value D name val =
     (case val of
        HostValue tensor \<Rightarrow> materializing ''CUDA device upload failed: '' (write_tensor D name tensor)
      | OpaqueValue \<Rightarrow> (\<lambda>x. if storage x name \<noteq> None then (Inr (), x)
                            else (Inl (opaque_passthrough_error x), x)))"

definition write_zeroed_tensor ::
  "'d external \<Rightarrow> string \<Rightarrow> u64 list \<Rightarrow> ('d, execution_error, unit) executor_op" where
  "write_zeroed_tensor D name sh =
     andthen (materializing ''CUDA zeroed allocation failed: '' (kern (zeros D sh))) (\<lambda>buffer.
     modify (set_storage name buffer))"

text \<open>
  \<open>slice::get(start..end)\<close>: \<open>None\<close> for a range that is reversed or past the end.
\<close>

definition get_range :: "'a list \<Rightarrow> usize \<Rightarrow> usize \<Rightarrow> 'a list option" where
  "get_range xs start stop =
     (if start \<le> stop \<and> unat stop \<le> length xs
      then Some (take (unat stop - unat start) (drop (unat start) xs)) else None)"

definition whole_rows :: "'d external \<Rightarrow> u64 \<Rightarrow> u64 \<Rightarrow> host_tensor \<Rightarrow> host_tensor option" where
  "whole_rows D first_row rows whole =
     (case tshape whole of
        [_, columns] \<Rightarrow>
          (let start = first_row * columns; stop = (first_row + rows) * columns
           in case get_range (tdata whole) start stop of
                None \<Rightarrow> None
              | Some data \<Rightarrow> (case host_new D [rows, columns] data of Inl _ \<Rightarrow> None | Inr t \<Rightarrow> Some t))
      | _ \<Rightarrow> None)"

definition read_tensor_rows ::
  "'d external \<Rightarrow> string \<Rightarrow> u64 \<Rightarrow> u64 \<Rightarrow> 'd executor \<Rightarrow> host_tensor option \<times> 'd executor" where
  "read_tensor_rows D name first_row rows x =
     (case storage x name of
        None \<Rightarrow> (None, x)
      | Some b \<Rightarrow>
          (case kern (download_rows D b first_row rows) x of
             (Inr (Some t), x) \<Rightarrow> (Some t, x)
           | (Inr None, x) \<Rightarrow>
               (case kern (download D b) x of
                  (Inr whole, x) \<Rightarrow> (whole_rows D first_row rows whole, x)
                | (Inl _, x) \<Rightarrow> (None, x))
           | (Inl _, x) \<Rightarrow> (None, x)))"

definition select_greedy_column ::
  "'d external \<Rightarrow> string \<Rightarrow> u64 \<Rightarrow> (u64 \<times> u64) list \<Rightarrow> f32 \<Rightarrow> 'd executor \<Rightarrow> u64 option \<times> 'd executor" where
  "select_greedy_column D logits row excluded temperature x =
     (case storage x logits of
        None \<Rightarrow> (None, x)
      | Some b \<Rightarrow>
          (case kern (greedy_select D b row excluded temperature) x of
             (Inr col, x) \<Rightarrow> (col, x) | (Inl _, x) \<Rightarrow> (None, x)))"

section \<open>The Memory Manager\<close>

datatype memory_error = AllocationDenied string | OtherMemoryError string

record alloc_request =
  alloc_class :: string
  alloc_bytes :: u64
  alloc_device :: string
  alloc_owner :: string
  alloc_affinity :: "string option"

text \<open>\<open>mm_residency\<close>: no record, or a record with its allocation if it has one.\<close>

record 'm memory =
  mm_allocate :: "alloc_request \<Rightarrow> ('m, memory_error, u64) exec"
  mm_release :: "u64 \<Rightarrow> 'm \<Rightarrow> 'm"
  mm_residency :: "string \<Rightarrow> 'm \<Rightarrow> u64 option option"
  mm_record :: "string \<Rightarrow> string \<Rightarrow> string \<Rightarrow> u64 \<Rightarrow> 'm \<Rightarrow> 'm"

type_synonym ('d, 'm, 'e, 'a) admitted_op = "('d executor \<times> 'm, 'e, 'a) exec"

definition on_executor :: "('d, 'e, 'a) executor_op \<Rightarrow> ('d, 'm, 'e, 'a) admitted_op" where
  "on_executor m = inside fst (\<lambda>x (_, mem). (x, mem)) m"

definition on_memory :: "('m, 'e, 'a) exec \<Rightarrow> ('d, 'm, 'e, 'a) admitted_op" where
  "on_memory m = inside snd (\<lambda>mem (x, _). (x, mem)) m"

text \<open>Record an allocation as a resource's own, releasing the one it replaces.\<close>

definition own_allocation :: "'m memory \<Rightarrow> string \<Rightarrow> u64 \<Rightarrow> 'd executor \<times> 'm \<Rightarrow> 'd executor \<times> 'm" where
  "own_allocation M name aid = (\<lambda>(x, mem).
     (x\<lparr>resource_allocations := (resource_allocations x)(name \<mapsto> aid)\<rparr>,
      case resource_allocations x name of Some previous \<Rightarrow> mm_release M previous mem | None \<Rightarrow> mem))"

definition tensor_request :: "'d executor \<Rightarrow> string \<Rightarrow> u64 \<Rightarrow> string \<Rightarrow> alloc_request" where
  "tensor_request x class_name bytes owner =
     \<lparr>alloc_class = class_name, alloc_bytes = bytes, alloc_device = device_id x, alloc_owner = owner,
      alloc_affinity = None\<rparr>"

section \<open>Admitted tensor operations\<close>

definition release_admitted_tensor ::
  "'m memory \<Rightarrow> string \<Rightarrow> 'd executor \<times> 'm \<Rightarrow> bool \<times> 'd executor \<times> 'm" where
  "release_admitted_tensor M name = (\<lambda>(x, mem).
     let mem = (case resource_allocations x name of Some a \<Rightarrow> mm_release M a mem | None \<Rightarrow> mem);
         x = x\<lparr>resource_allocations := (resource_allocations x)(name := None)\<rparr>
     in (storage x name \<noteq> None, drop_storage name x, mem))"

definition write_tensor_admitted ::
  "'d external \<Rightarrow> 'm memory \<Rightarrow> string \<Rightarrow> host_tensor \<Rightarrow> string \<Rightarrow> string \<Rightarrow>
   ('d, 'm, memory_error, unit) admitted_op" where
  "write_tensor_admitted D M name tensor class_name owner =
     andthen (gets fst) (\<lambda>x.
     andthen (on_memory (mm_allocate M (tensor_request x class_name (data_len (tdata tensor) * 4) owner))) (\<lambda>aid.
     (\<lambda>(x, mem). case kern (upload D tensor) x of
        (Inl e, x) \<Rightarrow>
          (Inl (AllocationDenied (''CUDA device upload failed: '' @ cuda_error_text e)), x, mm_release M aid mem)
      | (Inr buffer, x) \<Rightarrow>
          (case own_allocation M name aid (x, mem) of
             (x, mem) \<Rightarrow> (Inr (), set_storage name buffer x, mem)))))"

datatype admission_error = MemoryErr memory_error | ProviderErr execution_error

definition write_tensor_value_admitted ::
  "'d external \<Rightarrow> 'm memory \<Rightarrow> string \<Rightarrow> tensor_value \<Rightarrow> string \<Rightarrow> string \<Rightarrow>
   ('d, 'm, admission_error, unit) admitted_op" where
  "write_tensor_value_admitted D M name val class_name owner =
     (case val of
        HostValue tensor \<Rightarrow> map_err MemoryErr (write_tensor_admitted D M name tensor class_name owner)
      | OpaqueValue \<Rightarrow> (\<lambda>(x, mem). if storage x name \<noteq> None then (Inr (), x, mem)
                            else (Inl (ProviderErr (opaque_passthrough_error x)), x, mem)))"

text \<open>Both copies: a clone of a buffer (this executor's or a peer's), admitted under a name.\<close>

definition copy_admitted ::
  "'d external \<Rightarrow> 'm memory \<Rightarrow> string \<Rightarrow> string \<Rightarrow> device_buffer option \<Rightarrow> string \<Rightarrow> string \<Rightarrow> string \<Rightarrow>
   ('d, 'm, admission_error, u64) admitted_op" where
  "copy_admitted D M missing failed source target class_name owner =
     andthen (on_executor (\<lambda>x. case source of
         None \<Rightarrow> (Inl (ProviderErr (materialization_error x missing)), x)
       | Some b \<Rightarrow> map_err ProviderErr (materializing failed (kern (clone_buffer D b))) x)) (\<lambda>cloned.
     andthen (gets fst) (\<lambda>x.
     andthen (map_err MemoryErr (on_memory (mm_allocate M
        (tensor_request x class_name (buffer_len cloned * 4) owner)))) (\<lambda>aid.
     andthen (modify (own_allocation M target aid)) (\<lambda>_.
     andthen (on_executor (modify (set_storage target cloned))) (\<lambda>_.
     ret aid)))))"

definition copy_tensor_admitted ::
  "'d external \<Rightarrow> 'm memory \<Rightarrow> string \<Rightarrow> string \<Rightarrow> string \<Rightarrow> string \<Rightarrow>
   ('d, 'm, admission_error, u64) admitted_op" where
  "copy_tensor_admitted D M source target class_name owner =
     (\<lambda>(x, mem). copy_admitted D M
        (''copy_tensor_admitted: no existing device allocation for '' @ CHR 0x27 # source @ [CHR 0x27])
        ''copy_tensor_admitted: device-to-device copy failed: ''
        (storage x source) target class_name owner (x, mem))"

definition copy_tensor_from_peer_admitted ::
  "'d external \<Rightarrow> 'm memory \<Rightarrow> 'd executor \<Rightarrow> string \<Rightarrow> string \<Rightarrow> string \<Rightarrow> string \<Rightarrow>
   ('d, 'm, admission_error, u64) admitted_op" where
  "copy_tensor_from_peer_admitted D M peer peer_name name class_name owner =
     copy_admitted D M
       (''copy_tensor_from_peer_admitted: no existing device allocation for '' @ CHR 0x27 # peer_name @
          CHR 0x27 # '' on the peer Device'')
       ''copy_tensor_from_peer_admitted: real peer device-to-device copy failed: ''
       (storage peer peer_name) name class_name owner"

section \<open>Admitted invocations\<close>

definition release_all :: "'m memory \<Rightarrow> (string \<times> u64) list \<Rightarrow> 'm \<Rightarrow> 'm" where
  "release_all M admitted mem = foldl (\<lambda>mem (_, aid). mm_release M aid mem) mem admitted"

text \<open>Drop the Provider's own entry of a resource the caller admitted.\<close>

definition drop_stale :: "'m memory \<Rightarrow> string \<Rightarrow> 'd executor \<times> 'm \<Rightarrow> 'd executor \<times> 'm" where
  "drop_stale M name = (\<lambda>(x, mem).
     (x\<lparr>resource_allocations := (resource_allocations x)(name := None)\<rparr>,
      case resource_allocations x name of Some stale \<Rightarrow> mm_release M stale mem | None \<Rightarrow> mem))"

definition preadmitted_output :: "'m memory \<Rightarrow> string \<Rightarrow> 'd executor \<times> 'm \<Rightarrow> bool" where
  "preadmitted_output M name = (\<lambda>(x, mem).
     case mm_residency M name mem of
       None \<Rightarrow> False | Some resident \<Rightarrow> resident \<noteq> resource_allocations x name)"

definition output_request :: "'d executor \<Rightarrow> resource \<Rightarrow> u64 \<Rightarrow> alloc_request" where
  "output_request x r bytes =
     \<lparr>alloc_class = ''Tensor'', alloc_bytes = bytes, alloc_device = device_id x,
      alloc_owner = provider_name x, alloc_affinity = Some (affinity r)\<rparr>"

fun admit_outputs ::
  "'m memory \<Rightarrow> invocation \<Rightarrow> resource list \<Rightarrow> (string \<times> u64) list \<Rightarrow> string list \<Rightarrow>
   ('d, 'm, kernel_error, (string \<times> u64) list \<times> string list) admitted_op" where
  "admit_outputs M call [] admitted held = ret (admitted, held)"
| "admit_outputs M call (r # rest) admitted held = (\<lambda>s.
     if preadmitted_output M (rid r) s then
       admit_outputs M call rest admitted (rid r # held) (drop_stale M (rid r) s)
     else
       (case byte_size r of
          Inl e \<Rightarrow> (Inl (KernelExecutionFailed ''cannot admit output: invalid tensor descriptor''),
                   fst s, release_all M admitted (snd s))
        | Inr bytes \<Rightarrow>
            (case mm_allocate M (output_request (fst s) r bytes) (snd s) of
               (Inr aid, mem) \<Rightarrow> admit_outputs M call rest (admitted @ [(rid r, aid)]) held (fst s, mem)
             | (Inl e, mem) \<Rightarrow>
                 (Inl (KernelExecutionFailed ''memory admission denied for output''),
                  observe MemoryFeasibilityFailed call (fst s), release_all M admitted mem))))"

definition settle_output ::
  "'m memory \<Rightarrow> (string \<times> u64) list \<Rightarrow> string list \<Rightarrow> resource \<Rightarrow> 'd executor \<times> 'm \<Rightarrow> 'd executor \<times> 'm" where
  "settle_output M admitted held r s =
     (if rid r \<in> set held then s
      else (case map_of admitted (rid r) of
              None \<Rightarrow> s
            | Some aid \<Rightarrow>
                own_allocation M (rid r) aid
                  (fst s, mm_record M (rid r) (device_id (fst s)) (affinity r) aid (snd s))))"

definition execute_invocation_with_memory_manager ::
  "'d external \<Rightarrow> runtime \<Rightarrow> 'm memory \<Rightarrow> invocation \<Rightarrow> 'd executor \<times> 'm \<Rightarrow>
   kernel_result \<times> 'd executor \<times> 'm" where
  "execute_invocation_with_memory_manager D R M call s =
     (case admit_outputs M call (outputs call) [] [] s of
        (Inl error, s) \<Rightarrow> (result_failure call error, s)
      | (Inr (admitted, held), x, mem) \<Rightarrow>
          (case execute_invocation D R call x of
             (result, x) \<Rightarrow>
               (case result_outcome result of
                  Failed _ \<Rightarrow> (result, x, release_all M admitted mem)
                | Succeeded updated \<Rightarrow>
                    (result, foldl (\<lambda>s r. settle_output M admitted held r s) (x, mem) updated))))"

section \<open>A Memory Manager for the concrete cases\<close>

text \<open>Its state is the list of its live allocations; a new one gets the first free id.\<close>

definition demo_memory :: "u64 list memory" where
  "demo_memory = \<lparr>
     mm_allocate = (\<lambda>_ held. case find (\<lambda>a. a \<notin> set held) (map of_nat [0..<Suc (length held)]) of
         Some a \<Rightarrow> (Inr a, a # held) | None \<Rightarrow> (Inl (AllocationDenied ''full''), held)),
     mm_release = (\<lambda>a. filter (\<lambda>b. b \<noteq> a)), mm_residency = (\<lambda>_ _. None), mm_record = (\<lambda>_ _ _ _ held. held)\<rparr>"

end
