(* ===== verification/Executor_Api.thy ===== *)
theory Executor_Api
  imports Executor_Memory
begin

text \<open>
  The \<open>ProviderExecutionApi\<close> of \<open>src/executor.rs\<close>: plain submissions, Kernel
  submissions, and the trait's own wrappers of the tensor writes.
\<close>

section \<open>Plain submissions\<close>

definition handle_of :: "runtime \<Rightarrow> execution_request \<Rightarrow> execution_handle" where
  "handle_of R request =
     \<lparr>handle_id = rt_handle_id R request, handle_operation = operation request,
      handle_plan = plan_id request, handle_provider = req_provider request,
      handle_device = req_device request\<rparr>"

definition submit :: "runtime \<Rightarrow> execution_request \<Rightarrow> ('d, execution_error, execution_handle) executor_op" where
  "submit R request =
     (let handle = handle_of R request
      in andthen (modify (\<lambda>x. x\<lparr>submitted := (submitted x)(handle_id handle \<mapsto> request)\<rparr>)) (\<lambda>_. ret handle))"

definition handle_error :: "execution_phase \<Rightarrow> execution_handle \<Rightarrow> string \<Rightarrow> execution_error" where
  "handle_error p handle text =
     \<lparr>ecode = CodeExecutionFailed, phase = p, eprovider = handle_provider handle,
      edevice = handle_device handle, edetail = text\<rparr>"

text \<open>A submission is executed when it is submitted, so a known one is completed.\<close>

definition status :: "execution_handle \<Rightarrow> ('d, execution_error, execution_handle) executor_op" where
  "status handle =
     andthen (gets submitted) (\<lambda>sub.
     andthen (ensure (sub (handle_id handle) \<noteq> None)
       (handle_error PhaseObserve handle ''no submission is associated with this handle'')) (\<lambda>_.
     ret handle))"

datatype cancellation = CancelUnsupported

definition cancel :: "execution_handle \<Rightarrow> ('d, execution_error, cancellation) executor_op" where
  "cancel handle = ret CancelUnsupported"

definition complete :: "execution_handle \<Rightarrow> ('d, execution_error, execution_handle) executor_op" where
  "complete handle =
     andthen (gets submitted) (\<lambda>sub.
     andthen (modify (\<lambda>x. x\<lparr>submitted := (submitted x)(handle_id handle := None)\<rparr>)) (\<lambda>_.
     andthen (ensure (sub (handle_id handle) \<noteq> None)
       (handle_error PhaseComplete handle ''no submission is associated with this handle'')) (\<lambda>_.
     ret handle)))"

definition release :: "execution_handle \<Rightarrow> ('d, execution_error, unit) executor_op" where
  "release handle = modify (\<lambda>x. x\<lparr>submitted := (submitted x)(handle_id handle := None)\<rparr>)"

section \<open>Kernel submissions\<close>

definition submit_kernel_invocation ::
  "'d external \<Rightarrow> runtime \<Rightarrow> 'm memory \<Rightarrow> invocation \<Rightarrow> 'd executor \<times> 'm \<Rightarrow>
   execution_handle \<times> 'd executor \<times> 'm" where
  "submit_kernel_invocation D R M call = (\<lambda>(x, mem).
     let (execution_id, x) = next_provider_execution_id (inv_id call) x;
         handle = \<lparr>handle_id = execution_id, handle_operation = next_execution_ordinal x,
                   handle_plan = inv_id call, handle_provider = provider_name x,
                   handle_device = Some (device_id x)\<rparr>
     in case execute_invocation_with_memory_manager D R M call (x, mem) of
          (result, x, mem) \<Rightarrow>
            (handle, x\<lparr>kernel_executions := (kernel_executions x)(execution_id \<mapsto> result)\<rparr>, mem))"

definition complete_kernel_invocation ::
  "execution_handle \<Rightarrow> ('d, execution_error, kernel_result) executor_op" where
  "complete_kernel_invocation handle =
     andthen (gets kernel_executions) (\<lambda>results.
     andthen (modify (\<lambda>x. x\<lparr>kernel_executions := (kernel_executions x)(handle_id handle := None)\<rparr>)) (\<lambda>_.
     (case results (handle_id handle) of
        Some result \<Rightarrow> ret result
      | None \<Rightarrow> throw (handle_error PhaseComplete handle
          ''no Kernel execution is associated with this handle''))))"

section \<open>The trait's tensor writes\<close>

definition api_write_tensor :: "'d external \<Rightarrow> string \<Rightarrow> host_tensor \<Rightarrow> ('d, execution_error, unit) executor_op" where
  "api_write_tensor D name tensor =
     materializing ''CUDA device upload failed: '' (write_tensor D name tensor)"

definition api_write_weight_tensor ::
  "'d external \<Rightarrow> string \<Rightarrow> host_tensor \<Rightarrow> ('d, execution_error, unit) executor_op" where
  "api_write_weight_tensor D name tensor =
     materializing ''CUDA device upload failed: '' (write_weight_tensor D name tensor)"

definition api_write_zeroed_tensor ::
  "'d external \<Rightarrow> string \<Rightarrow> u64 list \<Rightarrow> ('d, execution_error, bool) executor_op" where
  "api_write_zeroed_tensor D name sh = andthen (write_zeroed_tensor D name sh) (\<lambda>_. ret True)"

end
