(* ===== verification/Kernel_In_Place.thy ===== *)
theory Kernel_In_Place
  imports Kernel_Attention
begin

text \<open>
  What a Kernel does with the offered output buffer while a step is being captured: the only
  memory it can write its result to is the buffer offered to it, because every allocation is
  refused. A captured step therefore keeps writing to the storage it was captured with.
\<close>

section \<open>Where a captured computation puts its result\<close>

text \<open>The capture is still open after an operation, and no failure was noted in it.\<close>

definition noted :: "'d kernels \<Rightarrow> string option" where
  "noted k = (case capture k of None \<Rightarrow> None | Some c \<Rightarrow> failure c)"

definition goes_on :: "'d kernels \<Rightarrow> 'd kernels \<Rightarrow> bool" where
  "goes_on k k' \<longleftrightarrow> is_capturing k' \<and> noted k' = noted k"

lemma goes_on_refl: "is_capturing k \<Longrightarrow> goes_on k k"
  by (simp add: goes_on_def)

lemma goes_on_trans: "goes_on k k1 \<Longrightarrow> goes_on k1 k2 \<Longrightarrow> goes_on k k2"
  by (simp add: goes_on_def)

lemma goes_on_open: "goes_on k k' \<Longrightarrow> is_capturing k'"
  by (simp add: goes_on_def)

lemma goes_on_same: "is_capturing k \<Longrightarrow> capture k' = capture k \<Longrightarrow> goes_on k k'"
  by (simp add: goes_on_def is_capturing_def noted_def)

text \<open>
  \<open>places g m\<close>: when \<open>m\<close> returns in a capture, the capture goes on; and either the
  value has no result buffer under \<open>g\<close> and the offer is as it was, or its buffer is the
  offered one, which is taken and is not compact.
\<close>

definition places :: "('a \<Rightarrow> device_buffer option) \<Rightarrow> ('d, 'a) kernel_op \<Rightarrow> bool" where
  "places g m \<longleftrightarrow> (\<forall>k x k'. is_capturing k \<longrightarrow> m k = (Inr x, k') \<longrightarrow> goes_on k k' \<and>
     (case g x of None \<Rightarrow> offered_output k' = offered_output k
      | Some b \<Rightarrow> offered_output k = Some (buf_slice b) \<and> bf16 b = None \<and> offered_output k' = None))"

abbreviation quiet :: "('d, 'a) kernel_op \<Rightarrow> bool" where
  "quiet m \<equiv> places (\<lambda>_. None) m"

lemma placesD:
  "places g m \<Longrightarrow> is_capturing k \<Longrightarrow> m k = (Inr x, k') \<Longrightarrow> goes_on k k' \<and>
     (case g x of None \<Rightarrow> offered_output k' = offered_output k
      | Some b \<Rightarrow> offered_output k = Some (buf_slice b) \<and> bf16 b = None \<and> offered_output k' = None)"
  by (auto simp: places_def)

lemma placesI:
  assumes "\<And>k x k'. is_capturing k \<Longrightarrow> m k = (Inr x, k') \<Longrightarrow> goes_on k k' \<and>
     (case g x of None \<Rightarrow> offered_output k' = offered_output k
      | Some b \<Rightarrow> offered_output k = Some (buf_slice b) \<and> bf16 b = None \<and> offered_output k' = None)"
  shows "places g m"
  using assms by (auto simp: places_def)

lemma places_ret: "g x = None \<Longrightarrow> places g (ret x)"
  by (simp add: places_def ret_def goes_on_refl)

lemma places_throw: "places g (throw e)"
  by (simp add: places_def throw_def)

lemma quiet_basic: "quiet (gets f)" "quiet (lift r)" "quiet (ensure b e)"
  by (simp_all add: places_def gets_def lift_def ensure_def ret_def throw_def goes_on_refl)

lemma quiet_drv: "quiet (drv D m)"
proof (rule placesI)
  fix k x k' assume k: "is_capturing k" and run: "drv D m k = (Inr x, k')"
  from run have "k' = k\<lparr>device := snd (m (device k))\<rparr>" using device_drv [of D m k] by simp
  with k show "goes_on k k' \<and> (case (\<lambda>_. None) x of None \<Rightarrow> offered_output k' = offered_output k
      | Some b \<Rightarrow> offered_output k = Some (buf_slice b) \<and> bf16 b = None \<and> offered_output k' = None)"
    by (simp add: goes_on_same)
qed

lemma quiet_modify:
  "(\<And>k. is_capturing k \<Longrightarrow> goes_on k (f k)) \<Longrightarrow> (\<And>k. offered_output (f k) = offered_output k) \<Longrightarrow>
   quiet (modify f)"
  by (simp add: places_def modify_def)

lemma quiet_advancing: "quiet (advancing_offset a n)"
  by (auto simp: places_def advancing_offset_def goes_on_def noted_def is_capturing_def split: option.splits if_splits)

text \<open>In a capture a refused operation never returns.\<close>

lemma places_forbid: "places g (forbid_in_capture w)"
  by (auto simp: places_def forbid_in_capture_def is_capturing_def Let_def split: option.splits)

lemma places_forbid_then: "places g (andthen (forbid_in_capture w) f)"
  by (auto simp: places_def andthen_def forbid_in_capture_def is_capturing_def Let_def split: option.splits)

lemma places_capturing_then: "places g (f True) \<Longrightarrow> places g (andthen (gets is_capturing) f)"
  by (auto simp: places_def andthen_def gets_def)

lemma places_then:
  assumes "quiet m" "\<And>x. places g (f x)"
  shows "places g (andthen m f)"
proof (rule placesI)
  fix k x k' assume k: "is_capturing k" and run: "andthen m f k = (Inr x, k')"
  then obtain y k1 where m: "m k = (Inr y, k1)" and f: "f y k1 = (Inr x, k')"
    by (auto simp: andthen_def split: prod.splits sum.splits)
  from placesD [OF assms(1) k m] have g: "goes_on k k1" and k1: "is_capturing k1" "offered_output k1 = offered_output k"
    by (auto dest: goes_on_open)
  from placesD [OF assms(2) k1(1) f] k1(2) goes_on_trans [OF g]
  show "goes_on k k' \<and> (case g x of None \<Rightarrow> offered_output k' = offered_output k
      | Some b \<Rightarrow> offered_output k = Some (buf_slice b) \<and> bf16 b = None \<and> offered_output k' = None)"
    by (simp split: option.splits)
qed

text \<open>
  Once the offer \<open>s\<close> is taken, the rest of the Kernel returns that buffer: no other can be
  allocated.
\<close>

definition settles :: "('a \<Rightarrow> device_buffer option) \<Rightarrow> cuda_slice \<Rightarrow> ('d, 'a) kernel_op \<Rightarrow> bool" where
  "settles g s m \<longleftrightarrow> (\<forall>k x k'. is_capturing k \<longrightarrow> offered_output k = None \<longrightarrow> m k = (Inr x, k') \<longrightarrow>
     goes_on k k' \<and> offered_output k' = None \<and> (\<exists>b. g x = Some b \<and> buf_slice b = s \<and> bf16 b = None))"

lemma settles_ret: "g x = Some b \<Longrightarrow> buf_slice b = s \<Longrightarrow> bf16 b = None \<Longrightarrow> settles g s (ret x)"
  by (simp add: settles_def ret_def goes_on_refl)

lemma settles_then:
  assumes "quiet m" "\<And>x. settles g s (f x)"
  shows "settles g s (andthen m f)"
  unfolding settles_def
proof (intro allI impI)
  fix k x k' assume k: "is_capturing k" "offered_output k = None" and run: "andthen m f k = (Inr x, k')"
  then obtain y k1 where m: "m k = (Inr y, k1)" and f: "f y k1 = (Inr x, k')"
    by (auto simp: andthen_def split: prod.splits sum.splits)
  from placesD [OF assms(1) k(1) m] k(2) have g: "goes_on k k1" and k1: "is_capturing k1" "offered_output k1 = None"
    by (auto dest: goes_on_open)
  from assms(2) f k1 have "goes_on k1 k' \<and> offered_output k' = None \<and> (\<exists>b. g x = Some b \<and> buf_slice b = s \<and> bf16 b = None)"
    unfolding settles_def by blast
  with goes_on_trans [OF g] show "goes_on k k' \<and> offered_output k' = None \<and> (\<exists>b. g x = Some b \<and> buf_slice b = s \<and> bf16 b = None)"
    by blast
qed

lemma settles_placed:
  assumes "places Some m"
  shows "settles g s m"
  unfolding settles_def
proof (intro allI impI)
  fix k x k' assume k: "is_capturing k" "offered_output k = None" and run: "m k = (Inr x, k')"
  from placesD [OF assms k(1) run] k(2) have False by simp
  then show "goes_on k k' \<and> offered_output k' = None \<and> (\<exists>b. g x = Some b \<and> buf_slice b = s \<and> bf16 b = None)" ..
qed

lemma settles_if: "(b \<Longrightarrow> settles g s m) \<Longrightarrow> (\<not> b \<Longrightarrow> settles g s n) \<Longrightarrow> settles g s (if b then m else n)"
  by simp

lemma settles_option:
  "(x = None \<Longrightarrow> settles g s m) \<Longrightarrow> (\<And>y. x = Some y \<Longrightarrow> settles g s (f y)) \<Longrightarrow>
   settles g s (case x of None \<Rightarrow> m | Some y \<Rightarrow> f y)"
  by (cases x) simp_all

lemma settles_Let: "settles g s (f x) \<Longrightarrow> settles g s (let y = x in f y)"
  by simp

lemma settles_capturing_then: "settles g s (f True) \<Longrightarrow> settles g s (andthen (gets is_capturing) f)"
  unfolding settles_def andthen_def gets_def prod.case sum.case by metis

lemmas settles_rules = settles_capturing_then settles_then settles_if settles_option settles_Let settles_ret

lemma alloc_output_taken:
  "is_capturing k \<Longrightarrow> alloc_output D n k = (Inr s, k1) \<Longrightarrow>
     goes_on k k1 \<and> offered_output k = Some s \<and> offered_output k1 = None"
  by (auto simp: alloc_output_def goes_on_def noted_def andthen_def gets_def modify_def ret_def drop_offer_def is_capturing_def
      forbid_in_capture_def Let_def split: option.splits if_splits prod.splits)

lemma places_alloc_then:
  assumes "\<And>s. settles g s (f s)"
  shows "places g (andthen (alloc_output D n) f)"
proof (rule placesI)
  fix k x k' assume k: "is_capturing k" and run: "andthen (alloc_output D n) f k = (Inr x, k')"
  then obtain s k1 where s: "alloc_output D n k = (Inr s, k1)" and x: "f s k1 = (Inr x, k')"
    by (auto simp: andthen_def split: prod.splits sum.splits)
  from alloc_output_taken [OF k s] have g: "goes_on k k1"
    and taken: "is_capturing k1" "offered_output k = Some s" "offered_output k1 = None"
    by (auto dest: goes_on_open)
  with assms [of s] x obtain b where "goes_on k1 k'" "offered_output k' = None" "g x = Some b" "buf_slice b = s" "bf16 b = None"
    unfolding settles_def by blast
  with taken goes_on_trans [OF g] show "goes_on k k' \<and> (case g x of None \<Rightarrow> offered_output k' = offered_output k
      | Some b \<Rightarrow> offered_output k = Some (buf_slice b) \<and> bf16 b = None \<and> offered_output k' = None)" by simp
qed

text \<open>A second output cannot be placed.\<close>

lemma places_twice:
  assumes "places Some m" "\<And>x. places Some (n x)"
  shows "places g (andthen m (\<lambda>x. andthen (n x) (f x)))"
proof (rule placesI)
  fix k y k' assume k: "is_capturing k" and run: "andthen m (\<lambda>x. andthen (n x) (f x)) k = (Inr y, k')"
  then obtain x k1 where m: "m k = (Inr x, k1)" and r: "andthen (n x) (f x) k1 = (Inr y, k')"
    by (auto simp: andthen_def split: prod.splits sum.splits)
  then obtain z k2 where n: "n x k1 = (Inr z, k2)" by (auto simp: andthen_def split: prod.splits sum.splits)
  from placesD [OF assms(1) k m] have "is_capturing k1" "offered_output k1 = None" by (auto dest: goes_on_open)
  with placesD [OF assms(2) _ n] have False by simp
  then show "goes_on k k' \<and> (case g y of None \<Rightarrow> offered_output k' = offered_output k
      | Some b \<Rightarrow> offered_output k = Some (buf_slice b) \<and> bf16 b = None \<and> offered_output k' = None)" ..
qed

text \<open>A path that is not taken in a capture.\<close>

lemma places_untaken:
  assumes "\<And>k x k'. is_capturing k \<Longrightarrow> m k = (Inr x, k') \<Longrightarrow> x = None \<and> k' = k" "places g (f None)"
  shows "places g (andthen m f)"
proof (rule placesI)
  fix k x k' assume k: "is_capturing k" and run: "andthen m f k = (Inr x, k')"
  then obtain y k1 where m: "m k = (Inr y, k1)" and r: "f y k1 = (Inr x, k')"
    by (auto simp: andthen_def split: prod.splits sum.splits)
  from assms(1) [OF k m] placesD [OF assms(2) k] r
  show "goes_on k k' \<and> (case g x of None \<Rightarrow> offered_output k' = offered_output k
      | Some b \<Rightarrow> offered_output k = Some (buf_slice b) \<and> bf16 b = None \<and> offered_output k' = None)" by simp
qed

lemma places_if: "(b \<Longrightarrow> places g m) \<Longrightarrow> (\<not> b \<Longrightarrow> places g n) \<Longrightarrow> places g (if b then m else n)"
  by simp

lemma places_option:
  "(x = None \<Longrightarrow> places g m) \<Longrightarrow> (\<And>y. x = Some y \<Longrightarrow> places g (f y)) \<Longrightarrow>
   places g (case x of None \<Rightarrow> m | Some y \<Rightarrow> f y)"
  by (cases x) simp_all

lemma places_prod: "(\<And>a b. x = (a, b) \<Longrightarrow> places g (f a b)) \<Longrightarrow> places g (case x of (a, b) \<Rightarrow> f a b)"
  by (cases x) simp

lemma places_list:
  "(x = [] \<Longrightarrow> places g m) \<Longrightarrow> (\<And>y ys. x = y # ys \<Longrightarrow> places g (f y ys)) \<Longrightarrow>
   places g (case x of [] \<Rightarrow> m | y # ys \<Rightarrow> f y ys)"
  by (cases x) simp_all

lemma places_sum:
  "(\<And>e. x = Inl e \<Longrightarrow> places g (h e)) \<Longrightarrow> (\<And>y. x = Inr y \<Longrightarrow> places g (f y)) \<Longrightarrow>
   places g (case x of Inl e \<Rightarrow> h e | Inr y \<Rightarrow> f y)"
  by (cases x) simp_all

lemma places_Let: "places g (f x) \<Longrightarrow> places g (let y = x in f y)"
  by simp

lemma snd_attempt: "snd (attempt m k) = snd (m k)"
  by (simp add: attempt_def split: prod.splits sum.splits)

lemma quiet_attempt_drv: "quiet (attempt (drv D m))"
proof (rule placesI)
  fix k x k' assume k: "is_capturing k" and run: "attempt (drv D m) k = (Inr x, k')"
  from run have "k' = k\<lparr>device := snd (m (device k))\<rparr>"
    by (metis snd_attempt device_drv snd_conv)
  with k show "goes_on k k' \<and> (case (\<lambda>_. None) x of None \<Rightarrow> offered_output k' = offered_output k
      | Some b \<Rightarrow> offered_output k = Some (buf_slice b) \<and> bf16 b = None \<and> offered_output k' = None)"
    by (simp add: goes_on_same)
qed

lemmas places_rules = places_forbid_then places_forbid places_alloc_then places_capturing_then places_then
  places_throw quiet_basic quiet_drv quiet_advancing quiet_attempt_drv
  places_option places_prod places_list places_sum places_Let

lemmas quiet_rules = places_forbid_then places_forbid places_capturing_then places_then
  places_ret places_throw quiet_basic quiet_drv quiet_advancing quiet_attempt_drv
  places_if places_option places_prod places_list places_sum places_Let

section \<open>The Kernels\<close>

lemma quiet_load_function: "quiet (load_function D n)"
  unfolding load_function_def by (rule quiet_rules quiet_modify | simp add: goes_on_same)+

lemma quiet_launch: "quiet (launch_kernel D n args c)"
  unfolding launch_kernel_def by (rule quiet_drv)

lemma quiet_launch_elems: "quiet (launch_elems D f args n)"
  unfolding launch_elems_def by (rule quiet_load_function quiet_launch places_then)+

lemma quiet_tensor_function: "quiet (tensor_function D n)"
  unfolding tensor_function_def by (rule quiet_rules quiet_modify | simp add: goes_on_same)+

lemma quiet_split_launches: "quiet (split_launches D n xs)"
proof (induction D n xs rule: split_launches.induct)
  case (2 D n input len rest)
  then show ?case unfolding split_launches.simps Let_def
    by (intro places_then quiet_launch places_ret) auto
qed (simp add: places_ret)

lemma quiet_split_bf16: "quiet (split_bf16 D a n)"
  unfolding split_bf16_def split_bf16_all_def
  by (rule quiet_tensor_function quiet_split_launches quiet_rules refl)+

lemmas kernel_places = quiet_load_function quiet_launch quiet_launch_elems quiet_tensor_function
  quiet_split_bf16

lemma places_elementwise:
  "places Some (add D a b)" "places Some (mul D a b)" "places Some (silu D a)" "places Some (silu_mul D a b)"
  unfolding add_def mul_def silu_def silu_mul_def
  by (rule kernel_places places_rules places_if places_ret settles_rules | simp)+

lemma quiet_kv_write: "quiet (kv_write D store rows off)"
  unfolding kv_write_def by (rule kernel_places quiet_rules refl)+

lemma places_residual_add: "places Some (residual_add D a b)"
  unfolding residual_add_def by (rule places_elementwise places_rules)+

lemma places_concat: "places Some (concat_rows D a b)"
  unfolding concat_rows_def by (rule kernel_places places_rules places_if places_ret settles_rules | simp)+

lemma places_rmsnorm: "places Some (rmsnorm D a w e)"
  unfolding rmsnorm_def by (rule kernel_places places_rules places_if places_ret settles_rules | simp)+

lemma places_softmax: "places Some (softmax_rows D a)"
  unfolding softmax_rows_def by (rule places_rules)+

lemma places_if_then:
  "places g (andthen m f) \<Longrightarrow> places g (andthen n f) \<Longrightarrow> places g (andthen (if b then m else n) f)"
  by simp

lemma places_refused_then: "places g (andthen (andthen (forbid_in_capture w) h) f)"
  by (auto simp: places_def andthen_def forbid_in_capture_def is_capturing_def Let_def split: option.splits)

lemma places_rope: "places Some (rope_with_frequency_scaling D a b s d p h pr fs)"
  unfolding rope_with_frequency_scaling_def
  by (rule places_refused_then kernel_places places_rules places_if_then places_ret settles_rules | simp)+

lemma quiet_take_flag: "quiet (take_embedding_flag D)"
  unfolding take_embedding_flag_def by (rule quiet_rules quiet_modify | simp add: goes_on_same)+

lemma quiet_launch_with_flag: "quiet (launch_with_flag D args n flag)"
  using placesD [OF quiet_launch]
  by (fastforce simp: places_def launch_with_flag_def goes_on_def noted_def is_capturing_def split: prod.splits)

lemma quiet_mark: "quiet (modify mark_embedding)"
  by (rule quiet_modify) (simp_all add: mark_embedding_def goes_on_def noted_def is_capturing_def split: option.split)

lemma places_embedding: "places Some (embedding_lookup D t i)"
  unfolding embedding_lookup_def
  by (simp only: if_True if_False |
      rule quiet_take_flag quiet_launch_with_flag quiet_mark kernel_places places_rules places_ret settles_rules |
      simp)+

section \<open>Matmul and attention\<close>

lemma quiet_matmul_paths:
  "quiet (matmul_tcp D d a b16 out x m ta tb)" "quiet (matmul_tc D d a b16 out x m)"
  "quiet (matmul_split_k D d a b b16 out ad)"
  "quiet (gated_matmul_tcp D d a g16 u16 out ta)" "quiet (gated_matmul_tc D d a g16 u16 out)"
  "quiet (gated_matmul_split_k D d a g u out)"
  unfolding matmul_tcp_def matmul_tc_def matmul_split_k_def gated_matmul_tcp_def gated_matmul_tc_def
    gated_matmul_split_k_def
  by (rule kernel_places quiet_rules refl)+

lemma settles_matmul_plain: "settles Some out (matmul_plain D d a b b16 out ad)"
  unfolding matmul_plain_def
  by (rule settles_placed [OF places_elementwise(1)] settles_rules kernel_places | simp)+

lemma places_matmul_with_addend: "places Some (matmul_with_addend D a b ad ta tb)"
  unfolding matmul_with_addend_def
  by (rule quiet_matmul_paths settles_matmul_plain places_rules settles_rules | simp)+

lemma places_matmuls:
  "places Some (matmul D a b ta tb)" "places Some (matmul_bias D a b c ta tb)"
  "places Some (matmul_residual D a b c ta tb)"
  by (simp_all add: matmul_def matmul_bias_def matmul_residual_def places_matmul_with_addend)

lemma places_gated_matmul: "places Some (gated_matmul D a g u ta tb)"
proof -
  have fused: "places Some (gated_matmul_fused D d a g u ta)" for d
    unfolding gated_matmul_fused_def by (rule quiet_matmul_paths places_rules settles_rules | simp)+
  show ?thesis
    unfolding gated_matmul_def
    by (rule fused places_twice places_matmuls places_rules places_if)+
qed

lemma quiet_attention_scratch: "quiet (attention_scratch_buffer D n)"
  unfolding attention_scratch_buffer_def by (rule quiet_rules refl)+

lemma quiet_attention_launches:
  "quiet (attention_grouped_launch D name p q k v d m s)" "quiet (attention_single_launch D p q k v d m s)"
  "quiet (attention_combine_launch D p out d)" "quiet (key_step_offset d kc)"
  unfolding attention_grouped_launch_def attention_single_launch_def attention_combine_launch_def
    key_step_offset_def
  by (rule kernel_places quiet_rules refl)+

lemma places_attention_parts:
  "places Some (attention_split D q k v d m s)" "places Some (attention_block D q k v d m s b)"
  unfolding attention_split_def attention_block_def
  by (rule quiet_attention_scratch quiet_attention_launches kernel_places places_rules settles_rules |
      simp split: option.split)+

lemma places_attention_threads: "places Some (attention_threads D q k v d m)"
  unfolding attention_threads_def by (rule places_capturing_then) (simp add: places_forbid_then)

lemma prompt_untaken:
  assumes "is_capturing k'"
  shows "attention_tcp D q k v d m k' = (Inr None, k')" "attention_tiled D q k v d m k' = (Inr None, k')"
  using assms
  by (simp_all add: attention_tcp_def attention_tiled_def andthen_def gets_def ret_def Let_def split: option.split)

lemma places_prompt_then:
  assumes "places g (f None)"
  shows "places g (andthen (attention_tcp D q k v d m) f)" "places g (andthen (attention_tiled D q k v d m) f)"
  by (rule places_untaken, simp add: prompt_untaken, rule assms)+

lemma places_attention: "places Some (attention_bounded D q k v h w kv win c kc)"
  unfolding attention_bounded_def
  by (simp only: option.case | rule places_prompt_then places_attention_parts places_attention_threads
      quiet_attention_launches places_rules places_if)+

end
