(* ===== verification/Kernel_Contract.thy ===== *)
theory Kernel_Contract
  imports Kernel_In_Place
begin

text \<open>
  The contract every Kernel of \<open>CudaKernels\<close> keeps towards the executor that dispatches
  it, as the interface \<open>kernel\<close>: what it keeps of a capture and of the offered output
  buffer, that well-formed inputs give a well-formed plain output, and that in a capture the
  output is the offered buffer. It is interpreted
  on each Kernel of the model.
\<close>

locale kernel =
  fixes D :: "'d external"
    and ins :: "device_buffer list"
    and run :: "('d, device_buffer) kernel_op"
  assumes frame: "recorded_keeps D P \<Longrightarrow> keeps (frame_le P) run"
    and wf: "list_all wf_buffer ins \<Longrightarrow> returns run (\<lambda>b. wf_buffer b \<and> bf16 b = None)"
    and in_place: "places Some run"
begin

text \<open>A Kernel neither starts nor ends a capture, and a failure it finds stays the reason.\<close>

lemma capture_kept:
  assumes "run k = (r, k')" "capture k = Some c"
  shows "\<exists>c'. capture k' = Some c' \<and> advancing c' = advancing c \<and> max_offset c' \<le> max_offset c \<and>
    (failure c \<noteq> None \<longrightarrow> failure c' = failure c)"
proof -
  have "recorded_keeps D (\<lambda>_. True)" by (simp add: recorded_keeps_def)
  from keepsD [OF frame [OF this] assms(1)] assms(2) show ?thesis
    by (auto simp: frame_le_def capture_le_def split: option.splits)
qed

text \<open>While capturing, only recorded calls reach the device.\<close>

lemma device_kept:
  assumes "run k = (r, k')" "is_capturing k" "recorded_keeps D P" "P (device k)"
  shows "P (device k')"
  using keepsD [OF frame [OF assms(3)] assms(1)] assms(2,4) by (simp add: frame_le_def)

text \<open>A captured Kernel writes its result to the buffer offered to it.\<close>

lemma output_in_place:
  assumes "run k = (Inr b, k')" "is_capturing k"
  shows "offered_output k = Some (buf_slice b) \<and> bf16 b = None \<and> offered_output k' = None"
  using placesD [OF in_place assms(2,1)] by simp

lemma output_wf: "run k = (Inr b, k') \<Longrightarrow> list_all wf_buffer ins \<Longrightarrow> wf_buffer b \<and> bf16 b = None"
  using returnsD [OF wf] by blast

end

lemma returns_output: "returns m (output_of sh) \<Longrightarrow> returns m (\<lambda>b. wf_buffer b \<and> bf16 b = None)"
  by (erule returns_mono) (simp add: output_of_wf, simp add: output_of_def)

section \<open>The Kernels of the model\<close>

interpretation add: kernel D "[a, b]" "add D a b" for D :: "'d external" and a b
  by unfold_locales (auto intro: places_elementwise keeps_elementwise returns_output [OF returns_add])

interpretation mul: kernel D "[a, b]" "mul D a b" for D :: "'d external" and a b
  by unfold_locales (auto intro: places_elementwise keeps_elementwise returns_output [OF returns_mul])

interpretation residual_add: kernel D "[a, b]" "residual_add D a b" for D :: "'d external" and a b
  by unfold_locales (auto intro: places_residual_add keeps_residual_add returns_output [OF returns_residual_add])

interpretation silu: kernel D "[a]" "silu D a" for D :: "'d external" and a
  by unfold_locales (auto intro: places_elementwise keeps_elementwise returns_output [OF returns_silu])

interpretation silu_mul: kernel D "[a, b]" "silu_mul D a b" for D :: "'d external" and a b
  by unfold_locales (auto intro: places_elementwise keeps_elementwise returns_output [OF returns_silu_mul])

interpretation concat_rows: kernel D "[a, b]" "concat_rows D a b" for D :: "'d external" and a b
  by unfold_locales (auto intro: places_concat keeps_concat returns_output [OF returns_concat])

interpretation embedding: kernel D "[t, i]" "embedding_lookup D t i" for D :: "'d external" and t i
  by unfold_locales (auto intro: places_embedding keeps_embedding_lookup returns_output [OF returns_embedding])

interpretation rmsnorm: kernel D "[a, w]" "rmsnorm D a w e" for D :: "'d external" and a w e
  by unfold_locales (auto intro: places_rmsnorm keeps_rmsnorm returns_output [OF returns_rmsnorm])

interpretation softmax: kernel D "[a]" "softmax_rows D a" for D :: "'d external" and a
  by unfold_locales (auto intro: places_softmax keeps_softmax returns_output [OF returns_softmax])

interpretation rope: kernel D "[a]" "rope_with_frequency_scaling D a b s d p h pr fs"
  for D :: "'d external" and a b s d p h pr fs
  by unfold_locales (auto intro: places_rope keeps_rope_scaling returns_output [OF returns_rope_scaling])

interpretation matmul: kernel D "[a, b]" "matmul D a b ta tb" for D :: "'d external" and a b ta tb
  by unfold_locales (auto intro: places_matmuls keeps_matmuls returns_output [OF returns_matmuls(1)])

interpretation matmul_bias: kernel D "[a, b, c]" "matmul_bias D a b c ta tb"
  for D :: "'d external" and a b c ta tb
  by unfold_locales (auto intro: places_matmuls keeps_matmuls returns_output [OF returns_matmuls(2)])

interpretation matmul_residual: kernel D "[a, b, c]" "matmul_residual D a b c ta tb"
  for D :: "'d external" and a b c ta tb
  by unfold_locales (auto intro: places_matmuls keeps_matmuls returns_output [OF returns_matmuls(3)])

interpretation gated_matmul: kernel D "[a, g, u]" "gated_matmul D a g u ta tb"
  for D :: "'d external" and a g u ta tb
  by unfold_locales (auto intro: places_gated_matmul keeps_gated_matmul returns_output [OF returns_gated_matmul])

interpretation attention: kernel D "[q, k, v]" "attention_bounded D q k v h w kv win c kc"
  for D :: "'d external" and q k v h w kv win c kc
  by unfold_locales (auto intro: places_attention keeps_attention returns_output [OF returns_attention_bounded])

lemmas kernel_frames = add.frame mul.frame residual_add.frame silu.frame silu_mul.frame
  concat_rows.frame embedding.frame rmsnorm.frame softmax.frame rope.frame matmul.frame
  matmul_bias.frame matmul_residual.frame gated_matmul.frame attention.frame

lemmas kernel_wfs = add.wf mul.wf residual_add.wf silu.wf silu_mul.wf concat_rows.wf
  embedding.wf rmsnorm.wf softmax.wf rope.wf matmul.wf matmul_bias.wf matmul_residual.wf
  gated_matmul.wf attention.wf

lemmas kernel_in_place = add.in_place mul.in_place residual_add.in_place silu.in_place silu_mul.in_place
  concat_rows.in_place embedding.in_place rmsnorm.in_place softmax.in_place rope.in_place matmul.in_place
  matmul_bias.in_place matmul_residual.in_place gated_matmul.in_place attention.in_place

end
