(* ===== verification/Dispatch_Frame.thy ===== *)
theory Dispatch_Frame
  imports Executor_Capture Kernel_Contract
begin

text \<open>
  What dispatching an invocation keeps, over every Kernel by the contract \<open>kernel\<close>: the
  capture in progress and the device work done during it, and the well-formedness of every
  stored buffer.
\<close>

section \<open>The frame of a dispatch\<close>

definition exec_frame :: "('d \<Rightarrow> bool) \<Rightarrow> 'd executor \<Rightarrow> 'd executor \<Rightarrow> bool" where
  "exec_frame P x y \<longleftrightarrow>
     frame_le P (kernels x) (kernels y) \<and> step_recording y = step_recording x \<and>
     captures y = captures x \<and> next_capture y = next_capture x \<and>
     resource_allocations y = resource_allocations x \<and>
     next_execution_ordinal y = next_execution_ordinal x \<and> submitted y = submitted x \<and>
     kernel_executions y = kernel_executions x \<and> device_id y = device_id x \<and>
     provider_name y = provider_name x"

interpretation ef: frame "exec_frame P" for P :: "'d \<Rightarrow> bool"
  by unfold_locales (auto simp: exec_frame_def kf.refl intro: kf.trans)

lemma keeps_kern_frame: "keeps (frame_le P) m \<Longrightarrow> keeps (exec_frame P) (kern m)"
  by (simp add: keeps_def kern_def inside_def exec_frame_def split: prod.splits) (metis snd_conv)

lemma keeps_kernel_call: "keeps (frame_le P) m \<Longrightarrow> keeps (exec_frame P) (kernel_call m)"
  unfolding kernel_call_def by (rule ef.keeps_map_err keeps_kern_frame)+

text \<open>Steps of the executor that leave the Kernels alone.\<close>

lemma keeps_modify_frame:
  assumes "\<And>x. exec_frame P x (f x)"
  shows "keeps (exec_frame P) (modify f)"
  using assms by (simp add: keeps_def modify_def)

lemma frame_storage: "exec_frame P x (set_storage name b x)" "exec_frame P x (drop_storage name x)"
  by (simp_all add: exec_frame_def set_storage_def drop_storage_def kf.refl)

lemma frame_observe: "exec_frame P x (observe kind call x)"
  by (simp add: exec_frame_def observe_def kf.refl Let_def)

lemma keeps_get_input: "keeps (exec_frame P) (get_input call i)"
  unfolding get_input_def by (rule ef.keeps_basic keeps_option)+

lemmas dispatch_rules = ef.keeps_basic keeps_if keeps_option keeps_prod keeps_list keeps_sum keeps_Let
  keeps_get_input keeps_kernel_call keeps_modify_frame frame_storage

lemma keeps_expand_inputs: "keeps (exec_frame P) (expand_inputs D name i ins)"
proof (induction ins arbitrary: i)
  case Nil
  then show ?case by (simp add: ef.keeps_ret)
next
  case (Cons r ins)
  show ?case unfolding expand_inputs.simps by (rule dispatch_rules keeps_expand Cons.IH)+
qed

lemma keeps_run_kernel:
  assumes "recorded_keeps D P"
  shows "keeps (exec_frame P) (run_kernel D R call)"
proof -
  note rules = kernel_frames [OF assms] keeps_halves keeps_halves_ops keeps_download keeps_upload dispatch_rules
  have "keeps (exec_frame P) (dispatch_matmul D call)" unfolding dispatch_matmul_def by (rule rules)+
  moreover have "keeps (exec_frame P) (dispatch_rope D R call)" unfolding dispatch_rope_def by (rule rules)+
  moreover have "keeps (exec_frame P) (dispatch_attention D call)"
    unfolding dispatch_attention_def by (rule rules)+
  moreover have "keeps (exec_frame P) (dispatch_half D call)" unfolding dispatch_half_def by (rule rules)+
  ultimately show ?thesis unfolding run_kernel_def by - (assumption | rule rules)+
qed

lemma keeps_run_with_offer:
  "recorded_keeps D P \<Longrightarrow> keeps (exec_frame P) (run_invocation_with_offer D R call)"
  unfolding run_invocation_with_offer_def store_output_def
  by (rule dispatch_rules keeps_run_kernel | assumption)+

lemma keeps_run_kv_write:
  assumes "recorded_keeps D P"
  shows "keeps (exec_frame P) (run_kv_write D call)"
proof -
  have write_back: "keeps (exec_frame P) (kv_write_back D rows out off store)" for rows out off store
  proof -
    have w: "keeps (exec_frame P) (kernel_call (kv_write D store b off))" for b
      by (rule keeps_kernel_call keeps_elementwise assms)+
    show ?thesis
      unfolding keeps_def
    proof
      fix x
      show "exec_frame P x (snd (kv_write_back D rows out off store x))"
      proof (cases "storage x rows")
        case None
        then show ?thesis by (simp add: kv_write_back_def frame_storage)
      next
        case (Some b)
        obtain r y where "kernel_call (kv_write D store b off) x = (r, y)" by fastforce
        moreover from keepsD [OF w this] have "exec_frame P x y" .
        ultimately show ?thesis using Some ef.trans [OF _ frame_storage(1)]
          by (simp add: kv_write_back_def)
      qed
    qed
  qed
  have "keeps (exec_frame P) (kv_store D a b)" for a b
    unfolding kv_store_def by (rule dispatch_rules keeps_clone_buffer)+
  with write_back show ?thesis unfolding run_kv_write_def by - (rule dispatch_rules | assumption)+
qed

text \<open>The offer is set before the Kernel runs and cleared after it, so the frame is kept overall.\<close>

lemma keeps_run_offered:
  fixes D :: "'d external"
  assumes "recorded_keeps D P"
  shows "keeps (exec_frame P) (run_offered D R call)"
  unfolding keeps_def
proof
  fix x :: "'d executor"
  let ?prev = "previous_output call x"
  obtain r y where run: "run_invocation_with_offer D R call (take_offer ?prev x) = (r, y)" by fastforce
  have y: "exec_frame P (take_offer ?prev x) y" using keepsD [OF keeps_run_with_offer [OF assms] run] .
  have taken: "capture (kernels (take_offer ?prev x)) = capture (kernels x)"
    "device (kernels (take_offer ?prev x)) = device (kernels x)"
    by (simp_all add: take_offer_def Let_def offer_output_def drop_storage_def split: option.split)
  have rest: "exec_frame P (take_offer ?prev x) z \<Longrightarrow> offered_output (kernels z) = None \<Longrightarrow> exec_frame P x z" for z
    using taken by (auto simp: exec_frame_def frame_le_def is_capturing_def take_offer_def Let_def
        drop_storage_def split: option.splits)
  have clear: "exec_frame P z (clear_offer z)" "exec_frame P z (clear_offer (restore_offer ?prev z))" for z
    by (auto simp: exec_frame_def frame_le_def clear_offer_def drop_offer_def restore_offer_def reclaim_def
        set_storage_def is_capturing_def split: option.splits)
  have none: "offered_output (kernels (clear_offer z)) = None" for z
    by (simp add: clear_offer_def drop_offer_def)
  show "exec_frame P x (snd (run_offered D R call x))"
    using run none by (auto simp: run_offered_def Let_def split: sum.splits intro!: rest ef.trans [OF y] clear)
qed

lemma keeps_run_uncaptured:
  assumes "recorded_keeps D P"
  shows "keeps (exec_frame P) (run_invocation_uncaptured D R call)"
  unfolding run_invocation_uncaptured_def expand_unsupported_compact_inputs_def
  by (rule dispatch_rules keeps_expand_inputs keeps_run_kv_write keeps_run_offered assms)+

text \<open>A whole dispatch also records what the capture in progress touched.\<close>

definition dispatch_frame :: "('d \<Rightarrow> bool) \<Rightarrow> 'd executor \<Rightarrow> 'd executor \<Rightarrow> bool" where
  "dispatch_frame P x y \<longleftrightarrow> exec_frame P x (y\<lparr>step_recording := step_recording x\<rparr>) \<and>
     (step_recording y = None \<longleftrightarrow> step_recording x = None)"

lemma dispatch_frame_steps:
  "exec_frame P x y \<Longrightarrow> dispatch_frame P x y"
  "exec_frame P x y \<Longrightarrow> dispatch_frame P x (record_captured_resources call y)"
  "dispatch_frame P x y \<Longrightarrow> dispatch_frame P x (observe kind call y)"
  "dispatch_frame P (observe kind call x) y \<Longrightarrow> dispatch_frame P x y"
  by (auto simp: dispatch_frame_def exec_frame_def record_captured_resources_def observe_def Let_def)

lemma execute_invocation_frame:
  assumes "recorded_keeps D P"
  shows "dispatch_frame P x (snd (execute_invocation D R call x))"
proof -
  have run: "dispatch_frame P z (snd (andthen (lift (rt_validate R call)) (\<lambda>_. run_invocation D R call) z))" for z
  proof (cases "rt_validate R call")
    case (Inl e)
    then show ?thesis by (simp add: andthen_def lift_def dispatch_frame_steps(1) ef.refl)
  next
    case (Inr u)
    obtain r w where w: "run_invocation_uncaptured D R call z = (r, w)" by fastforce
    from keepsD [OF keeps_run_uncaptured [OF assms] w] have "exec_frame P z w" .
    then show ?thesis using Inr w dispatch_frame_steps
      by (auto simp: andthen_def lift_def run_invocation_def modify_def ret_def split: sum.splits)
  qed
  show ?thesis
  proof (cases "deadline_millis call = Some 0")
    case True
    then show ?thesis
      by (simp add: execute_invocation_def Let_def dispatch_frame_steps ef.trans [OF frame_observe frame_observe])
  next
    case False
    obtain r y where y: "andthen (lift (rt_validate R call)) (\<lambda>_. run_invocation D R call)
        (observe DispatchStarted call x) = (r, y)" by fastforce
    with run [of "observe DispatchStarted call x"] have "dispatch_frame P x y"
      using dispatch_frame_steps(4) by (metis snd_conv)
    then show ?thesis using False y dispatch_frame_steps(3)
      by (auto simp: execute_invocation_def Let_def split: sum.splits)
  qed
qed

text \<open>C16. Dispatching an invocation while a step is being captured keeps the capture: it stays open
  with the same offset buffer attributes, its bound on the replay offset only tightens, a failure
  already found stays the reported one, and whatever property of the device all recordable calls
  keep (no allocation, transfer or synchronization has happened, say) still holds after it.\<close>
theorem captured_dispatch_records_only:
  assumes "recorded_keeps D P" "capture (kernels x) = Some c" "P (device (kernels x))"
    and "execute_invocation D R call x = (r, y)"
  shows "P (device (kernels y)) \<and> (\<exists>c'. capture (kernels y) = Some c' \<and> advancing c' = advancing c \<and>
    max_offset c' \<le> max_offset c \<and> (failure c \<noteq> None \<longrightarrow> failure c' = failure c))"
  using execute_invocation_frame [OF assms(1), of x R call] assms(2-4)
  by (auto simp: dispatch_frame_def exec_frame_def frame_le_def is_capturing_def capture_le_def split: option.splits)

theorem captured_dispatch_records_only_witness:
  "\<exists>r y. execute_invocation sim demo_runtime (demo_call ''add'' ''c'') demo_recording = (r, y) \<and>
     result_outcome r = Succeeded [demo_resource ''c''] \<and> device (kernels y) = 1024 \<and>
     (\<exists>c. capture (kernels y) = Some c \<and> advancing c = {''position_offset''})"
proof -
  let ?run = "execute_invocation sim demo_runtime (demo_call ''add'' ''c'') demo_recording"
  have succeeded: "result_outcome (fst ?run) = Succeeded [demo_resource ''c'']"
    by code_simp
  obtain r y where run: "?run = (r, y)" by fastforce
  show ?thesis
    using captured_dispatch_records_only [OF recorded_keeps_sim _ _ run, of demo_capture "\<lambda>d. d = 1024"]
      succeeded run
    by (auto simp: demo_recording_def demo_executor_def demo_capture_def new_executor_def new_kernels_def)
qed

end
