(* ===== verification/Storage_Wf.thy ===== *)
theory Storage_Wf
  imports Executor_Api Dispatch_Frame
begin

text \<open>
  Every buffer in an executor's storage is well-formed: it has as many elements as its shape
  says. Every operation keeps this, whatever the driver answers.
\<close>

section \<open>Computations under an invariant\<close>

text \<open>Run from a state with \<open>I\<close>, \<open>m\<close> keeps \<open>I\<close> and what it returns satisfies \<open>Q\<close>.\<close>

definition triple :: "('s \<Rightarrow> bool) \<Rightarrow> ('s, 'e, 'a) exec \<Rightarrow> ('a \<Rightarrow> bool) \<Rightarrow> bool" where
  "triple I m Q \<longleftrightarrow> (\<forall>s. I s \<longrightarrow> I (snd (m s)) \<and> (\<forall>x. fst (m s) = Inr x \<longrightarrow> Q x))"

lemma tripleD: "triple I m Q \<Longrightarrow> I s \<Longrightarrow> m s = (r, t) \<Longrightarrow> I t \<and> (\<forall>x. r = Inr x \<longrightarrow> Q x)"
  by (metis triple_def fst_conv snd_conv)

lemma triple_ret: "Q x \<Longrightarrow> triple I (ret x) Q"
  by (simp add: triple_def ret_def)

lemma triple_throw: "triple I (throw e) Q"
  by (simp add: triple_def throw_def)

lemma triple_gets: "(\<And>s. I s \<Longrightarrow> Q (f s)) \<Longrightarrow> triple I (gets f) Q"
  by (simp add: triple_def gets_def)

lemma triple_lift: "(\<And>x. r = Inr x \<Longrightarrow> Q x) \<Longrightarrow> triple I (lift r) Q"
  by (simp add: triple_def lift_def)

lemma triple_ensure: "(b \<Longrightarrow> Q ()) \<Longrightarrow> triple I (ensure b e) Q"
  by (simp add: triple_def ensure_def ret_def throw_def)

lemma triple_modify: "(\<And>s. I s \<Longrightarrow> I (f s)) \<Longrightarrow> Q () \<Longrightarrow> triple I (modify f) Q"
  by (simp add: triple_def modify_def)

lemma triple_andthen:
  assumes "triple I m Q'" "\<And>x. Q' x \<Longrightarrow> triple I (f x) Q"
  shows "triple I (andthen m f) Q"
  unfolding triple_def
proof (intro allI impI)
  fix s assume s: "I s"
  obtain r t where m: "m s = (r, t)" by fastforce
  from tripleD [OF assms(1) s m] have t: "I t" "\<And>x. r = Inr x \<Longrightarrow> Q' x" by simp_all
  show "I (snd (andthen m f s)) \<and> (\<forall>x. fst (andthen m f s) = Inr x \<longrightarrow> Q x)"
  proof (cases r)
    case (Inl e)
    then show ?thesis using m t by (simp add: andthen_def)
  next
    case (Inr x)
    then show ?thesis using m t(1) assms(2) [OF t(2) [OF Inr]] by (simp add: andthen_def triple_def)
  qed
qed

lemma triple_then: "triple I m (\<lambda>_. True) \<Longrightarrow> (\<And>x. triple I (f x) Q) \<Longrightarrow> triple I (andthen m f) Q"
  by (rule triple_andthen)

lemma triple_lift_then: "(\<And>x. r = Inr x \<Longrightarrow> triple I (f x) Q) \<Longrightarrow> triple I (andthen (lift r) f) Q"
  by (rule triple_andthen [OF triple_lift])

lemma triple_map_err: "triple I m Q \<Longrightarrow> triple I (map_err f m) Q"
  by (fastforce simp: triple_def map_err_def split: prod.splits sum.splits)

lemma triple_weaken: "triple I m Q' \<Longrightarrow> (\<And>x. Q' x \<Longrightarrow> Q x) \<Longrightarrow> triple I m Q"
  by (auto simp: triple_def)

lemma triple_if: "(b \<Longrightarrow> triple I m Q) \<Longrightarrow> (\<not> b \<Longrightarrow> triple I n Q) \<Longrightarrow> triple I (if b then m else n) Q"
  by simp

lemma triple_option:
  "(x = None \<Longrightarrow> triple I m Q) \<Longrightarrow> (\<And>y. x = Some y \<Longrightarrow> triple I (f y) Q) \<Longrightarrow>
   triple I (case x of None \<Rightarrow> m | Some y \<Rightarrow> f y) Q"
  by (cases x) simp_all

lemma triple_list:
  "(x = [] \<Longrightarrow> triple I m Q) \<Longrightarrow> (\<And>y ys. x = y # ys \<Longrightarrow> triple I (f y ys) Q) \<Longrightarrow>
   triple I (case x of [] \<Rightarrow> m | y # ys \<Rightarrow> f y ys) Q"
  by (cases x) simp_all

lemma triple_Let: "triple I (f x) Q \<Longrightarrow> triple I (let y = x in f y) Q"
  by simp

section \<open>What the transfers return\<close>

text \<open>The documented contract of \<open>HostTensor::new\<close>: it accepts exactly as many values as the shape says.\<close>

definition host_checked :: "'d external \<Rightarrow> bool" where
  "host_checked D \<longleftrightarrow> (\<forall>sh data t. host_new D sh data = Inr t \<longrightarrow>
     t = \<lparr>tshape = sh, tdata = data\<rparr> \<and> wf_host t)"

lemma host_tensor_new_wf: "host_checked D \<Longrightarrow> host_tensor_new D sh data = Inr t \<Longrightarrow> wf_host t"
  by (auto simp: host_checked_def host_tensor_new_def split: sum.splits)

lemma host_tensor_newD: "host_checked D \<Longrightarrow> host_tensor_new D sh data = Inr t \<Longrightarrow> t = \<lparr>tshape = sh, tdata = data\<rparr>"
  by (auto simp: host_tensor_new_def host_checked_def split: sum.splits)

lemma returns_upload: "wf_host t \<Longrightarrow> returns (upload D t) wf_buffer"
  unfolding upload_def by (rule returns_intros | simp add: wf_host_def)+

lemma returns_download: "host_checked D \<Longrightarrow> returns (download D b) wf_host"
  unfolding download_def by (rule returns_intros | simp add: returns_def lift_def host_tensor_new_wf)+

lemma returns_download_half: "host_checked D \<Longrightarrow> returns (download_half D b) wf_host"
  unfolding download_half_def by (rule returns_intros | simp add: returns_def lift_def host_tensor_new_wf)+

lemma returns_expand: "host_checked D \<Longrightarrow> returns (expand D b) wf_buffer"
  unfolding expand_def by (rule returns_andthen returns_download returns_upload | assumption)+

lemma checked_product_len: "checked_product sh n = Some len \<Longrightarrow> len = n * shape_len sh"
  by (induction sh n rule: checked_product.induct) (auto simp: checked_mul_def split: option.splits if_splits)

lemma returns_zeros: "returns (zeros D sh) wf_buffer"
  unfolding zeros_def
  by (rule returns_alloc_then returns_intros | simp, drule checked_product_len, simp)+

lemma returns_upload_weight: "wf_host t \<Longrightarrow> returns (upload_weight D t) wf_buffer"
  unfolding upload_weight_def
  by (rule returns_upload returns_alloc_then returns_intros |
      simp add: wf_buffer_def buffer_len_def is_compact_def wf_host_def)+

lemma returns_clone:
  assumes "wf_buffer b"
  shows "returns (clone_buffer D b) wf_buffer"
proof -
  have bits: "returns (case bf16 b of
      Some bits \<Rightarrow> andthen (drv D (cu_clone_dtod D U16 bits)) (\<lambda>q. ret (Some \<lparr>ptr = q, slen = slen bits\<rparr>))
    | None \<Rightarrow> ret None) (\<lambda>r. map_option slen r = map_option slen (bf16 b))"
    by (cases "bf16 b") (simp_all, (rule returns_intros | simp)+)
  show ?thesis
    unfolding clone_buffer_def
    by (rule returns_andthen [OF bits] returns_intros)+
      (use assms in \<open>auto simp: wf_buffer_def buffer_len_def is_compact_def split: option.splits\<close>)
qed

section \<open>The invariant of storage\<close>

definition wf_store :: "'d executor \<Rightarrow> bool" where
  "wf_store x \<longleftrightarrow> (\<forall>name b. storage x name = Some b \<longrightarrow> wf_buffer b)"

lemma wf_storeD: "wf_store x \<Longrightarrow> storage x name = Some b \<Longrightarrow> wf_buffer b"
  by (auto simp: wf_store_def)

lemma wf_store_same: "storage y = storage x \<Longrightarrow> wf_store y \<longleftrightarrow> wf_store x"
  by (simp add: wf_store_def)

lemma wf_set_storage: "wf_store x \<Longrightarrow> wf_buffer b \<Longrightarrow> wf_store (set_storage name b x)"
  by (simp add: wf_store_def set_storage_def)

lemma wf_drop_storage: "wf_store x \<Longrightarrow> wf_store (drop_storage name x)"
  by (simp add: wf_store_def drop_storage_def)

lemma triple_kern: "returns m Q \<Longrightarrow> triple wf_store (kern m) Q"
  by (auto simp: triple_def kern_def inside_def wf_store_def returns_def split: prod.splits)

lemma triple_kernel_call: "returns m Q \<Longrightarrow> triple wf_store (kernel_call m) Q"
  unfolding kernel_call_def by (rule triple_map_err triple_kern | assumption)+

lemma triple_get_input_then:
  assumes "\<And>b. wf_buffer b \<Longrightarrow> triple wf_store (f b) Q"
  shows "triple wf_store (andthen (get_input call i) f) Q"
proof (rule triple_andthen [OF _ assms])
  show "triple wf_store (get_input call i) wf_buffer"
    unfolding get_input_def
    by (auto simp: triple_def andthen_def lift_def gets_def throw_def ret_def wf_storeD split: sum.splits option.splits)
qed

lemmas triple_rules = triple_get_input_then triple_lift_then triple_then triple_ret triple_throw triple_gets
  triple_lift triple_ensure triple_if triple_option triple_list triple_Let triple_kernel_call

abbreviation plain_output :: "device_buffer \<Rightarrow> bool" where
  "plain_output b \<equiv> wf_buffer b \<and> bf16 b = None"

lemma returns_upload_plain: "wf_host t \<Longrightarrow> returns (upload D t) plain_output"
  unfolding upload_def by (rule returns_intros | simp add: wf_host_def)+

lemma triple_dispatch_half:
  assumes "host_checked D"
  shows "triple wf_store (dispatch_half D call) plain_output"
  unfolding dispatch_half_def
  by (rule triple_get_input_then triple_lift_then triple_andthen [OF triple_kernel_call [OF returns_download_half]]
      triple_andthen [OF triple_kernel_call [OF returns_trivial]] triple_kernel_call returns_upload_plain assms |
      assumption)+

lemma triple_run_kernel:
  assumes "host_checked D"
  shows "triple wf_store (run_kernel D R call) plain_output"
proof -
  note rules = triple_rules kernel_wfs triple_dispatch_half [OF assms]
  have "triple wf_store (dispatch_matmul D call) plain_output"
    unfolding dispatch_matmul_def by (rule rules | simp)+
  moreover have "triple wf_store (dispatch_rope D R call) plain_output"
    unfolding dispatch_rope_def by (rule rules | simp)+
  moreover have "triple wf_store (dispatch_attention D call) plain_output"
    unfolding dispatch_attention_def by (rule rules | simp)+
  ultimately show ?thesis unfolding run_kernel_def by - (assumption | rule rules | simp)+
qed

section \<open>Dispatching keeps storage well-formed\<close>

lemma triple_set: "wf_buffer b \<Longrightarrow> triple wf_store (modify (set_storage name b)) (\<lambda>_. True)"
  by (rule triple_modify) (simp_all add: wf_set_storage)

lemma triple_expand_inputs:
  assumes "host_checked D"
  shows "triple wf_store (expand_inputs D name i ins) (\<lambda>_. True)"
proof (induction ins arbitrary: i)
  case Nil
  then show ?case by (simp add: triple_ret)
next
  case (Cons r ins)
  show ?case
    unfolding expand_inputs.simps
    by (rule triple_andthen [OF triple_kernel_call [OF returns_expand]] triple_set triple_rules Cons.IH assms | simp)+
qed

lemma triple_kv_write_back:
  fixes D :: "'d external"
  assumes "wf_buffer store"
  shows "triple wf_store (kv_write_back D rows out off store) (\<lambda>_. True)"
  unfolding triple_def
proof (intro allI impI conjI TrueI)
  fix x :: "'d executor" assume x: "wf_store x"
  show "wf_store (snd (kv_write_back D rows out off store x))"
  proof (cases "storage x rows")
    case None
    then show ?thesis using x assms by (simp add: kv_write_back_def wf_set_storage)
  next
    case (Some b)
    obtain r y where run: "kernel_call (kv_write D store b off) x = (r, y)" by fastforce
    from tripleD [OF triple_kernel_call [OF returns_trivial] x run] show ?thesis
      using Some run assms by (simp add: kv_write_back_def wf_set_storage)
  qed
qed

lemma triple_kv_store:
  fixes D :: "'d external"
  shows "triple wf_store (kv_store D s out) (\<lambda>b. \<forall>store. b = Some store \<longrightarrow> wf_buffer store)"
proof -
  have clone: "triple wf_store (kernel_call (clone_buffer D b)) wf_buffer" if "wf_buffer b" for b
    by (rule triple_kernel_call returns_clone that)+
  show ?thesis
    unfolding triple_def
  proof (intro allI impI)
    fix x :: "'d executor" assume x: "wf_store x"
    show "wf_store (snd (kv_store D s out x)) \<and> (\<forall>b. fst (kv_store D s out x) = Inr b \<longrightarrow>
        (\<forall>store. b = Some store \<longrightarrow> wf_buffer store))"
    proof (cases "out = s \<or> storage x s = None")
      case True
      then show ?thesis using x wf_drop_storage [OF x] wf_storeD [OF x]
        by (auto simp: kv_store_def andthen_def gets_def modify_def ret_def)
    next
      case False
      then obtain b where b: "storage x s = Some b" by auto
      obtain r y where run: "kernel_call (clone_buffer D b) x = (r, y)" by fastforce
      from tripleD [OF clone [OF wf_storeD [OF x b]] x run] show ?thesis
        using False b run by (auto simp: kv_store_def andthen_def gets_def ret_def split: sum.splits)
    qed
  qed
qed

lemma triple_run_kv_write: "triple wf_store (run_kv_write D call) (\<lambda>_. True)"
proof -
  have rest: "triple wf_store (case store of
      None \<Rightarrow> throw (KernelExecutionFailed ''no materialized data for input resource'')
    | Some st \<Rightarrow> andthen (kv_write_back D rows out off st) (\<lambda>_. ret (result_success call [r]))) (\<lambda>_. True)"
    if "\<forall>st. store = Some st \<longrightarrow> wf_buffer st" for store rows out off r
    by (rule triple_option triple_throw triple_then triple_kv_write_back triple_ret | use that in simp)+
  show ?thesis
    unfolding run_kv_write_def
    by (rule triple_lift_then triple_list triple_throw triple_andthen [OF triple_kv_store] rest | assumption)+
qed

lemma triple_with_offer:
  assumes "host_checked D"
  shows "triple wf_store (run_invocation_with_offer D R call) (\<lambda>_. True)"
  unfolding run_invocation_with_offer_def store_output_def
  by (rule triple_andthen [OF triple_run_kernel [OF assms]] triple_set triple_rules | simp)+

text \<open>The offer that comes back is the buffer that was offered, so its shape still fits.\<close>

lemma triple_run_offered:
  fixes D :: "'d external"
  assumes "host_checked D"
  shows "triple wf_store (run_offered D R call) (\<lambda>_. True)"
  unfolding triple_def
proof (intro allI impI conjI TrueI)
  fix x :: "'d executor" assume x: "wf_store x"
  let ?prev = "previous_output call x"
  let ?x = "take_offer ?prev x"
  obtain r y where run: "run_invocation_with_offer D R call ?x = (r, y)" by fastforce
  have "wf_store ?x" using x wf_drop_storage [OF x]
    by (auto simp: take_offer_def Let_def wf_store_def split: option.splits)
  with tripleD [OF triple_with_offer [OF assms] _ run] have y: "wf_store y" by blast
  have "recorded_keeps D (\<lambda>_. True)" by (simp add: recorded_keeps_def)
  from keepsD [OF keeps_run_with_offer [OF this] run]
  have offer: "offer_le (map_option (\<lambda>(_, b). buf_slice b) ?prev) (offered_output (kernels y))"
    by (simp add: exec_frame_def frame_le_def take_offer_def Let_def offer_output_def)
  have "wf_buffer (plain s (shape b))"
    if "?prev = Some (name, b)" "offered_output (kernels y) = Some s" for name b s
  proof -
    have "storage x name = Some b" "bf16 b = None"
      using that(1) by (auto simp: previous_output_def is_compact_def split: list.splits if_splits option.splits)
    moreover have "s = buf_slice b" using offer that by (simp add: offer_le_def)
    ultimately show ?thesis using wf_buffer_f32 [OF wf_storeD [OF x]] by simp
  qed
  then have "wf_store (restore_offer ?prev y)"
    using y by (auto simp: restore_offer_def reclaim_def wf_store_def set_storage_def split: option.splits)
  with y show "wf_store (snd (run_offered D R call x))"
    by (auto simp: run_offered_def Let_def run clear_offer_def wf_store_def split: sum.splits)
qed

lemma wf_observe: "wf_store (observe kind call x) \<longleftrightarrow> wf_store x"
  by (rule wf_store_same) (simp add: observe_def Let_def)

lemma wf_execute_invocation:
  assumes "host_checked D" "wf_store x"
  shows "wf_store (snd (execute_invocation D R call x))"
proof -
  have "triple wf_store (run_invocation D R call) (\<lambda>_. True)"
    unfolding run_invocation_def run_invocation_uncaptured_def expand_unsupported_compact_inputs_def
    by (rule triple_then triple_if triple_expand_inputs triple_run_kv_write triple_run_offered triple_modify
        triple_ret assms | simp add: wf_store_def record_captured_resources_def)+
  then have run: "triple wf_store (andthen (lift (rt_validate R call)) (\<lambda>_. run_invocation D R call)) (\<lambda>_. True)"
    by (rule triple_lift_then)
  obtain r y where y: "andthen (lift (rt_validate R call)) (\<lambda>_. run_invocation D R call)
      (observe DispatchStarted call x) = (r, y)" by fastforce
  with tripleD [OF run _ y] assms(2) have "wf_store y" by (simp add: wf_observe)
  with y assms(2) show ?thesis by (auto simp: execute_invocation_def Let_def wf_observe split: sum.splits)
qed

end
