(* ===== verification/Capture_Session.thy ===== *)
theory Capture_Session
  imports Dispatch_Frame
begin

text \<open>
  A whole step capture: \<open>begin_step_capture\<close>, a sequence of dispatches,
  \<open>end_step_capture\<close>, and the replays of the step. The storage a captured step reads and
  writes keeps its addresses, so the step can be replayed.
\<close>

section \<open>Where storage lies\<close>

definition located :: "'d executor \<Rightarrow> string \<Rightarrow> (u64 \<times> usize) option" where
  "located x name = map_option (\<lambda>b. (address b, buffer_len b)) (storage x name)"

lemma still_captured_located: "still_captured x (name, l) \<longleftrightarrow> located x name = Some l"
  by (cases l) (simp add: still_captured_def located_def)

lemma located_storage: "storage y = storage x \<Longrightarrow> located y = located x"
  by (simp add: located_def fun_eq_iff)

section \<open>The Kernel of a captured dispatch\<close>

text \<open>
  In a capture, a dispatch that returns ran one Kernel, changed nothing but the Kernels'
  state, noted no failure, and its result lies in the buffer that was offered.
\<close>

definition captured_run :: "('d, kernel_error, device_buffer) executor_op \<Rightarrow> bool" where
  "captured_run m \<longleftrightarrow> (\<forall>x b y. is_capturing (kernels x) \<longrightarrow> m x = (Inr b, y) \<longrightarrow>
     only_kernels x y \<and> goes_on (kernels x) (kernels y) \<and> offered_output (kernels x) = Some (buf_slice b) \<and> bf16 b = None)"

definition reads :: "('d, kernel_error, 'a) executor_op \<Rightarrow> bool" where
  "reads m \<longleftrightarrow> (\<forall>x. snd (m x) = x)"

lemma reads_basic: "reads (gets f)" "reads (lift r)" "reads (ensure b e)" "reads (get_input call i)"
  by (auto simp: reads_def gets_def lift_def ensure_def ret_def throw_def get_input_def andthen_def
      split: sum.splits option.splits)

lemma captured_run_read:
  assumes "reads m" "\<And>v. captured_run (f v)"
  shows "captured_run (andthen m f)"
  unfolding captured_run_def
proof (intro allI impI)
  fix x b y assume x: "is_capturing (kernels x)" and run: "andthen m f x = (Inr b, y)"
  obtain r x' where m: "m x = (r, x')" by fastforce
  with assms(1) have "x' = x" by (metis reads_def snd_conv)
  with m run obtain v where "f v x = (Inr b, y)" by (auto simp: andthen_def split: sum.splits)
  with assms(2) x show "only_kernels x y \<and> goes_on (kernels x) (kernels y) \<and> offered_output (kernels x) = Some (buf_slice b) \<and> bf16 b = None"
    unfolding captured_run_def by blast
qed

lemma kernel_call_run: "kernel_call m x = (Inr b, y) \<Longrightarrow>
    m (kernels x) = (Inr b, kernels y) \<and> only_kernels x y"
  by (auto simp: kernel_call_def map_err_def kern_def inside_def only_kernels_def split: prod.splits sum.splits)

lemma captured_run_kernel: "places Some m \<Longrightarrow> captured_run (kernel_call m)"
  unfolding captured_run_def
proof (intro allI impI)
  fix x b y assume m: "places Some m" and x: "is_capturing (kernels x)" and run: "kernel_call m x = (Inr b, y)"
  from kernel_call_run [OF run] placesD [OF m x, of b "kernels y"]
  show "only_kernels x y \<and> goes_on (kernels x) (kernels y) \<and> offered_output (kernels x) = Some (buf_slice b) \<and> bf16 b = None" by simp
qed

text \<open>An operation that a capture refuses.\<close>

definition refused :: "('d, 'a) kernel_op \<Rightarrow> bool" where
  "refused m \<longleftrightarrow> (\<forall>k x k'. is_capturing k \<longrightarrow> m k \<noteq> (Inr x, k'))"

lemma refused_then: "refused (andthen (forbid_in_capture w) f)"
  by (auto simp: refused_def andthen_def forbid_in_capture_def is_capturing_def Let_def split: option.splits)

lemma refusedD: "refused m \<Longrightarrow> is_capturing k \<Longrightarrow> \<exists>e k'. m k = (Inl e, k')"
  unfolding refused_def by (metis sumE surj_pair)

lemma refused_andthen: "refused m \<Longrightarrow> refused (andthen m f)"
  by (subst refused_def) (auto simp: andthen_def dest!: refusedD)

lemma refused_transfers: "refused (download D b)" "refused (expand D b)" "refused (clone_buffer D b)"
  unfolding download_def expand_def clone_buffer_def by (rule refused_then refused_andthen)+

lemma captured_run_refused:
  assumes "refused m"
  shows "captured_run (andthen (kernel_call m) f)"
  unfolding captured_run_def
proof (intro allI impI)
  fix x b y assume x: "is_capturing (kernels x)" and run: "andthen (kernel_call m) f x = (Inr b, y)"
  obtain e k' where "m (kernels x) = (Inl e, k')" using refusedD [OF assms x] by blast
  with run have False by (simp add: andthen_def kernel_call_def map_err_def kern_def inside_def)
  then show "only_kernels x y \<and> goes_on (kernels x) (kernels y) \<and> offered_output (kernels x) = Some (buf_slice b) \<and> bf16 b = None" ..
qed

lemma captured_run_throw: "captured_run (throw e)"
  by (simp add: captured_run_def throw_def)

lemma captured_run_if: "(b \<Longrightarrow> captured_run m) \<Longrightarrow> (\<not> b \<Longrightarrow> captured_run n) \<Longrightarrow> captured_run (if b then m else n)"
  by simp

lemma captured_run_Let: "captured_run (f x) \<Longrightarrow> captured_run (let y = x in f y)"
  by simp

lemmas captured_rules = captured_run_read captured_run_throw captured_run_if captured_run_Let reads_basic

lemma captured_run_kernels: "captured_run (run_kernel D R call)"
proof -
  note rules = captured_rules captured_run_refused captured_run_kernel kernel_in_place refused_transfers
  have "captured_run (dispatch_matmul D call)" unfolding dispatch_matmul_def by (rule rules)+
  moreover have "captured_run (dispatch_rope D R call)" unfolding dispatch_rope_def by (rule rules)+
  moreover have "captured_run (dispatch_attention D call)" unfolding dispatch_attention_def by (rule rules)+
  moreover have "captured_run (dispatch_half D call)" unfolding dispatch_half_def by (rule rules)+
  ultimately show ?thesis unfolding run_kernel_def by - (assumption | rule rules)+
qed

section \<open>A captured dispatch keeps storage where it is\<close>

definition stays :: "('d, kernel_error, 'a) executor_op \<Rightarrow> bool" where
  "stays m \<longleftrightarrow> (\<forall>x v y. is_capturing (kernels x) \<longrightarrow> m x = (Inr v, y) \<longrightarrow>
     located y = located x \<and> goes_on (kernels x) (kernels y))"

lemma staysD: "stays m \<Longrightarrow> is_capturing (kernels x) \<Longrightarrow> m x = (Inr v, y) \<Longrightarrow>
    located y = located x \<and> goes_on (kernels x) (kernels y)"
  by (auto simp: stays_def)

text \<open>No compact input is expanded in a capture.\<close>

lemma expand_inputs_captured:
  assumes "is_capturing (kernels x)" "expand_inputs D name i ins x = (Inr u, y)"
  shows "y = x"
  using assms
proof (induction ins arbitrary: i x)
  case Nil
  then show ?case by (simp add: ret_def)
next
  case (Cons r ins)
  show ?case
  proof (cases "storage x (rid r) = None \<or> (\<exists>b. storage x (rid r) = Some b \<and> (reads_compact name i \<or> \<not> is_compact b))")
    case True
    then have "expand_inputs D name (Suc i) ins x = (Inr u, y)"
      using Cons.prems(2) by (auto simp: andthen_def gets_def ret_def)
    then show ?thesis using Cons.IH Cons.prems(1) by blast
  next
    case False
    then obtain b where b: "storage x (rid r) = Some b" "\<not> reads_compact name i" "is_compact b" by auto
    obtain e k' where "expand D b (kernels x) = (Inl e, k')"
      using refusedD [OF refused_transfers(2) Cons.prems(1)] by blast
    then show ?thesis using b Cons.prems(2)
      by (simp add: andthen_def gets_def kernel_call_def map_err_def kern_def inside_def)
  qed
qed

lemma located_set_storage:
  assumes "located x name = Some (address b, buffer_len b)"
  shows "located (set_storage name b y) = located x \<longleftrightarrow> (\<forall>n. n \<noteq> name \<longrightarrow> located y n = located x n)"
  using assms by (auto simp: located_def set_storage_def fun_eq_iff)

text \<open>The in-place KV write puts the same store back.\<close>

lemma kv_write_back_located:
  assumes "kv_write_back D rows out off store x = (r, y)"
  shows "storage y = (storage x)(out \<mapsto> store)"
proof (cases "storage x rows")
  case None
  then show ?thesis using assms by (auto simp: kv_write_back_def set_storage_def)
next
  case (Some b)
  obtain q z where w: "kernel_call (kv_write D store b off) x = (q, z)" by fastforce
  moreover have "only_kernels x z"
    using w unfolding kernel_call_def by (rule keepsD [OF ok.keeps_map_err [OF keeps_kern]])
  ultimately show ?thesis using assms Some
    by (auto simp: kv_write_back_def set_storage_def only_kernels_fields)
qed

lemma kv_write_back_goes_on:
  assumes "kv_write_back D rows out off store x = (Inr u, y)" "is_capturing (kernels x)"
  shows "goes_on (kernels x) (kernels y)"
proof -
  obtain b where b: "storage x rows = Some b"
    using assms(1) by (cases "storage x rows") (simp_all add: kv_write_back_def)
  obtain q z where w: "kernel_call (kv_write D store b off) x = (q, z)" by fastforce
  then obtain v where "q = Inr v" using assms(1) b by (cases q) (auto simp: kv_write_back_def)
  from kernel_call_run [OF w [unfolded this]] have "kv_write D store b off (kernels x) = (Inr v, kernels z)" ..
  from placesD [OF quiet_kv_write assms(2) this] have "goes_on (kernels x) (kernels z)" by simp
  then show ?thesis using assms(1) b w by (auto simp: kv_write_back_def set_storage_def)
qed

lemma stays_kv_write: "stays (run_kv_write D call)"
  unfolding stays_def
proof (intro allI impI)
  fix x v y assume x: "is_capturing (kernels x)" and run: "run_kv_write D call x = (Inr v, y)"
  then obtain off s w out outs store z where
    store_id: "input_resource_id call 0 = Inr s" and out: "outputs call = out # outs"
    and st: "kv_store D s (rid out) x = (Inr (Some store), z)"
    and wb: "\<exists>u. kv_write_back D w (rid out) off store z = (Inr u, y)"
    by (auto simp: run_kv_write_def andthen_def lift_def throw_def ret_def
        split: sum.splits list.splits prod.splits option.splits)
  show "located y = located x \<and> goes_on (kernels x) (kernels y)"
  proof (cases "rid out = s")
    case True
    with st have z: "z = drop_storage s x" "storage x s = Some store"
      by (auto simp: kv_store_def andthen_def gets_def modify_def ret_def)
    from wb obtain u where "kv_write_back D w (rid out) off store z = (Inr u, y)" ..
    from kv_write_back_located [OF this] z True
    have "storage y = storage x" by (auto simp: drop_storage_def fun_eq_iff)
    then have "located y = located x" by (rule located_storage)
    moreover have "goes_on (kernels z) (kernels y)"
      using kv_write_back_goes_on [OF \<open>kv_write_back D w (rid out) off store z = (Inr u, y)\<close>] x z
      by (simp add: drop_storage_def)
    ultimately show ?thesis using z by (simp add: drop_storage_def)
  next
    case False
    with st obtain b where "kernel_call (clone_buffer D b) x = (Inr store, z)"
      by (auto simp: kv_store_def andthen_def gets_def ret_def split: option.splits sum.splits prod.splits)
    from kernel_call_run [OF this] have c: "clone_buffer D b (kernels x) = (Inr store, kernels z)" ..
    obtain e k' where "clone_buffer D b (kernels x) = (Inl e, k')"
      using refusedD [OF refused_transfers(3) x] by blast
    with c show ?thesis by simp
  qed
qed

text \<open>The offered output comes back under the same name, at the same address.\<close>

lemma stays_run_offered: "stays (run_offered D R call)"
  unfolding stays_def
proof (intro allI impI)
  fix x v y assume x: "is_capturing (kernels x)" and run: "run_offered D R call x = (Inr v, y)"
  let ?prev = "previous_output call x"
  obtain z where z: "run_invocation_with_offer D R call (take_offer ?prev x) = (Inr v, z)"
    and y: "y = clear_offer z"
    using run by (auto simp: run_offered_def Let_def split: prod.splits sum.splits)
  from z obtain b w where k: "run_kernel D R call (take_offer ?prev x) = (Inr b, w)"
    and s: "store_output call 0 b w = (Inr (hd (outputs call)), z)" and out: "outputs call \<noteq> []"
    by (auto simp: run_invocation_with_offer_def andthen_def store_output_def nth_opt_def ret_def throw_def
        modify_def hd_conv_nth split: prod.splits sum.splits option.splits if_splits)
  have "is_capturing (kernels (take_offer ?prev x))"
    using x by (simp add: take_offer_def Let_def offer_output_def drop_storage_def is_capturing_def split: option.split)
  with captured_run_kernels k have ok: "only_kernels (take_offer ?prev x) w"
    "goes_on (kernels (take_offer ?prev x)) (kernels w)"
    "offered_output (kernels (take_offer ?prev x)) = Some (buf_slice b)" "bf16 b = None"
    unfolding captured_run_def by blast+
  then obtain name old where prev: "?prev = Some (name, old)" and slice: "buf_slice old = buf_slice b"
    by (auto simp: take_offer_def Let_def offer_output_def drop_storage_def split: option.splits)
  from prev have name: "name = rid (hd (outputs call))" and old: "storage x name = Some old" "bf16 old = None"
    by (auto simp: previous_output_def is_compact_def split: list.splits if_splits option.splits)
  have "storage z = (storage x)(name \<mapsto> b)"
    using s out ok(1) prev name
    by (auto simp: store_output_def nth_opt_def andthen_def modify_def ret_def set_storage_def only_kernels_fields
        take_offer_def Let_def drop_storage_def hd_conv_nth)
  moreover have "located x name = Some (address b, buffer_len b)"
    using old ok(4) slice by (simp add: located_def address_def buffer_len_def)
  moreover have "goes_on (kernels x) (kernels y)"
    using ok(2) s out by (auto simp: y clear_offer_def drop_offer_def take_offer_def Let_def offer_output_def
        drop_storage_def goes_on_def noted_def is_capturing_def store_output_def nth_opt_def andthen_def modify_def
        ret_def set_storage_def split: option.splits)
  ultimately show "located y = located x \<and> goes_on (kernels x) (kernels y)"
    by (auto simp: located_def y clear_offer_def fun_eq_iff)
qed

lemma stays_run_invocation: "stays (run_invocation D R call)"
  unfolding stays_def
proof (intro allI impI)
  fix x v y assume x: "is_capturing (kernels x)" and run: "run_invocation D R call x = (Inr v, y)"
  then obtain u z w where e: "expand_unsupported_compact_inputs D call x = (Inr u, z)"
    and r: "(if kernel_name call = ''kv-write'' then run_kv_write D call else run_offered D R call) z = (Inr v, w)"
    and y: "y = record_captured_resources call w"
    by (auto simp: run_invocation_def run_invocation_uncaptured_def andthen_def modify_def ret_def
        split: prod.splits sum.splits)
  from expand_inputs_captured [OF x] e have "z = x" by (simp add: expand_unsupported_compact_inputs_def)
  with r have "located w = located x \<and> goes_on (kernels x) (kernels w)"
    using staysD [OF stays_kv_write x] staysD [OF stays_run_offered x]
    by (cases "kernel_name call = ''kv-write''") auto
  moreover have "located y = located w" by (rule located_storage) (simp add: record_captured_resources_def y)
  ultimately show "located y = located x \<and> goes_on (kernels x) (kernels y)"
    by (simp add: record_captured_resources_def y)
qed

section \<open>What the capture recorded\<close>

lemma set_extend_with: "set (extend_with added m) \<subseteq> set m \<union> set added"
proof (induction added arbitrary: m)
  case Nil
  then show ?case by (simp add: extend_with_def)
next
  case (Cons a added)
  obtain k v where a: "a = (k, v)" by (cases a)
  have "set (AList.update k v m) \<subseteq> set m \<union> {(k, v)}" by (induction m) auto
  moreover have "extend_with (a # added) m = extend_with added (AList.update k v m)" by (simp add: extend_with_def a)
  ultimately show ?case using Cons [of "AList.update k v m"] a by auto
qed

lemma touched_located: "(name, l) \<in> set (touched x call) \<Longrightarrow> located x name = Some l"
  unfolding touched_def located_def by (auto split: option.splits) (metis option.inject)+

text \<open>The stored resources a call names, and the resources a capture has recorded.\<close>

definition uses :: "'d executor \<Rightarrow> invocation \<Rightarrow> string set" where
  "uses x call = {rid r | r. r \<in> set (inputs call @ outputs call) \<and> storage x (rid r) \<noteq> None}"

definition recorded :: "'d executor \<Rightarrow> string set" where
  "recorded x = (case step_recording x of None \<Rightarrow> {} | Some rc \<Rightarrow> fst ` set (resources rc))"

lemma uses_touched: "fst ` set (touched x call) = uses x call"
proof -
  let ?f = "\<lambda>r. case storage x (rid r) of Some b \<Rightarrow> [(rid r, address b, buffer_len b)] | None \<Rightarrow> []"
  have f: "fst ` set (?f r) = (if storage x (rid r) = None then {} else {rid r})" for r
    by (cases "storage x (rid r)") simp_all
  have u: "fst ` set (concat (map ?f rs)) = (\<Union>r \<in> set rs. if storage x (rid r) = None then {} else {rid r})" for rs
    by (simp only: set_concat set_map image_UN image_image f)
  show ?thesis unfolding touched_def uses_def u by (auto split: if_splits)
qed

lemma located_stored: "located x name = None \<longleftrightarrow> storage x name = None"
  by (simp add: located_def)

lemma uses_located: "located y = located x \<Longrightarrow> uses y call = uses x call"
  unfolding uses_def located_stored [symmetric] by simp

lemma keys_extend_with: "fst ` set (extend_with added m) = fst ` set m \<union> fst ` set added"
proof (induction added arbitrary: m)
  case Nil
  then show ?case by (simp add: extend_with_def)
next
  case (Cons a added)
  obtain k v where a: "a = (k, v)" by (cases a)
  have "fst ` set (AList.update k v m) = insert k (fst ` set m)" by (induction m) auto
  moreover have "extend_with (a # added) m = extend_with added (AList.update k v m)" by (simp add: extend_with_def a)
  ultimately show ?case using Cons [of "AList.update k v m"] a by auto
qed

definition recorded_stays :: "'d executor \<Rightarrow> bool" where
  "recorded_stays x \<longleftrightarrow> is_capturing (kernels x) \<and> noted (kernels x) = None \<and>
     (\<exists>rc. step_recording x = Some rc \<and> list_all (still_captured x) (resources rc))"

lemma recorded_staysD:
  "recorded_stays x \<Longrightarrow> step_recording x = Some rc \<Longrightarrow> (name, l) \<in> set (resources rc) \<Longrightarrow> located x name = Some l"
  by (auto simp: recorded_stays_def list_all_iff still_captured_located)

lemma recording_uncaptured:
  assumes "run_invocation_uncaptured D R call x = (r, y)"
  shows "step_recording y = step_recording x"
proof -
  have "recorded_keeps D (\<lambda>_. True)" by (simp add: recorded_keeps_def)
  from keepsD [OF keeps_run_uncaptured [OF this] assms] show ?thesis by (simp add: exec_frame_def)
qed

lemma located_observe: "located (observe kind call x) = located x"
  by (rule located_storage) (simp add: observe_def Let_def)

text \<open>
  A successful dispatch in a capture keeps every recorded resource where it was recorded,
  and records where its own inputs and outputs are.
\<close>

lemma recorded_stays_dispatch:
  assumes rec: "recorded_stays x" and run: "execute_invocation D R call x = (r, y)"
    and ok: "result_outcome r = Succeeded u"
  shows "recorded_stays y \<and> located y = located x \<and> recorded x \<subseteq> recorded y \<and> uses y call \<subseteq> recorded y"
proof -
  let ?x = "observe DispatchStarted call x"
  have cap: "is_capturing (kernels ?x)" and n: "noted (kernels ?x) = None"
    using rec by (simp_all add: recorded_stays_def observe_def Let_def)
  obtain z where z: "run_invocation D R call ?x = (Inr r, z)" and y: "y = observe DispatchCompleted call z"
    using run ok by (auto simp: execute_invocation_def Let_def andthen_def lift_def result_failure_def
        split: if_splits sum.splits prod.splits)
  then obtain w where w: "run_invocation_uncaptured D R call ?x = (Inr r, w)"
    and z': "z = record_captured_resources call w"
    by (auto simp: run_invocation_def andthen_def modify_def ret_def split: prod.splits sum.splits)
  have loc: "located z = located x" and on: "goes_on (kernels ?x) (kernels z)"
    using staysD [OF stays_run_invocation cap z] by (simp_all add: located_observe)
  have loc_w: "located w = located z" by (rule located_storage) (simp add: z' record_captured_resources_def)
  obtain rc where rc: "step_recording x = Some rc" using rec by (auto simp: recorded_stays_def)
  have rw: "step_recording w = Some rc" using recording_uncaptured [OF w] rc by (simp add: observe_def Let_def)
  have open_y: "is_capturing (kernels y)" "noted (kernels y) = None"
    using on n by (simp_all add: goes_on_def y observe_def Let_def)
  have here: "located y name = Some l" if "(name, l) \<in> set (extend_with (touched w call) (resources rc))" for name l
  proof -
    from subsetD [OF set_extend_with that] have "located x name = Some l"
      using recorded_staysD [OF rec rc, of name l] touched_located [of name l w call] loc loc_w by auto
    then show ?thesis using loc by (simp add: y located_observe)
  qed
  have ry: "step_recording y = Some (rc\<lparr>resources := extend_with (touched w call) (resources rc),
      embedding_ids := extend_with (touched_ids w call) (embedding_ids rc)\<rparr>)"
    using rw by (simp add: y z' record_captured_resources_def observe_def Let_def)
  have ly: "located y = located x" using loc by (simp add: y located_observe)
  then have "located y = located w" using loc loc_w by simp
  from uses_located [OF this] have "uses y call = fst ` set (touched w call)" by (simp only: uses_touched)
  moreover have "recorded y = recorded x \<union> fst ` set (touched w call)"
    by (simp add: recorded_def ry rc keys_extend_with)
  moreover have "list_all (still_captured y) (extend_with (touched w call) (resources rc))"
    unfolding list_all_iff using here by (auto simp only: still_captured_located)
  then have "recorded_stays y" using open_y ry by (simp add: recorded_stays_def)
  ultimately show ?thesis using ly by simp
qed

section \<open>A session\<close>

fun dispatch_all ::
  "'d external \<Rightarrow> runtime \<Rightarrow> invocation list \<Rightarrow> 'd executor \<Rightarrow> kernel_result list \<times> 'd executor" where
  "dispatch_all D R [] x = ([], x)"
| "dispatch_all D R (c # cs) x =
     (let (r, x) = execute_invocation D R c x; (rs, x) = dispatch_all D R cs x in (r # rs, x))"

definition succeeded :: "kernel_result \<Rightarrow> bool" where
  "succeeded r \<longleftrightarrow> (case result_outcome r of Succeeded _ \<Rightarrow> True | Failed _ \<Rightarrow> False)"

lemma session_stays:
  assumes "recorded_stays x" "dispatch_all D R calls x = (rs, y)" "list_all succeeded rs"
  shows "recorded_stays y \<and> located y = located x \<and> recorded x \<subseteq> recorded y \<and>
    (\<forall>call \<in> set calls. uses y call \<subseteq> recorded y)"
  using assms
proof (induction calls arbitrary: x rs)
  case Nil
  then show ?case by simp
next
  case (Cons c cs)
  obtain r z where r: "execute_invocation D R c x = (r, z)" by fastforce
  obtain qs w where q: "dispatch_all D R cs z = (qs, w)" by fastforce
  with r Cons.prems(2) have rs: "rs = r # qs" "y = w" by simp_all
  with Cons.prems(3) have "succeeded r" and qs: "list_all succeeded qs" by simp_all
  then obtain u where u: "result_outcome r = Succeeded u"
    by (cases "result_outcome r") (simp_all add: succeeded_def)
  from recorded_stays_dispatch [OF Cons.prems(1) r u]
  have z: "recorded_stays z" "located z = located x" "recorded x \<subseteq> recorded z" "uses z c \<subseteq> recorded z" by simp_all
  from Cons.IH [OF z(1) _ qs] q rs
  have "recorded_stays y" "located y = located z" "recorded z \<subseteq> recorded y" "\<forall>call \<in> set cs. uses y call \<subseteq> recorded y"
    by simp_all
  with z uses_located [of y z c] show ?case by auto
qed

lemma in_phase_run: "in_phase p m x = (r, y) \<Longrightarrow> only_kernels x y \<and>
    (\<forall>v. r = Inr v \<longrightarrow> m (kernels x) = (Inr v, kernels y))"
  by (auto simp: in_phase_def map_err_def kern_def inside_def only_kernels_def split: prod.splits sum.splits)

text \<open>Every run of \<open>m\<close> that returns ends in a state satisfying \<open>Q\<close>.\<close>

definition ends :: "('s, 'e, 'a) exec \<Rightarrow> ('s \<Rightarrow> bool) \<Rightarrow> bool" where
  "ends m Q \<longleftrightarrow> (\<forall>s x t. m s = (Inr x, t) \<longrightarrow> Q t)"

lemma endsD: "ends m Q \<Longrightarrow> m s = (Inr x, t) \<Longrightarrow> Q t"
  by (auto simp: ends_def)

lemma ends_andthen: "(\<And>x. ends (f x) Q) \<Longrightarrow> ends (andthen m f) Q"
  by (auto simp: ends_def andthen_def split: prod.splits sum.splits)

lemma begin_capture_open: "ends (begin_capture D attrs) (\<lambda>k. is_capturing k \<and> noted k = None)"
  unfolding begin_capture_def by (rule ends_andthen)+ (simp add: ends_def modify_def is_capturing_def noted_def)

text \<open>A begun capture is open in the Kernels, with nothing recorded yet.\<close>

lemma begin_recorded:
  assumes "begin_step_capture D attrs x = (Inr (), y)"
  shows "recorded_stays y"
proof -
  from assms obtain z where z: "in_phase PhaseSubmit (begin_capture D attrs) x = (Inr (), z)"
    and y: "y = z\<lparr>step_recording := Some \<lparr>resources = [], embedding_ids = []\<rparr>\<rparr>"
    by (auto simp: begin_step_capture_def andthen_def modify_def split: prod.splits sum.splits if_splits)
  from in_phase_run [OF z] have "begin_capture D attrs (kernels x) = (Inr (), kernels z)" by simp
  from endsD [OF begin_capture_open this] have "is_capturing (kernels z)" "noted (kernels z) = None" by simp_all
  then show ?thesis by (simp add: recorded_stays_def y)
qed

lemma end_capture_Inr:
  assumes "end_capture D k = (Inr cs, k')"
  obtains c where "capture k = Some c" "failure c = None" "step_offset cs = cap_offset c"
    "step_max_offset cs = max_offset c" "step_has_embedding cs = has_embedding c"
  using assms
  by (auto simp: end_capture_def andthen_def gets_def modify_def throw_def lift_def ret_def
      split: option.splits prod.splits sum.splits)

lemma end_step_capture_Inr:
  assumes "end_step_capture D x = (Inr name, y)"
  obtains rc c cs where "step_recording x = Some rc" "capture (kernels x) = Some c" "failure c = None"
    "step_offset cs = cap_offset c" "step_max_offset cs = max_offset c"
    "step_has_embedding cs = has_embedding c"
    "storage y = storage x" "captures y = (captures x)(name \<mapsto> \<lparr>cstep = cs, captured = rc\<rparr>)"
    "name = provider_name x @ '':step-capture:'' @ decimal (next_capture x)"
    "next_capture y = next_capture x + 1" "step_recording y = None" "provider_name y = provider_name x"
proof -
  obtain rc where rc: "step_recording x = Some rc"
    using assms by (cases "step_recording x") (simp_all add: end_step_capture_def)
  let ?x = "x\<lparr>step_recording := None\<rparr>"
  let ?finish = "\<lambda>cs. andthen (in_phase PhaseComplete (launch_captured D cs 0)) (\<lambda>_.
      if step_has_embedding cs then in_phase PhaseComplete (check_embedding_flag D) else ret ())"
  have "keeps only_kernels (?finish cs)" for cs
    by (rule ok.keeps_andthen keeps_in_phase keeps_if ok.keeps_ret)+
  note finish = this
  from assms rc obtain cs z where z: "in_phase PhaseComplete (end_capture D) ?x = (Inr cs, z)"
    and rest: "andthen (in_phase PhaseComplete (launch_captured D cs 0)) (\<lambda>_.
        andthen (if step_has_embedding cs then in_phase PhaseComplete (check_embedding_flag D) else ret ()) (\<lambda>_.
        add_capture cs rc)) z = (Inr name, y)"
    by (auto simp: end_step_capture_def andthen_def split: prod.splits sum.splits)
  then obtain u w where w: "?finish cs z = (Inr u, w)" and y: "add_capture cs rc w = (Inr name, y)"
    by (auto simp: andthen_def split: prod.splits sum.splits)
  from in_phase_run [OF z] have zk: "only_kernels ?x z" and e: "end_capture D (kernels x) = (Inr cs, kernels z)"
    by simp_all
  from keepsD [OF finish w] have wk: "only_kernels z w" .
  note fields = only_kernels_fields [OF ok.trans [OF zk wk]]
  obtain c where c: "capture (kernels x) = Some c" "failure c = None" "step_offset cs = cap_offset c"
    "step_max_offset cs = max_offset c" "step_has_embedding cs = has_embedding c"
    by (rule end_capture_Inr [OF e])
  from y fields have "name = provider_name x @ '':step-capture:'' @ decimal (next_capture x)"
    "y = w\<lparr>next_capture := next_capture x + 1,
      captures := (captures x)(name \<mapsto> \<lparr>cstep = cs, captured = rc\<rparr>)\<rparr>"
    by (auto simp: add_capture_def Let_def)
  with that [OF rc c] fields show thesis by simp
qed

section \<open>What the driver makes of a step\<close>

text \<open>Setting the offset and launching the graph: the device afterwards, when the driver accepts both.\<close>

definition graph_runs :: "'d external \<Rightarrow> cuda_graph \<Rightarrow> cuda_slice \<Rightarrow> u64 \<Rightarrow> 'd \<Rightarrow> 'd option" where
  "graph_runs D g cell offset d =
     (case cu_memcpy_htod D (HU64 [offset]) (ptr cell) d of
        (Inl _, _) \<Rightarrow> None
      | (Inr _, d) \<Rightarrow> (case cu_graph_launch D g d of (Inl _, _) \<Rightarrow> None | (Inr _, d) \<Rightarrow> Some d))"

text \<open>The replay's inputs, written over the buffers that hold them.\<close>

fun inputs_written ::
  "'d external \<Rightarrow> (string \<Rightarrow> device_buffer option) \<Rightarrow> (string \<times> host_tensor) list \<Rightarrow> 'd \<Rightarrow> 'd option" where
  "inputs_written D st [] d = Some d"
| "inputs_written D st ((name, tensor) # rest) d =
     (case st name of
        None \<Rightarrow> None
      | Some b \<Rightarrow> (case cu_memcpy_htod D (HF32 (tdata tensor)) (ptr (buf_slice b)) d of
          (Inl _, _) \<Rightarrow> None | (Inr _, d) \<Rightarrow> inputs_written D st rest d))"

text \<open>The embedding flag reads zero: no captured lookup met an invalid id.\<close>

definition flag_clear :: "'d external \<Rightarrow> cuda_slice option \<Rightarrow> 'd \<Rightarrow> bool" where
  "flag_clear D flag d \<longleftrightarrow> (case flag of
     None \<Rightarrow> True
   | Some s \<Rightarrow> (case cu_dtoh_i32 D (ptr s) d of
       (Inl _, _) \<Rightarrow> False | (Inr v, d) \<Rightarrow> v = 0 \<and> fst (cu_synchronize D d) = Inr ()))"

text \<open>The end of a capture: the graph, when the driver gives one and runs it once at offset zero.\<close>

definition graph_of_step :: "'d external \<Rightarrow> kernel_capture \<Rightarrow> cuda_slice option \<Rightarrow> 'd \<Rightarrow> cuda_graph option" where
  "graph_of_step D c flag d =
     (case cu_end_capture D d of
        (Inr (Some g), d) \<Rightarrow>
          (case graph_runs D g (cap_offset c) 0 d of
             None \<Rightarrow> None
           | Some d \<Rightarrow> if has_embedding c \<and> \<not> flag_clear D flag d then None else Some g)
      | _ \<Rightarrow> None)"

text \<open>An input a replay accepts: recorded, of its buffer's length, and valid tokens where it holds ids.\<close>

definition acceptable :: "'d executor \<Rightarrow> recording \<Rightarrow> string \<times> host_tensor \<Rightarrow> bool" where
  "acceptable x rc = (\<lambda>(name, tensor).
     map_of (resources rc) name \<noteq> None \<and>
     (case map_of (embedding_ids rc) name of None \<Rightarrow> True | Some vocab \<Rightarrow> list_all (valid_token vocab) (tdata tensor)) \<and>
     (case storage x name of None \<Rightarrow> False
      | Some b \<Rightarrow> bf16 b = None \<and> data_len (tdata tensor) = slen (buf_slice b)))"

section \<open>The end of a capture and its replays\<close>

lemma drv_run:
  "m (device k) = (Inr v, d) \<Longrightarrow> drv D m k = (Inr v, k\<lparr>device := d\<rparr>)"
  "m (device k) = (Inl e, d) \<Longrightarrow> drv D m k = (Inl (from_driver_error (cu_text D) e), k\<lparr>device := d\<rparr>)"
  by (simp_all add: drv_def map_err_def inside_def)

lemma in_phase_outcome:
  "m (kernels x) = (Inr v, k) \<Longrightarrow> in_phase p m x = (Inr v, x\<lparr>kernels := k\<rparr>)"
  "m (kernels x) = (Inl e, k) \<Longrightarrow> \<exists>e'. in_phase p m x = (Inl e', x\<lparr>kernels := k\<rparr>)"
  by (simp_all add: in_phase_def map_err_def kern_def inside_def)

lemma launch_captured_run:
  "graph_runs D (graph cs) (step_offset cs) off (device k) = Some d \<Longrightarrow>
    launch_captured D cs off k = (Inr (), k\<lparr>device := d\<rparr>)"
  "graph_runs D (graph cs) (step_offset cs) off (device k) = None \<Longrightarrow>
    \<exists>e k'. launch_captured D cs off k = (Inl e, k')"
  by (auto simp: graph_runs_def launch_captured_def andthen_def drv_run split: prod.splits sum.splits)

lemma check_flag_run:
  "flag_clear D (embedding_flag k) (device k) \<Longrightarrow> \<exists>d. check_embedding_flag D k = (Inr (), k\<lparr>device := d\<rparr>)"
  "\<not> flag_clear D (embedding_flag k) (device k) \<Longrightarrow> \<exists>e k'. check_embedding_flag D k = (Inl e, k')"
proof -
  have "(flag_clear D (embedding_flag k) (device k) \<longrightarrow> (\<exists>d. check_embedding_flag D k = (Inr (), k\<lparr>device := d\<rparr>))) \<and>
    (\<not> flag_clear D (embedding_flag k) (device k) \<longrightarrow> (\<exists>e k'. check_embedding_flag D k = (Inl e, k')))"
  proof (cases "embedding_flag k")
    case None
    then show ?thesis
      by (simp add: flag_clear_def check_embedding_flag_def andthen_def gets_def ret_def) (metis kernels.surjective kernels.update_convs(1))
  next
    case (Some s)
    note defs = flag_clear_def check_embedding_flag_def andthen_def gets_def ret_def ensure_def throw_def Some
    obtain r d where i: "cu_dtoh_i32 D (ptr s) (device k) = (r, d)" by fastforce
    obtain q e where s: "cu_synchronize D d = (q, e)" by fastforce
    show ?thesis using i s by (cases r; cases q) (auto simp: defs drv_run)
  qed
  then show "flag_clear D (embedding_flag k) (device k) \<Longrightarrow> \<exists>d. check_embedding_flag D k = (Inr (), k\<lparr>device := d\<rparr>)"
    "\<not> flag_clear D (embedding_flag k) (device k) \<Longrightarrow> \<exists>e k'. check_embedding_flag D k = (Inl e, k')" by blast+
qed

text \<open>The end succeeds exactly when the driver gives a graph and runs it.\<close>

lemma end_capture_run:
  assumes "capture k = Some c" "failure c = None"
  shows "cu_end_capture D (device k) = (Inr (Some g), d) \<Longrightarrow> end_capture D k =
      (Inr \<lparr>graph = g, step_offset = cap_offset c, step_max_offset = max_offset c, step_has_embedding = has_embedding c\<rparr>,
       k\<lparr>capture := None, device := d\<rparr>)"
    and "(\<And>g. fst (cu_end_capture D (device k)) \<noteq> Inr (Some g)) \<Longrightarrow> \<exists>e k'. end_capture D k = (Inl e, k')"
proof -
  obtain r d' where e: "cu_end_capture D (device k) = (r, d')" by fastforce
  note defs = end_capture_def andthen_def gets_def modify_def throw_def lift_def ret_def drv_def map_err_def inside_def
  show "cu_end_capture D (device k) = (Inr (Some g), d) \<Longrightarrow> end_capture D k =
      (Inr \<lparr>graph = g, step_offset = cap_offset c, step_max_offset = max_offset c, step_has_embedding = has_embedding c\<rparr>,
       k\<lparr>capture := None, device := d\<rparr>)"
    using assms by (simp add: defs)
  show "\<exists>e k'. end_capture D k = (Inl e, k')" if "\<And>g. fst (cu_end_capture D (device k)) \<noteq> Inr (Some g)"
    using assms that e by (cases r) (auto simp: defs split: option.split)
qed

lemma end_step_capture_run:
  assumes rc: "step_recording x = Some rc" and c: "capture (kernels x) = Some c" "failure c = None"
  shows "case graph_of_step D c (embedding_flag (kernels x)) (device (kernels x)) of
      None \<Rightarrow> \<exists>e. fst (end_step_capture D x) = Inl e
    | Some g \<Rightarrow> \<exists>name y. end_step_capture D x = (Inr name, y) \<and> storage y = storage x \<and>
        captures y name = Some \<lparr>cstep = \<lparr>graph = g, step_offset = cap_offset c, step_max_offset = max_offset c,
          step_has_embedding = has_embedding c\<rparr>, captured = rc\<rparr>"
proof -
  let ?x = "x\<lparr>step_recording := None\<rparr>"
  let ?flag = "embedding_flag (kernels x)"
  note defs = end_step_capture_def rc andthen_def graph_of_step_def
  obtain r d where e: "cu_end_capture D (device (kernels x)) = (r, d)" by fastforce
  show ?thesis
  proof (cases "\<exists>g. r = Inr (Some g)")
    case False
    then have "\<And>g. fst (cu_end_capture D (device (kernels ?x))) \<noteq> Inr (Some g)" using e by auto
    from end_capture_run(2) [where k = "kernels ?x", OF _ c(2) this] c(1)
    obtain f k where "end_capture D (kernels ?x) = (Inl f, k)" by auto
    from in_phase_outcome(2) [of "end_capture D" ?x, OF this, of PhaseComplete] False e show ?thesis
      by (auto simp: defs split: sum.splits option.splits)
  next
    case True
    then obtain g where r: "r = Inr (Some g)" by blast
    let ?cs = "\<lparr>graph = g, step_offset = cap_offset c, step_max_offset = max_offset c, step_has_embedding = has_embedding c\<rparr>"
    let ?k = "(kernels x)\<lparr>capture := None, device := d\<rparr>"
    have "end_capture D (kernels ?x) = (Inr ?cs, ?k)"
      using end_capture_run(1) [where k = "kernels ?x", OF _ c(2), of D g d] c(1) e r by simp
    note ended = in_phase_outcome(1) [of "end_capture D" ?x, OF this, of PhaseComplete]
    show ?thesis
    proof (cases "graph_runs D g (cap_offset c) 0 d")
      case None
      then obtain f k where "launch_captured D ?cs 0 (kernels (?x\<lparr>kernels := ?k\<rparr>)) = (Inl f, k)"
        using launch_captured_run(2) [of D ?cs 0 ?k] by auto
      from in_phase_outcome(2) [of "launch_captured D ?cs 0", OF this, of PhaseComplete] None e r ended show ?thesis
        by (auto simp: defs)
    next
      case (Some d')
      then have "launch_captured D ?cs 0 (kernels (?x\<lparr>kernels := ?k\<rparr>)) = (Inr (), ?k\<lparr>device := d'\<rparr>)"
        using launch_captured_run(1) [of D ?cs 0 ?k d'] by simp
      note launched = in_phase_outcome(1) [of "launch_captured D ?cs 0", OF this, of PhaseComplete]
      let ?y = "?x\<lparr>kernels := ?k\<lparr>device := d'\<rparr>\<rparr>"
      show ?thesis
      proof (cases "has_embedding c \<and> \<not> flag_clear D ?flag d'")
        case True
        then obtain f k where "check_embedding_flag D (kernels ?y) = (Inl f, k)"
          using check_flag_run(2) [of D "kernels ?y"] by auto
        from in_phase_outcome(2) [of "check_embedding_flag D", OF this, of PhaseComplete] True Some e r ended launched
        show ?thesis by (auto simp: defs)
      next
        case False
        then have "\<exists>d. (if has_embedding c then in_phase PhaseComplete (check_embedding_flag D) else ret ()) ?y =
            (Inr (), ?y\<lparr>kernels := (kernels ?y)\<lparr>device := d\<rparr>\<rparr>)"
          using check_flag_run(1) [of D "kernels ?y"] in_phase_outcome(1) [of "check_embedding_flag D" ?y]
          by (auto simp: ret_def intro: exI [of _ d'])
        then show ?thesis using False Some e r ended launched by (auto simp: defs add_capture_def Let_def)
      qed
    qed
  qed
qed

text \<open>A replay of acceptable inputs within the bound does exactly what the driver makes of it.\<close>

lemma acceptable_checked: "list_all (acceptable x rc) ins \<Longrightarrow> check_inputs x rc ins = Inr ()"
  by (induction ins) (auto simp: acceptable_def list_ex_iff list_all_iff split: option.splits)

lemma write_inputs_run:
  assumes "list_all (acceptable z rc) ins" "storage x = storage z"
  shows "case inputs_written D (storage z) ins (device (kernels x)) of
      None \<Rightarrow> \<exists>e y. write_inputs D ins x = (Inl (ReplayFailed e), y)
    | Some d \<Rightarrow> \<exists>y. write_inputs D ins x = (Inr (), y) \<and> device (kernels y) = d"
  using assms
proof (induction ins arbitrary: x)
  case Nil
  then show ?case by (simp add: ret_def)
next
  case (Cons i ins)
  obtain name t where i: "i = (name, t)" by fastforce
  obtain b where b: "storage z name = Some b" "bf16 b = None" "data_len (tdata t) = slen (buf_slice b)"
    using Cons.prems(1) i by (auto simp: acceptable_def split: option.splits)
  let ?m = "cu_memcpy_htod D (HF32 (tdata t)) (ptr (buf_slice b))"
  obtain r d where m: "cu_memcpy_htod D (HF32 (tdata t)) (ptr (buf_slice b)) (device (kernels x)) = (r, d)" by fastforce
  note defs = write_into_def andthen_def lift_def ensure_def ret_def require_f32_def count_upload_def modify_def is_compact_def b
  show ?case
  proof (cases r)
    case (Inl e)
    have "write_into D b (tdata t) (kernels x) = (Inl (from_driver_error (cu_text D) e), (kernels x)\<lparr>device := d\<rparr>)"
      using drv_run(2) [where m = ?m, OF m [unfolded Inl]] by (simp add: defs)
    from in_phase_outcome(2) [of "write_into D b (tdata t)", OF this, of PhaseSubmit] show ?thesis
      using Cons.prems(2) by (auto simp: i b m Inl andthen_def gets_def replay_call_def map_err_def)
  next
    case (Inr u)
    then have "u = ()" by simp
    have "\<exists>n. write_into D b (tdata t) (kernels x) = (Inr (), (kernels x)\<lparr>device := d, upload_count := n\<rparr>)"
      using drv_run(1) [where m = ?m, OF m [unfolded Inr]]
      by (intro exI [of _ "upload_count (kernels x) + 1"]) (simp add: defs)
    then obtain y where y: "replay_call (write_into D b (tdata t)) x = (Inr (), y)" "storage y = storage x"
      "device (kernels y) = d"
      using in_phase_outcome(1) [of "write_into D b (tdata t)" x] by (fastforce simp: replay_call_def map_err_def)
    have w: "write_inputs D (i # ins) x = write_inputs D ins y"
      using y(1) Cons.prems(2) by (simp add: i b andthen_def gets_def)
    have d: "inputs_written D (storage z) (i # ins) (device (kernels x)) =
        inputs_written D (storage z) ins (device (kernels y))" by (simp add: i b m Inr y(3))
    show ?thesis unfolding w d using Cons.IH [of y] Cons.prems y(2) by simp
  qed
qed

lemma replay_step_run:
  assumes c: "captures x name = Some \<lparr>cstep = cs, captured = rc\<rparr>" and off: "offset \<le> step_max_offset cs"
    and rc: "list_all (still_captured x) (resources rc)" and ins: "list_all (acceptable x rc) ins"
  shows "case Option.bind (inputs_written D (storage x) ins (device (kernels x)))
        (graph_runs D (graph cs) (step_offset cs) offset) of
      None \<Rightarrow> \<exists>e. fst (replay_step D name offset ins x) = Inl (ReplayFailed e)
    | Some d \<Rightarrow> \<exists>y. replay_step D name offset ins x = (Inr (), y) \<and> device (kernels y) = d"
proof -
  have run: "replay_step D name offset ins x =
      andthen (write_inputs D ins) (\<lambda>_. replay_call (launch_captured D cs offset)) x"
    using c off rc acceptable_checked [OF ins] by (simp add: replay_step_def andthen_def lift_def leD)
  show ?thesis
  proof (cases "inputs_written D (storage x) ins (device (kernels x))")
    case None
    then show ?thesis using write_inputs_run [OF ins refl, of D] by (auto simp: run andthen_def)
  next
    case (Some d)
    then obtain y where y: "write_inputs D ins x = (Inr (), y)" "device (kernels y) = d"
      using write_inputs_run [OF ins refl, of D] by auto
    show ?thesis
    proof (cases "graph_runs D (graph cs) (step_offset cs) offset d")
      case None
      then obtain e k where "launch_captured D cs offset (kernels y) = (Inl e, k)"
        using launch_captured_run(2) y(2) by metis
      from in_phase_outcome(2) [of "launch_captured D cs offset", OF this, of PhaseSubmit] show ?thesis
        using Some None y by (auto simp: run andthen_def replay_call_def map_err_def)
    next
      case launched: (Some d')
      then have "launch_captured D cs offset (kernels y) = (Inr (), (kernels y)\<lparr>device := d'\<rparr>)"
        using launch_captured_run(1) y(2) by metis
      from in_phase_outcome(1) [of "launch_captured D cs offset", OF this, of PhaseSubmit] show ?thesis
        using Some launched y by (auto simp: run andthen_def replay_call_def map_err_def)
    qed
  qed
qed

text \<open>C8. A step that is captured ends, and can be replayed. After a capture is begun and any sequence of
  dispatches, all successful, no failure is noted, the stored inputs and outputs of every dispatch
  are recorded, and they have kept their storage. Ending the capture then succeeds exactly when the
  driver ends it with a graph, runs that graph once at offset zero and (when an embedding was
  captured) reads a clear flag; it stores the step under the returned id with the capture's own
  offset buffer and bound. From then on a replay at any offset within the bound, with any inputs
  among the recorded resources that have their buffers' lengths and are valid tokens where they hold
  ids, is never refused: it succeeds exactly when the driver takes the inputs, the offset
  and the launch, and leaves the device as those calls do.\<close>
theorem captured_step_replays:
  assumes begun: "begin_step_capture D attrs x0 = (Inr (), x1)"
    and ran: "dispatch_all D R calls x1 = (rs, x2)" "list_all succeeded rs"
  shows "\<exists>c rc. capture (kernels x2) = Some c \<and> failure c = None \<and> step_recording x2 = Some rc \<and>
    list_all (still_captured x2) (resources rc) \<and> (\<forall>call \<in> set calls. uses x2 call \<subseteq> fst ` set (resources rc)) \<and>
    (case graph_of_step D c (embedding_flag (kernels x2)) (device (kernels x2)) of
       None \<Rightarrow> \<exists>e. fst (end_step_capture D x2) = Inl e
     | Some g \<Rightarrow> \<exists>name x3. end_step_capture D x2 = (Inr name, x3) \<and>
         captures x3 name = Some \<lparr>cstep = \<lparr>graph = g, step_offset = cap_offset c, step_max_offset = max_offset c,
           step_has_embedding = has_embedding c\<rparr>, captured = rc\<rparr> \<and>
         list_all (still_captured x3) (resources rc) \<and>
         (\<forall>offset ins. offset \<le> max_offset c \<longrightarrow> list_all (acceptable x3 rc) ins \<longrightarrow>
           (case Option.bind (inputs_written D (storage x3) ins (device (kernels x3))) (graph_runs D g (cap_offset c) offset) of
              None \<Rightarrow> \<exists>e. fst (replay_step D name offset ins x3) = Inl (ReplayFailed e)
            | Some d \<Rightarrow> \<exists>x4. replay_step D name offset ins x3 = (Inr (), x4) \<and> device (kernels x4) = d)))"
proof -
  have "recorded_stays x2" and uses: "\<forall>call \<in> set calls. uses x2 call \<subseteq> recorded x2"
    using session_stays [OF begin_recorded [OF begun] ran] by simp_all
  then obtain c rc where c: "capture (kernels x2) = Some c" "failure c = None"
    and rc: "step_recording x2 = Some rc" "list_all (still_captured x2) (resources rc)"
    by (auto simp: recorded_stays_def is_capturing_def noted_def)
  have used: "\<forall>call \<in> set calls. uses x2 call \<subseteq> fst ` set (resources rc)" using uses rc(1) by (simp add: recorded_def)
  note ended = end_step_capture_run [OF rc(1) c, of D]
  show ?thesis
  proof (cases "graph_of_step D c (embedding_flag (kernels x2)) (device (kernels x2))")
    case None
    then show ?thesis using ended c rc used by auto
  next
    case (Some g)
    let ?cs = "\<lparr>graph = g, step_offset = cap_offset c, step_max_offset = max_offset c, step_has_embedding = has_embedding c\<rparr>"
    obtain name x3 where e: "end_step_capture D x2 = (Inr name, x3)" and st: "storage x3 = storage x2"
      and cap: "captures x3 name = Some \<lparr>cstep = ?cs, captured = rc\<rparr>" using ended Some by auto
    have here: "list_all (still_captured x3) (resources rc)"
      using rc(2) by (simp add: still_captured_def [abs_def] st)
    note replay = replay_step_run [OF cap _ here, of _ _ D, simplified]
    show ?thesis
      by (intro exI [of _ c] exI [of _ rc] conjI c rc used)
        (simp only: Some option.case, intro exI [of _ name] exI [of _ x3] conjI e cap here allI impI replay)
  qed
qed

definition demo_begun :: "(execution_error + unit) \<times> u64 executor" where
  "demo_begun = begin_step_capture sim {''position_offset''} demo_executor"

definition demo_dispatched :: "kernel_result list \<times> u64 executor" where
  "demo_dispatched = dispatch_all sim demo_runtime [demo_call ''add'' ''c'', demo_call ''silu'' ''c'']
     (snd demo_begun)"

definition demo_ended :: "(execution_error + string) \<times> u64 executor" where
  "demo_ended = end_step_capture sim (snd demo_dispatched)"

text \<open>Two dispatches captured, ended, and replayed at offset 7 with another first input.\<close>

theorem captured_step_replays_witness:
  "\<exists>name. fst demo_ended = Inr name \<and>
     fst (replay_step sim name 7 [(''a'', \<lparr>tshape = [1, 2], tdata = [0, 1]\<rparr>)] (snd demo_ended)) = Inr ()"
proof -
  let ?ins = "[(''a'', \<lparr>tshape = [1, 2], tdata = [0, 1]\<rparr>)]"
  let ?x2 = "snd demo_dispatched"
  have begun: "fst demo_begun = Inr ()" by code_simp
  have ran: "list_all succeeded (fst demo_dispatched)" by code_simp
  have bound: "map_option max_offset (capture (kernels ?x2)) = Some (- 1)" by code_simp
  have names: "map_option (\<lambda>rc. list_all (acceptable (snd demo_ended) rc) ?ins) (step_recording ?x2) = Some True"
    by code_simp
  have b: "begin_step_capture sim {''position_offset''} demo_executor = (Inr (), snd demo_begun)"
    using begun unfolding demo_begun_def by (rule run_eq)
  have r: "dispatch_all sim demo_runtime [demo_call ''add'' ''c'', demo_call ''silu'' ''c''] (snd demo_begun) =
      (fst demo_dispatched, ?x2)"
    by (simp add: demo_dispatched_def)
  have ended: "fst demo_ended = Inr ''magnetar:provider/cuda:step-capture:0''" by code_simp
  have run: "graph_runs sim g cell off d = Some d" "flag_clear sim f d" for g cell off d f
    by (simp_all add: graph_runs_def flag_clear_def sim_def ret_def split: option.split)
  then have graph: "graph_of_step sim c f d = Some 1" for c f d
    by (simp add: graph_of_step_def) (simp add: sim_def ret_def)
  obtain c rc where c: "capture (kernels ?x2) = Some c" and rc: "step_recording ?x2 = Some rc"
    and step: "case graph_of_step sim c (embedding_flag (kernels ?x2)) (device (kernels ?x2)) of
       None \<Rightarrow> \<exists>e. fst (end_step_capture sim ?x2) = Inl e
     | Some g \<Rightarrow> \<exists>name x3. end_step_capture sim ?x2 = (Inr name, x3) \<and>
         captures x3 name = Some \<lparr>cstep = \<lparr>graph = g, step_offset = cap_offset c, step_max_offset = max_offset c,
           step_has_embedding = has_embedding c\<rparr>, captured = rc\<rparr> \<and>
         list_all (still_captured x3) (resources rc) \<and>
         (\<forall>offset ins. offset \<le> max_offset c \<longrightarrow> list_all (acceptable x3 rc) ins \<longrightarrow>
           (case Option.bind (inputs_written sim (storage x3) ins (device (kernels x3))) (graph_runs sim g (cap_offset c) offset) of
              None \<Rightarrow> \<exists>e. fst (replay_step sim name offset ins x3) = Inl (ReplayFailed e)
            | Some d \<Rightarrow> \<exists>x4. replay_step sim name offset ins x3 = (Inr (), x4) \<and> device (kernels x4) = d))"
    using captured_step_replays [OF b r ran] by blast
  from step obtain name x3 where e: "end_step_capture sim ?x2 = (Inr name, x3)"
    and replay: "\<And>offset ins. offset \<le> max_offset c \<Longrightarrow> list_all (acceptable x3 rc) ins \<Longrightarrow>
      (case Option.bind (inputs_written sim (storage x3) ins (device (kernels x3))) (graph_runs sim 1 (cap_offset c) offset) of
         None \<Rightarrow> \<exists>e. fst (replay_step sim name offset ins x3) = Inl (ReplayFailed e)
       | Some d \<Rightarrow> \<exists>x4. replay_step sim name offset ins x3 = (Inr (), x4) \<and> device (kernels x4) = d)"
    unfolding graph by auto
  have x3: "demo_ended = (Inr name, x3)" using e by (simp add: demo_ended_def)
  have ins: "list_all (acceptable x3 rc) ?ins" using names unfolding rc x3 by simp
  then obtain bf where bf: "storage x3 ''a'' = Some bf" by (auto simp: acceptable_def split: option.splits)
  have "inputs_written sim (storage x3) ?ins d = Some d" for d by (simp add: bf) (simp add: sim_def ret_def)
  moreover have "(7 :: u64) \<le> max_offset c" using bound c by simp
  ultimately have "fst (replay_step sim name 7 ?ins x3) = Inr ()" using replay [OF _ ins, of 7] run(1) by auto
  then show ?thesis by (intro exI [of _ name] conjI) (simp_all add: x3)
qed

end
