(* ===== verification/Executor_System.thy ===== *)
theory Executor_System
  imports Storage_Wf Capture_Session
begin

text \<open>
  The executor as its client sees it: the calls of \<open>ProviderExecutionApi\<close> in any order,
  over the executor's and the Memory Manager's state, the states they reach, and the invariant
  those states have.
\<close>

section \<open>Calls\<close>

datatype api_call =
    Submit execution_request | Complete execution_handle | Release execution_handle
  | SubmitKernel invocation | CompleteKernel execution_handle
  | WriteTensor string host_tensor | WriteWeightTensor string host_tensor
  | WriteTensorValue string tensor_value | WriteZeroedTensor string "u64 list"
  | ReadTensor string | ReadTensorRows string u64 u64
  | SelectGreedyColumn string u64 "(u64 \<times> u64) list" f32
  | ReleaseTensor string | ReleaseAdmittedTensor string
  | WriteTensorAdmitted string host_tensor string string
  | WriteTensorValueAdmitted string tensor_value string string
  | CopyTensorAdmitted string string string string
  | BeginStepCapture "string set" | EndStepCapture | AbortStepCapture
  | ReplayStep string u64 "(string \<times> host_tensor) list" | ReleaseStepCapture string

text \<open>What a call leaves of the two states. The calls that only read are not listed.\<close>

definition api ::
  "'d external \<Rightarrow> runtime \<Rightarrow> 'm memory \<Rightarrow> api_call \<Rightarrow> 'd executor \<times> 'm \<Rightarrow> 'd executor \<times> 'm" where
  "api D R M call = (\<lambda>(x, mem). case call of
       Submit request \<Rightarrow> (snd (submit R request x), mem)
     | Complete handle \<Rightarrow> (snd (complete handle x), mem)
     | Release handle \<Rightarrow> (snd (release handle x), mem)
     | SubmitKernel invoked \<Rightarrow> snd (submit_kernel_invocation D R M invoked (x, mem))
     | CompleteKernel handle \<Rightarrow> (snd (complete_kernel_invocation handle x), mem)
     | WriteTensor name t \<Rightarrow> (snd (api_write_tensor D name t x), mem)
     | WriteWeightTensor name t \<Rightarrow> (snd (api_write_weight_tensor D name t x), mem)
     | WriteTensorValue name v \<Rightarrow> (snd (write_tensor_value D name v x), mem)
     | WriteZeroedTensor name sh \<Rightarrow> (snd (api_write_zeroed_tensor D name sh x), mem)
     | ReadTensor name \<Rightarrow> (snd (read_tensor D name x), mem)
     | ReadTensorRows name first rows \<Rightarrow> (snd (read_tensor_rows D name first rows x), mem)
     | SelectGreedyColumn name row excluded temp \<Rightarrow>
         (snd (select_greedy_column D name row excluded temp x), mem)
     | ReleaseTensor name \<Rightarrow> (snd (release_tensor name x), mem)
     | ReleaseAdmittedTensor name \<Rightarrow> snd (release_admitted_tensor M name (x, mem))
     | WriteTensorAdmitted name t cls owner \<Rightarrow> snd (write_tensor_admitted D M name t cls owner (x, mem))
     | WriteTensorValueAdmitted name v cls owner \<Rightarrow>
         snd (write_tensor_value_admitted D M name v cls owner (x, mem))
     | CopyTensorAdmitted source target cls owner \<Rightarrow>
         snd (copy_tensor_admitted D M source target cls owner (x, mem))
     | BeginStepCapture attrs \<Rightarrow> (snd (begin_step_capture D attrs x), mem)
     | EndStepCapture \<Rightarrow> (snd (end_step_capture D x), mem)
     | AbortStepCapture \<Rightarrow> (snd (abort_step_capture D x), mem)
     | ReplayStep name offset ins \<Rightarrow> (snd (replay_step D name offset ins x), mem)
     | ReleaseStepCapture name \<Rightarrow> (release_step_capture name x, mem))"

text \<open>A host tensor a client passes in was made by \<open>HostTensor::new\<close>.\<close>

definition wf_value :: "tensor_value \<Rightarrow> bool" where
  "wf_value v \<longleftrightarrow> (case v of HostValue t \<Rightarrow> wf_host t | OpaqueValue \<Rightarrow> True)"

definition wf_call :: "api_call \<Rightarrow> bool" where
  "wf_call call \<longleftrightarrow> (case call of
       WriteTensor _ t \<Rightarrow> wf_host t | WriteWeightTensor _ t \<Rightarrow> wf_host t
     | WriteTensorValue _ v \<Rightarrow> wf_value v
     | WriteTensorAdmitted _ t _ _ \<Rightarrow> wf_host t
     | WriteTensorValueAdmitted _ v _ _ \<Rightarrow> wf_value v
     | _ \<Rightarrow> True)"

text \<open>The states reached from a new executor by calls of any kind in any order.\<close>

inductive reachable ::
  "'d external \<Rightarrow> runtime \<Rightarrow> 'm memory \<Rightarrow> 'd executor \<times> 'm \<Rightarrow> bool"
  for D R M where
  new: "reachable D R M (new_executor (new_kernels d tensor) dev name, mem)"
| call: "reachable D R M s \<Longrightarrow> wf_call c \<Longrightarrow> reachable D R M (api D R M c s)"

inductive_cases reachable_cases: "reachable D R M s"

section \<open>The invariant\<close>

definition executor_inv :: "'d executor \<Rightarrow> bool" where
  "executor_inv x \<longleftrightarrow> wf_store x \<and> (is_capturing (kernels x) \<longleftrightarrow> step_recording x \<noteq> None) \<and>
     offered_output (kernels x) = None"

lemma inv_wf: "executor_inv x \<Longrightarrow> wf_store x"
  by (simp add: executor_inv_def)

text \<open>Any Kernel operation that keeps the frame of a capture keeps the invariant.\<close>

abbreviation kernel_le :: "'d kernels \<Rightarrow> 'd kernels \<Rightarrow> bool" where
  "kernel_le \<equiv> frame_le (\<lambda>_. True)"

lemma recorded_any: "recorded_keeps D (\<lambda>_. True)"
  by (simp add: recorded_keeps_def)

lemma keeps_drv_any: "keeps kernel_le (drv D m)"
  by (rule keeps_drv_recorded) simp

lemma inv_kernels:
  assumes "executor_inv x" "kernel_le (kernels x) ks"
  shows "executor_inv (x\<lparr>kernels := ks\<rparr>)"
  using assms by (auto simp: executor_inv_def frame_le_def offer_le_def wf_store_def is_capturing_def
      dest: capture_le_Some)

lemma inv_kern:
  assumes "keeps kernel_le m" "returns m Q"
  shows "triple executor_inv (kern m) Q"
  unfolding triple_def kern_def inside_def
  using inv_kernels keepsD [OF assms(1)] returnsD [OF assms(2)] by (fastforce split: prod.splits)

lemma inv_set_storage: "executor_inv x \<Longrightarrow> wf_buffer b \<Longrightarrow> executor_inv (set_storage name b x)"
  by (simp add: executor_inv_def wf_set_storage) (simp add: set_storage_def)

lemma inv_drop_storage: "executor_inv x \<Longrightarrow> executor_inv (drop_storage name x)"
  by (simp add: executor_inv_def wf_drop_storage) (simp add: drop_storage_def)

lemma inv_set: "wf_buffer b \<Longrightarrow> triple executor_inv (modify (set_storage name b)) (\<lambda>_. True)"
  by (rule triple_modify) (simp_all add: inv_set_storage)

lemma inv_materializing: "triple executor_inv m Q \<Longrightarrow> triple executor_inv (materializing what m) Q"
  unfolding materializing_def triple_def by (auto simp: map_err_def split: prod.splits sum.splits)

lemma triple_snd: "triple I m Q \<Longrightarrow> I s \<Longrightarrow> I (snd (m s))"
  by (simp add: triple_def)

section \<open>Every call keeps it\<close>

lemma keeps_transfers:
  "keeps kernel_le (write_into D b xs)" "keeps kernel_le (greedy_select D b r e t)"
  "keeps kernel_le (launch_captured D cs off)" "keeps kernel_le (check_embedding_flag D)"
  unfolding write_into_def greedy_select_def launch_captured_def check_embedding_flag_def alloc_zeros_def
  by (rule keeps_drv_any keeps_counts keeps_launch keeps_load_function recorded_any frame_rules)+

lemma inv_writes:
  assumes "wf_host t"
  shows "triple executor_inv (write_tensor D name t) (\<lambda>_. True)"
    and "triple executor_inv (write_weight_tensor D name t) (\<lambda>_. True)"
  unfolding write_tensor_def write_weight_tensor_def
  by (rule triple_andthen [OF inv_kern] keeps_upload keeps_upload_weight returns_upload returns_upload_weight
      inv_set assms | assumption)+

lemma inv_write_zeroed: "triple executor_inv (write_zeroed_tensor D name sh) (\<lambda>_. True)"
  unfolding write_zeroed_tensor_def
  by (rule triple_andthen [OF inv_materializing [OF inv_kern]] keeps_zeros returns_zeros inv_set | assumption)+

lemma inv_api_writes:
  "wf_host t \<Longrightarrow> triple executor_inv (api_write_tensor D name t) (\<lambda>_. True)"
  "wf_host t \<Longrightarrow> triple executor_inv (api_write_weight_tensor D name t) (\<lambda>_. True)"
  "triple executor_inv (api_write_zeroed_tensor D name sh) (\<lambda>_. True)"
  unfolding api_write_tensor_def api_write_weight_tensor_def api_write_zeroed_tensor_def
  by (rule inv_materializing inv_writes triple_then inv_write_zeroed triple_ret TrueI | assumption)+

lemma inv_write_value:
  assumes "wf_value v"
  shows "triple executor_inv (write_tensor_value D name v) (\<lambda>_. True)"
  using assms
  by (cases v) (auto simp: wf_value_def write_tensor_value_def inv_materializing inv_writes, simp add: triple_def)

lemma inv_kern_snd: "keeps kernel_le m \<Longrightarrow> executor_inv x \<Longrightarrow> kern m x = (r, y) \<Longrightarrow> executor_inv y"
  using tripleD [OF inv_kern [OF _ returns_trivial]] by blast

lemma inv_reads:
  assumes "executor_inv x"
  shows "executor_inv (snd (read_tensor D name x))"
    and "executor_inv (snd (read_tensor_rows D name first rows x))"
    and "executor_inv (snd (select_greedy_column D name row ex temp x))"
  using inv_kern_snd [OF keeps_download assms] inv_kern_snd [OF keeps_download_rows assms]
    inv_kern_snd [OF keeps_download] inv_kern_snd [OF keeps_transfers(2) assms] assms
  by (auto simp: read_tensor_def read_tensor_rows_def select_greedy_column_def
      split: option.splits prod.splits sum.splits) blast+

lemma inv_execute_invocation:
  assumes "host_checked D" "executor_inv x"
  shows "executor_inv (snd (execute_invocation D R call x))"
  using execute_invocation_frame [OF recorded_any, of x D R call] wf_execute_invocation [OF assms(1), of x R call] assms(2)
  by (auto simp: executor_inv_def dispatch_frame_def exec_frame_def frame_le_def offer_le_def is_capturing_def
      dest: capture_le_Some)

section \<open>Step capture keeps it\<close>

lemma inv_only_kernels:
  assumes "executor_inv x" "only_kernels x y" "kernel_le (kernels x) (kernels y)"
  shows "executor_inv y"
  using inv_kernels [OF assms(1,3)] assms(2) by (simp add: only_kernels_def)

lemma inv_in_phase: "keeps kernel_le m \<Longrightarrow> triple executor_inv (in_phase p m) (\<lambda>_. True)"
  using triple_map_err [OF inv_kern [OF _ returns_trivial]] unfolding triple_def in_phase_def by blast

text \<open>Beginning: the capture is open exactly when it returns.\<close>

definition idle :: "'d kernels \<Rightarrow> bool" where
  "idle k \<longleftrightarrow> \<not> is_capturing k \<and> offered_output k = None"

text \<open>Run from a state with \<open>I\<close>, a failure of \<open>m\<close> leaves one, and a return one with \<open>Q\<close>.\<close>

definition leads :: "('s \<Rightarrow> bool) \<Rightarrow> ('s, 'e, 'a) exec \<Rightarrow> ('s \<Rightarrow> bool) \<Rightarrow> bool" where
  "leads I m Q \<longleftrightarrow> (\<forall>s r t. I s \<longrightarrow> m s = (r, t) \<longrightarrow> (case r of Inl _ \<Rightarrow> I t | Inr _ \<Rightarrow> Q t))"

lemma leadsD: "leads I m Q \<Longrightarrow> I s \<Longrightarrow> m s = (r, t) \<Longrightarrow> (case r of Inl _ \<Rightarrow> I t | Inr _ \<Rightarrow> Q t)"
  by (simp add: leads_def)

lemma leads_then:
  assumes "triple I m (\<lambda>_. True)" "\<And>x. leads I (f x) Q"
  shows "leads I (andthen m f) Q"
  unfolding leads_def
proof (intro allI impI)
  fix s r t assume s: "I s" and run: "andthen m f s = (r, t)"
  obtain q u where m: "m s = (q, u)" by fastforce
  from tripleD [OF assms(1) s m] have u: "I u" by simp
  show "case r of Inl _ \<Rightarrow> I t | Inr _ \<Rightarrow> Q t"
  proof (cases q)
    case (Inl e)
    then show ?thesis using run m u by (auto simp: andthen_def)
  next
    case (Inr x)
    then have "f x u = (r, t)" using run m by (simp add: andthen_def)
    from leadsD [OF assms(2) u this] show ?thesis .
  qed
qed

lemma keeps_snd: "keeps R m \<Longrightarrow> R s (snd (m s))"
  by (simp add: keeps_def)

lemma keeps_option_at:
  "(x = None \<Longrightarrow> keeps R m) \<Longrightarrow> (\<And>y. x = Some y \<Longrightarrow> keeps R (f y)) \<Longrightarrow>
   keeps R (\<lambda>k. case x of None \<Rightarrow> m k | Some y \<Rightarrow> f y k)"
  by (cases x) simp_all

lemma triple_idle:
  fixes m :: "('d, 'a) kernel_op"
  assumes "keeps kernel_le m"
  shows "triple idle m (\<lambda>_. True)"
  unfolding triple_def
proof (intro allI impI conjI TrueI)
  fix k :: "'d kernels" assume k: "idle k"
  have "kernel_le k (snd (m k))" using assms by (simp add: keeps_def)
  with k show "idle (snd (m k))"
    by (auto simp: idle_def frame_le_def offer_le_def is_capturing_def dest: capture_le_Some)
qed

lemma keeps_recover:
  fixes D :: "'d external"
  shows "keeps kernel_le (\<lambda>k. case drv D m k of (Inr u, k) \<Rightarrow> (Inr u, k)
     | (Inl e, k) \<Rightarrow> andthen (attempt (drv D n)) (\<lambda>_. throw e) k)"
  unfolding keeps_def
proof
  fix k :: "'d kernels"
  obtain r t where t: "drv D m k = (r, t)" by fastforce
  from keepsD [OF keeps_drv_any t] have kt: "kernel_le k t" .
  show "kernel_le k (snd (case drv D m k of (Inr u, k) \<Rightarrow> (Inr u, k)
      | (Inl e, k) \<Rightarrow> andthen (attempt (drv D n)) (\<lambda>_. throw e) k))"
  proof (cases r)
    case (Inl e)
    have "keeps kernel_le (andthen (attempt (drv D n)) (\<lambda>_. throw e))"
      by (rule frame_rules keeps_drv_any)+
    from kf.trans [OF kt keeps_snd [OF this]] show ?thesis by (simp add: t Inl)
  next
    case (Inr u)
    with kt show ?thesis by (simp add: t)
  qed
qed

lemma keeps_flag_alloc:
  "keeps kernel_le (andthen (drv D m) (\<lambda>p. andthen (modify (\<lambda>k. k\<lparr>embedding_flag := v p\<rparr>)) (\<lambda>_. ret (w p))))"
  by (rule frame_rules keeps_drv_any keeps_modify | simp)+

lemma begin_capture_leads:
  "leads idle (begin_capture D attrs) (\<lambda>k. is_capturing k \<and> offered_output k = None)"
proof -
  have final: "leads idle (modify (\<lambda>k. k\<lparr>capture := Some (c k)\<rparr>)) (\<lambda>k. is_capturing k \<and> offered_output k = None)"
    for c by (auto simp: leads_def modify_def idle_def is_capturing_def)
  show ?thesis
    unfolding begin_capture_def
    by (rule leads_then triple_idle final frame_rules keeps_drv_any keeps_recover keeps_flag_alloc)+
qed

text \<open>Ending or aborting: the capture is closed first, whatever happens then.\<close>

lemma close_capture:
  fixes f :: "kernel_capture option \<Rightarrow> ('d, 'a) kernel_op"
  assumes "\<And>c. keeps kernel_le (f c)" "offered_output k = None"
  shows "idle (snd (andthen (gets capture) (\<lambda>c. andthen (modify (\<lambda>k. k\<lparr>capture := None\<rparr>)) (\<lambda>_. f c)) k))"
proof -
  have "idle (k\<lparr>capture := None\<rparr>)" using assms(2) by (simp add: idle_def is_capturing_def)
  from triple_snd [OF triple_idle [OF assms(1)] this] show ?thesis
    by (simp add: andthen_def gets_def modify_def)
qed

lemma keeps_graph_end:
  fixes D :: "'d external"
  assumes "\<And>g. keeps kernel_le (f g)"
  shows "keeps kernel_le (\<lambda>k. case drv D m k of (g, k) \<Rightarrow> f g k)"
  unfolding keeps_def
proof
  fix k :: "'d kernels"
  obtain g t where t: "drv D m k = (g, t)" by fastforce
  have "kernel_le t (snd (f g t))" using assms by (simp add: keeps_def)
  then show "kernel_le k (snd (case drv D m k of (g, k) \<Rightarrow> f g k))"
    using kf.trans [OF keepsD [OF keeps_drv_any t]] by (simp add: t)
qed

lemma end_capture_idle:
  assumes "offered_output k = None"
  shows "idle (snd (end_capture D k))" "idle (snd (abort_capture D k))"
  unfolding end_capture_def abort_capture_def
  by (rule close_capture [OF _ assms] keeps_option_at keeps_option kf.keeps_throw keeps_graph_end kf.keeps_andthen kf.keeps_lift
      kf.keeps_ret kf.keeps_attempt keeps_drv_any)+

section \<open>The capture calls\<close>

lemma inv_open:
  "wf_store x \<Longrightarrow> is_capturing (kernels x) \<Longrightarrow> offered_output (kernels x) = None \<Longrightarrow>
     executor_inv (x\<lparr>step_recording := Some rc\<rparr>)"
  by (simp add: executor_inv_def wf_store_def)

lemma inv_closed:
  "wf_store x \<Longrightarrow> idle (kernels x) \<Longrightarrow> step_recording x = None \<Longrightarrow> executor_inv x"
  by (simp add: executor_inv_def idle_def)

lemma in_phase_state: "in_phase p m x = (r, y) \<Longrightarrow> \<exists>q. m (kernels x) = (q, kernels y) \<and>
    y = x\<lparr>kernels := kernels y\<rparr> \<and> (case r of Inl _ \<Rightarrow> (\<exists>e. q = Inl e) | Inr v \<Rightarrow> q = Inr v)"
  by (auto simp: in_phase_def map_err_def kern_def inside_def split: prod.splits sum.splits)

lemma inv_begin:
  assumes "executor_inv x"
  shows "executor_inv (snd (begin_step_capture D attrs x))"
proof (cases "step_recording x")
  case None
  then have idle: "idle (kernels x)" using assms by (auto simp: executor_inv_def idle_def)
  obtain r y where y: "in_phase PhaseSubmit (begin_capture D attrs) x = (r, y)" by fastforce
  from in_phase_state [OF y] obtain q where q: "begin_capture D attrs (kernels x) = (q, kernels y)"
    and same: "y = x\<lparr>kernels := kernels y\<rparr>" and r: "case r of Inl _ \<Rightarrow> (\<exists>e. q = Inl e) | Inr v \<Rightarrow> q = Inr v"
    by blast
  have fields: "wf_store y" "step_recording y = None"
    using assms None by (subst same, simp add: executor_inv_def wf_store_def)+
  from leadsD [OF begin_capture_leads idle q] r fields show ?thesis using None y
    by (auto simp: begin_step_capture_def andthen_def modify_def inv_open inv_closed split: sum.splits)
next
  case (Some rc)
  then show ?thesis using assms by (simp add: begin_step_capture_def)
qed

lemma inv_end:
  assumes "executor_inv x"
  shows "executor_inv (snd (end_step_capture D x))"
proof (cases "step_recording x")
  case None
  then show ?thesis using assms by (simp add: end_step_capture_def)
next
  case (Some rc)
  let ?x = "x\<lparr>step_recording := None\<rparr>"
  obtain r y where y: "in_phase PhaseComplete (end_capture D) ?x = (r, y)" by fastforce
  from in_phase_state [OF y] have same: "y = ?x\<lparr>kernels := kernels y\<rparr>"
    and k: "kernels y = snd (end_capture D (kernels x))" by auto
  have "offered_output (kernels x) = None" using assms by (simp add: executor_inv_def)
  from end_capture_idle(1) [OF this] k have "idle (kernels y)" by simp
  moreover have "wf_store y" "step_recording y = None"
    using assms by (subst same, simp add: executor_inv_def wf_store_def)+
  ultimately have inv: "executor_inv y" using inv_closed by blast
  have add: "triple executor_inv (add_capture cs rc) (\<lambda>_. True)" for cs
    by (simp add: triple_def add_capture_def executor_inv_def wf_store_def Let_def)
  have "triple executor_inv (andthen (in_phase PhaseComplete (launch_captured D cs 0)) (\<lambda>_.
      andthen (if step_has_embedding cs then in_phase PhaseComplete (check_embedding_flag D) else ret ()) (\<lambda>_.
      add_capture cs rc))) (\<lambda>_. True)" for cs
    by (rule triple_then triple_if inv_in_phase keeps_transfers add triple_ret TrueI)+
  from triple_snd [OF this inv] inv show ?thesis using Some y
    by (auto simp: end_step_capture_def andthen_def split: sum.splits)
qed

lemma inv_abort:
  assumes "executor_inv x"
  shows "executor_inv (snd (abort_step_capture D x))"
proof -
  have "offered_output (kernels x) = None" using assms by (simp add: executor_inv_def)
  from end_capture_idle(2) [OF this, of D] assms show ?thesis
    by (auto simp: abort_step_capture_def andthen_def modify_def kern_def inside_def executor_inv_def idle_def
        wf_store_def split: prod.splits)
qed

lemma inv_replay_call: "keeps kernel_le m \<Longrightarrow> triple executor_inv (replay_call m) (\<lambda>_. True)"
  unfolding replay_call_def by (rule triple_map_err inv_in_phase | assumption)+

lemma inv_write_inputs: "triple executor_inv (write_inputs D ins) (\<lambda>_. True)"
proof (induction ins)
  case Nil
  then show ?case by (simp add: triple_ret)
next
  case (Cons i ins)
  then show ?case
    by (cases i) (simp, (rule triple_then triple_gets triple_option triple_throw inv_replay_call
        keeps_transfers TrueI | assumption)+)
qed

lemma inv_replay:
  assumes "executor_inv x"
  shows "executor_inv (snd (replay_step D name off ins x))"
proof -
  have "triple executor_inv (andthen (lift r) (\<lambda>_. andthen (write_inputs D ins) (\<lambda>_.
      replay_call (launch_captured D cs off)))) (\<lambda>_. True)" for r :: "replay_error + unit" and cs
    by (rule triple_then triple_lift inv_write_inputs inv_replay_call keeps_transfers TrueI)+
  from triple_snd [OF this assms] assms show ?thesis
    by (simp add: replay_step_def split: option.split)
qed

lemma inv_release_capture: "executor_inv x \<Longrightarrow> executor_inv (release_step_capture name x)"
  by (simp add: release_step_capture_def executor_inv_def wf_store_def)

section \<open>The admitted calls\<close>

definition pair_inv :: "'d executor \<times> 'm \<Rightarrow> bool" where
  "pair_inv s \<longleftrightarrow> executor_inv (fst s)"

lemma pair_inv_simps [simp]: "pair_inv (x, mem) \<longleftrightarrow> executor_inv x"
  by (simp add: pair_inv_def)

lemma pair_on_executor: "triple executor_inv m Q \<Longrightarrow> triple pair_inv (on_executor m) Q"
  by (fastforce simp: triple_def on_executor_def inside_def split: prod.splits)

lemma pair_on_memory: "triple pair_inv (on_memory m) (\<lambda>_. True)"
  by (auto simp: triple_def on_memory_def inside_def split: prod.splits)

lemma inv_allocations: "executor_inv (x\<lparr>resource_allocations := a\<rparr>) \<longleftrightarrow> executor_inv x"
  by (simp add: executor_inv_def wf_store_def)

lemma pair_own: "pair_inv s \<Longrightarrow> pair_inv (own_allocation M name aid s)"
  by (cases s) (simp add: own_allocation_def inv_allocations)

lemma pair_write_admitted:
  fixes D :: "'d external" and M :: "'m memory"
  assumes "wf_host t"
  shows "triple pair_inv (write_tensor_admitted D M name t cls owner) (\<lambda>_. True)"
proof -
  have "triple pair_inv (\<lambda>(x, mem). case kern (upload D t) x of
        (Inl e, x) \<Rightarrow> (Inl (AllocationDenied (''CUDA device upload failed: '' @ cuda_error_text e)), x, mm_release M aid mem)
      | (Inr buffer, x) \<Rightarrow>
          (case own_allocation M name aid (x, mem) of (x, mem) \<Rightarrow> (Inr (), set_storage name buffer x, mem))) (\<lambda>_. True)"
    for aid
    unfolding triple_def
  proof (intro allI impI conjI TrueI)
    fix s :: "'d executor \<times> 'm" assume s: "pair_inv s"
    obtain x mem where sx: "s = (x, mem)" by (cases s)
    obtain r y where y: "kern (upload D t) x = (r, y)" by fastforce
    from tripleD [OF inv_kern [OF keeps_upload returns_upload [OF assms]] _ y] s sx
    have inv: "executor_inv y" and wf: "\<And>b. r = Inr b \<Longrightarrow> wf_buffer b" by auto
    show "pair_inv (snd ((\<lambda>(x, mem). case kern (upload D t) x of
        (Inl e, x) \<Rightarrow> (Inl (AllocationDenied (''CUDA device upload failed: '' @ cuda_error_text e)), x, mm_release M aid mem)
      | (Inr buffer, x) \<Rightarrow>
          (case own_allocation M name aid (x, mem) of (x, mem) \<Rightarrow> (Inr (), set_storage name buffer x, mem))) s))"
      using inv wf by (auto simp: sx y own_allocation_def inv_set_storage inv_allocations split: sum.splits)
  qed
  then show ?thesis
    unfolding write_tensor_admitted_def by (intro triple_then triple_gets pair_on_memory TrueI)
qed

lemma pair_value_admitted:
  assumes "wf_value v"
  shows "triple pair_inv (write_tensor_value_admitted D M name v cls owner) (\<lambda>_. True)"
  using assms
  by (cases v) (auto simp: wf_value_def write_tensor_value_admitted_def intro!: triple_map_err pair_write_admitted,
      auto simp: triple_def)

lemma pair_copy_admitted:
  assumes "\<And>b. source = Some b \<Longrightarrow> wf_buffer b"
  shows "triple pair_inv (copy_admitted D M missing what source target cls owner) (\<lambda>_. True)"
proof -
  have clone: "triple executor_inv (\<lambda>x. case source of
         None \<Rightarrow> (Inl (ProviderErr (materialization_error x missing)), x)
       | Some b \<Rightarrow> map_err ProviderErr (materializing what (kern (clone_buffer D b))) x) wf_buffer"
  proof (cases source)
    case None
    then show ?thesis by (simp add: triple_def)
  next
    case (Some b)
    then show ?thesis using assms
      by simp (rule triple_map_err inv_materializing inv_kern keeps_clone_buffer returns_clone | simp)+
  qed
  show ?thesis
    unfolding copy_admitted_def
    by (rule triple_andthen [OF pair_on_executor [OF clone]] triple_then triple_gets triple_map_err pair_on_memory
        triple_modify triple_ret pair_own TrueI pair_on_executor inv_set | assumption)+
qed

lemma pair_release_admitted: "pair_inv s \<Longrightarrow> pair_inv (snd (release_admitted_tensor M name s))"
  by (cases s) (simp add: release_admitted_tensor_def Let_def inv_drop_storage inv_allocations)

lemma pair_drop_stale: "pair_inv s \<Longrightarrow> pair_inv (drop_stale M name s)"
  by (cases s) (simp add: drop_stale_def inv_allocations)

lemma inv_observe: "executor_inv (observe kind call x) \<longleftrightarrow> executor_inv x"
  by (simp add: executor_inv_def wf_store_def observe_def Let_def)

lemma pair_admit_outputs:
  fixes M :: "'m memory"
  shows "triple (pair_inv :: 'd executor \<times> 'm \<Rightarrow> bool) (admit_outputs M call rs admitted held) (\<lambda>_. True)"
proof (induction rs arbitrary: admitted held)
  case Nil
  then show ?case by (simp add: triple_ret)
next
  case (Cons r rs)
  show ?case
    unfolding triple_def
  proof (intro allI impI conjI TrueI)
    fix s :: "'d executor \<times> 'm" assume s: "pair_inv s"
    show "pair_inv (snd (admit_outputs M call (r # rs) admitted held s))"
    proof (cases "preadmitted_output M (rid r) s")
      case True
      then show ?thesis using triple_snd [OF Cons.IH pair_drop_stale [OF s]] by simp
    next
      case False
      have "pair_inv (fst s, mem)" "pair_inv (observe k call (fst s), mem)" for mem k
        using s by (simp_all add: pair_inv_def inv_observe)
      then show ?thesis using False triple_snd [OF Cons.IH] by (simp split: sum.split prod.split)
    qed
  qed
qed

lemma pair_settle: "pair_inv s \<Longrightarrow> pair_inv (settle_output M admitted held r s)"
  by (cases s) (simp add: settle_output_def pair_own split: option.split)

lemma pair_settle_all: "pair_inv s \<Longrightarrow> pair_inv (foldl (\<lambda>s r. settle_output M admitted held r s) s rs)"
  by (induction rs arbitrary: s) (simp_all add: pair_settle)

lemma pair_execute:
  assumes "host_checked D" "pair_inv s"
  shows "pair_inv (snd (execute_invocation_with_memory_manager D R M call s))"
proof -
  obtain r x mem where a: "admit_outputs M call (outputs call) [] [] s = (r, x, mem)" by (metis prod_cases3)
  from tripleD [OF pair_admit_outputs assms(2) a] have x: "executor_inv x" by simp
  obtain q y where q: "execute_invocation D R call x = (q, y)" by fastforce
  from inv_execute_invocation [OF assms(1) x, of R call] q have "executor_inv y" by simp
  then show ?thesis using a q x
    by (auto simp: execute_invocation_with_memory_manager_def pair_settle_all split: sum.splits outcome.splits)
qed

section \<open>The invariant of the reachable states\<close>

lemma submit_kernel_pair:
  assumes "host_checked D" "pair_inv s"
  shows "pair_inv (snd (submit_kernel_invocation D R M call s))"
proof -
  obtain x mem where s: "s = (x, mem)" by (cases s)
  let ?x = "snd (next_provider_execution_id (inv_id call) x)"
  have "pair_inv (?x, mem)"
    using assms(2) by (simp add: s next_provider_execution_id_def executor_inv_def wf_store_def Let_def)
  from pair_execute [OF assms(1) this, of R M call] show ?thesis
    by (auto simp: s submit_kernel_invocation_def Let_def executor_inv_def wf_store_def split: prod.splits)
qed

lemma inv_bookkeeping:
  "executor_inv x \<Longrightarrow> executor_inv (snd (submit R request x))"
  "executor_inv x \<Longrightarrow> executor_inv (snd (complete handle x))"
  "executor_inv x \<Longrightarrow> executor_inv (snd (release handle x))"
  "executor_inv x \<Longrightarrow> executor_inv (snd (complete_kernel_invocation handle x))"
  by (simp_all add: submit_def complete_def release_def complete_kernel_invocation_def andthen_def gets_def
      modify_def ensure_def ret_def throw_def Let_def executor_inv_def wf_store_def split: option.split)

lemma api_keeps_inv:
  assumes "host_checked D" "wf_call c" "pair_inv s"
  shows "pair_inv (api D R M c s)"
proof (cases s)
  case (Pair x mem)
  with assms(3) have x: "executor_inv x" by simp
  have copy: "pair_inv (snd (copy_tensor_admitted D M source target cls owner (x, mem)))" for source target cls owner
    using triple_snd [OF pair_copy_admitted, of "storage x source" "(x, mem)"] wf_storeD [OF inv_wf [OF x]] x
    by (simp add: copy_tensor_admitted_def)
  show ?thesis
    using assms(2) x triple_snd [OF pair_write_admitted, of _ "(x, mem)"]
      triple_snd [OF pair_value_admitted, of _ "(x, mem)"] copy
      submit_kernel_pair [OF assms(1), of "(x, mem)"] pair_release_admitted [of "(x, mem)"]
    by (cases c) (auto simp: api_def Pair wf_call_def inv_bookkeeping inv_reads inv_begin inv_end inv_abort inv_replay
        inv_release_capture release_tensor_def inv_drop_storage triple_snd [OF inv_api_writes(1)]
        triple_snd [OF inv_api_writes(2)] triple_snd [OF inv_api_writes(3)] triple_snd [OF inv_write_value])
qed

lemma reachable_inv:
  assumes "host_checked D" "reachable D R M s"
  shows "pair_inv s"
  using assms(2)
proof induction
  case (new d tensor dev name mem)
  then show ?case
    by (simp add: executor_inv_def wf_store_def new_executor_def new_kernels_def is_capturing_def)
next
  case (call s c)
  then show ?case using api_keeps_inv [OF assms(1)] by blast
qed

text \<open>C11. Storage is well-typed. In every state an executor reaches by calls of its API in any order,
  successful or not, whatever the driver answers, each stored buffer holds exactly as many elements
  as its shape says, and a compact one keeps its one-element placeholder.\<close>
theorem reachable_storage_wf:
  assumes "host_checked D" "reachable D R M (x, mem)" "storage x name = Some b"
  shows "buffer_len b = shape_len (shape b) \<and> (if is_compact b then slen (buf_slice b) = 1
    else slen (buf_slice b) = shape_len (shape b))"
proof -
  have "wf_buffer b" using reachable_inv [OF assms(1,2)] wf_storeD [OF inv_wf _] assms(3) by simp
  then show ?thesis by (auto simp: wf_buffer_def buffer_len_def is_compact_def split: option.splits)
qed

text \<open>C19. The two halves of a step capture stay in step. In every reachable state the Kernels are
  capturing exactly when the executor is recording a step, so no call finds one without the other,
  and no output buffer is left on offer between calls.\<close>
theorem reachable_capture_in_step:
  assumes "host_checked D" "reachable D R M (x, mem)"
  shows "(capture (kernels x) \<noteq> None \<longleftrightarrow> step_recording x \<noteq> None) \<and> offered_output (kernels x) = None"
  using reachable_inv [OF assms] by (simp add: executor_inv_def is_capturing_def)

lemma host_checked_sim: "host_checked sim"
  by (auto simp: host_checked_def sim_def sim_host_def wf_host_def shape_len_def split: if_splits)

text \<open>A weight written, a capture begun and a Kernel submitted in it.\<close>

definition demo_state :: "u64 executor \<times> u64 list" where
  "demo_state =
     foldl (\<lambda>s c. api sim demo_runtime demo_memory c s) (new_executor (new_kernels 1024 False) ''cuda:0'' ''p'', [])
       [WriteTensor ''a'' \<lparr>tshape = [1, 2], tdata = [0, 0]\<rparr>, WriteZeroedTensor ''b'' [1, 2],
        BeginStepCapture {''position_offset''}]"

lemma demo_state_reachable: "reachable sim demo_runtime demo_memory demo_state"
  unfolding demo_state_def foldl.simps
  by (rule reachable.intros | simp add: wf_call_def wf_host_def shape_len_def)+

theorem reachable_storage_wf_witness:
  "storage (fst demo_state) ''b'' = Some (plain \<lparr>ptr = 1280, slen = 2\<rparr> [1, 2]) \<and>
   buffer_len (plain \<lparr>ptr = 1280, slen = 2\<rparr> [1, 2]) = shape_len [1, 2]"
proof -
  have b: "storage (fst demo_state) ''b'' = Some (plain \<lparr>ptr = 1280, slen = 2\<rparr> [1, 2])" by code_simp
  show ?thesis
    using reachable_storage_wf [OF host_checked_sim, of demo_runtime demo_memory "fst demo_state" "snd demo_state", OF _ b]
      demo_state_reachable b by simp
qed

theorem reachable_capture_in_step_witness:
  "step_recording (fst demo_state) \<noteq> None \<and> capture (kernels (fst demo_state)) \<noteq> None"
proof -
  have r: "step_recording (fst demo_state) \<noteq> None" by code_simp
  show ?thesis
    using reachable_capture_in_step [OF host_checked_sim, of demo_runtime demo_memory "fst demo_state" "snd demo_state"]
      demo_state_reachable r by simp
qed

end
