(* ===== verification/Memory_Ledger.thy ===== *)
theory Memory_Ledger
  imports Executor_System
begin

text \<open>
  The executor against the Memory Manager's ledger: which allocations it holds, that it
  holds them once each, and that no call loses one.
\<close>

section \<open>The ledger\<close>

text \<open>
  The documented contract of the Memory Manager: an allocation that succeeds is live under an
  id that was not, a denied one changes nothing, a release ends that allocation only, and
  recording residency allocates nothing. \<open>live\<close> reads the live allocations off its state.
\<close>

definition ledger :: "'m memory \<Rightarrow> ('m \<Rightarrow> u64 set) \<Rightarrow> bool" where
  "ledger M live \<longleftrightarrow>
     (\<forall>req mem aid mem'. mm_allocate M req mem = (Inr aid, mem') \<longrightarrow>
        aid \<notin> live mem \<and> live mem' = insert aid (live mem)) \<and>
     (\<forall>req mem e mem'. mm_allocate M req mem = (Inl e, mem') \<longrightarrow> live mem' = live mem) \<and>
     (\<forall>aid mem. live (mm_release M aid mem) = live mem - {aid}) \<and>
     (\<forall>name dev aff aid mem. live (mm_record M name dev aff aid mem) = live mem)"

lemma ledger_alloc:
  "ledger M live \<Longrightarrow> mm_allocate M req mem = (Inr aid, mem') \<Longrightarrow> aid \<notin> live mem \<and> live mem' = insert aid (live mem)"
  unfolding ledger_def by (drule conjunct1) blast

lemma ledger_denied: "ledger M live \<Longrightarrow> mm_allocate M req mem = (Inl e, mem') \<Longrightarrow> live mem' = live mem"
  unfolding ledger_def by (drule conjunct2, drule conjunct1) blast

lemma ledger_release: "ledger M live \<Longrightarrow> live (mm_release M aid mem) = live mem - {aid}"
  unfolding ledger_def by simp

lemma ledger_record: "ledger M live \<Longrightarrow> live (mm_record M name dev aff aid mem) = live mem"
  unfolding ledger_def by simp

definition owned :: "'d executor \<Rightarrow> u64 set" where
  "owned x = ran (resource_allocations x)"

text \<open>Each tracked allocation is live, and tracked for one resource only.\<close>

definition tracked :: "('m \<Rightarrow> u64 set) \<Rightarrow> 'd executor \<times> 'm \<Rightarrow> bool" where
  "tracked live s \<longleftrightarrow> owned (fst s) \<subseteq> live (snd s) \<and>
     (\<forall>m n a. resource_allocations (fst s) m = Some a \<longrightarrow> resource_allocations (fst s) n = Some a \<longrightarrow> m = n)"

text \<open>Live allocations the executor does not track: its client's, or lost ones.\<close>

definition foreign :: "('m \<Rightarrow> u64 set) \<Rightarrow> 'd executor \<times> 'm \<Rightarrow> u64 set" where
  "foreign live s = live (snd s) - owned (fst s)"

text \<open>A call balances when it keeps the tracking and neither loses nor takes an allocation.\<close>

definition balanced :: "('m \<Rightarrow> u64 set) \<Rightarrow> 'd executor \<times> 'm \<Rightarrow> 'd executor \<times> 'm \<Rightarrow> bool" where
  "balanced live s t \<longleftrightarrow> (tracked live s \<longrightarrow> tracked live t \<and> foreign live t = foreign live s)"

interpretation bl: frame "balanced live" for live :: "'m \<Rightarrow> u64 set"
  by unfold_locales (auto simp: balanced_def)

lemma balanced_same:
  "resource_allocations y = resource_allocations x \<Longrightarrow> live mem' = live mem \<Longrightarrow> balanced live (x, mem) (y, mem')"
  by (simp add: balanced_def tracked_def foreign_def owned_def)

lemma owned_simps:
  "owned (x\<lparr>resource_allocations := (resource_allocations x)(name \<mapsto> a)\<rparr>) =
     insert a (ran ((resource_allocations x)(name := None)))"
  "owned (x\<lparr>resource_allocations := (resource_allocations x)(name := None)\<rparr>) =
     ran ((resource_allocations x)(name := None))"
  by (auto simp: owned_def ran_def)

lemma owned_without:
  assumes "tracked live (x, mem)"
  shows "ran ((resource_allocations x)(name := None)) =
    owned x - (case resource_allocations x name of Some a \<Rightarrow> {a} | None \<Rightarrow> {})"
proof (cases "resource_allocations x name")
  case None
  then have "(resource_allocations x)(name := None) = resource_allocations x" by auto
  then show ?thesis using None by (simp add: owned_def)
next
  case (Some a)
  then show ?thesis using assms by (auto simp: owned_def ran_def tracked_def) (metis option.inject)
qed

text \<open>Taking a fresh allocation as a resource's own: it leaves the foreign ones.\<close>

lemma own_allocation_balance:
  assumes L: "ledger M live" and t: "tracked live (x, mem)" and a: "aid \<in> live mem" "aid \<notin> owned x"
  shows "tracked live (own_allocation M name aid (x, mem)) \<and>
    foreign live (own_allocation M name aid (x, mem)) = foreign live (x, mem) - {aid}"
proof -
  have a': "resource_allocations x n \<noteq> Some aid" for n using a(2) by (auto simp: owned_def ran_def)
  have sub: "owned x \<subseteq> live mem" using t by (simp add: tracked_def)
  show ?thesis
  proof (cases "resource_allocations x name")
    case None
    then show ?thesis
      using t a a' sub owned_without [OF t, of name]
      by (auto simp: own_allocation_def tracked_def foreign_def owned_simps)
  next
    case (Some p)
    have p: "p \<in> owned x" "p \<noteq> aid" using Some a' by (auto simp: owned_def ran_def)
    have "resource_allocations x n \<noteq> Some p" if "n \<noteq> name" for n using t Some that by (auto simp: tracked_def)
    then show ?thesis
      using t a a' sub p Some owned_without [OF t, of name] ledger_release [OF L]
      by (auto simp: own_allocation_def tracked_def foreign_def owned_simps)
  qed
qed

text \<open>Dropping a resource's own allocation releases it.\<close>

lemma drop_stale_balance:
  assumes L: "ledger M live"
  shows "balanced live s (drop_stale M name s)"
  unfolding balanced_def
proof
  assume t: "tracked live s"
  obtain x mem where s: "s = (x, mem)" by (cases s)
  note w = owned_without [OF t [unfolded s], of name]
  show "tracked live (drop_stale M name s) \<and> foreign live (drop_stale M name s) = foreign live s"
    using t w ledger_release [OF L]
    by (auto simp: s drop_stale_def tracked_def foreign_def owned_simps owned_def ran_def split: option.splits)
qed

text \<open>An admission: the fresh allocation is foreign until it is owned or released.\<close>

lemma admission:
  assumes L: "ledger M live" and t: "tracked live (x, mem)"
    and a: "mm_allocate M req mem = (Inr aid, mem')" and same: "resource_allocations y = resource_allocations x"
  shows "aid \<notin> owned y" "aid \<in> live mem'" "tracked live (y, mem')"
    "foreign live (y, mem') - {aid} = foreign live (x, mem)"
    "balanced live (x, mem) (y, mm_release M aid mem')"
proof -
  from ledger_alloc [OF L a] have aid: "aid \<notin> live mem" "live mem' = insert aid (live mem)" by simp_all
  have o: "owned y = owned x" using same by (simp add: owned_def)
  have sub: "owned x \<subseteq> live mem" using t by (simp add: tracked_def)
  show "aid \<notin> owned y" "aid \<in> live mem'" using aid sub o by auto
  show "tracked live (y, mem')" using t aid(2) o same by (auto simp: tracked_def)
  show "foreign live (y, mem') - {aid} = foreign live (x, mem)" using aid o by (auto simp: foreign_def)
  have "live (mm_release M aid mem') = live mem" using ledger_release [OF L] aid by simp
  then show "balanced live (x, mem) (y, mm_release M aid mem')" using same by (simp add: balanced_same)
qed

lemma balanced_own:
  assumes L: "ledger M live" and a: "mm_allocate M req mem = (Inr aid, mem')"
    and same: "resource_allocations y = resource_allocations x" and m: "live mem'' = live mem'"
  shows "balanced live (x, mem) (own_allocation M name aid (y, mem''))"
  unfolding balanced_def
proof
  assume t: "tracked live (x, mem)"
  note ad = admission [OF L t a same]
  have t'': "tracked live (y, mem'')" using ad(3) m by (simp add: tracked_def)
  have f'': "foreign live (y, mem'') - {aid} = foreign live (x, mem)" using ad(4) m by (simp add: foreign_def)
  from own_allocation_balance [OF L t'' _ ad(1)] ad(2) m f''
  show "tracked live (own_allocation M name aid (y, mem'')) \<and>
      foreign live (own_allocation M name aid (y, mem'')) = foreign live (x, mem)" by simp
qed

section \<open>What leaves the tracked allocations alone\<close>

definition same_alloc :: "'d executor \<Rightarrow> 'd executor \<Rightarrow> bool" where
  "same_alloc x y \<longleftrightarrow> resource_allocations y = resource_allocations x"

interpretation al: frame same_alloc
  by unfold_locales (auto simp: same_alloc_def)

lemma same_alloc_steps:
  "same_alloc x (set_storage name b x)" "same_alloc x (drop_storage name x)" "same_alloc x (observe kind call x)"
  by (simp_all add: same_alloc_def set_storage_def drop_storage_def observe_def Let_def)

lemma only_kernels_alloc: "only_kernels x y \<Longrightarrow> same_alloc x y"
  by (simp add: same_alloc_def only_kernels_fields)

lemma alloc_kern: "keeps same_alloc (kern m)"
  using keeps_kern only_kernels_alloc unfolding keeps_def by blast

lemma alloc_in_phase: "keeps same_alloc (in_phase p m)"
  using keeps_in_phase only_kernels_alloc unfolding keeps_def by blast

lemma alloc_modify: "(\<And>x. same_alloc x (f x)) \<Longrightarrow> keeps same_alloc (modify f)"
  by (simp add: keeps_def modify_def)

lemma alloc_materializing: "keeps same_alloc m \<Longrightarrow> keeps same_alloc (materializing what m)"
  unfolding materializing_def keeps_def by (auto simp: map_err_def split: prod.splits sum.splits) (metis snd_conv)+

lemma alloc_execute: "same_alloc x (snd (execute_invocation D R call x))"
  using execute_invocation_frame [OF recorded_any, of x D R call]
  by (simp add: same_alloc_def dispatch_frame_def exec_frame_def)

lemmas alloc_rules = al.keeps_basic al.keeps_map_err alloc_kern alloc_in_phase alloc_modify alloc_materializing
  same_alloc_steps keeps_if keeps_option keeps_prod keeps_sum keeps_Let

lemma alloc_writes:
  "keeps same_alloc (api_write_tensor D name t)" "keeps same_alloc (api_write_weight_tensor D name t)"
  "keeps same_alloc (api_write_zeroed_tensor D name sh)" "keeps same_alloc (write_zeroed_tensor D name sh)"
  unfolding api_write_tensor_def api_write_weight_tensor_def api_write_zeroed_tensor_def write_tensor_def
    write_weight_tensor_def write_zeroed_tensor_def
  by (rule alloc_rules)+

lemma alloc_write_value: "keeps same_alloc (write_tensor_value D name v)"
  by (cases v) (simp_all add: write_tensor_value_def write_tensor_def, (rule alloc_rules)+,
      simp add: keeps_def al.refl)

lemma kern_alloc: "kern m x = (r, y) \<Longrightarrow> same_alloc x y"
  using keepsD [OF alloc_kern] .

lemma alloc_reads:
  "same_alloc x (snd (read_tensor D name x))" "same_alloc x (snd (read_tensor_rows D name first rows x))"
  "same_alloc x (snd (select_greedy_column D name row ex temp x))"
proof -
  show "same_alloc x (snd (read_tensor D name x))"
    by (auto simp: read_tensor_def al.refl dest: kern_alloc split: option.split prod.split sum.split)
  show "same_alloc x (snd (select_greedy_column D name row ex temp x))"
    by (auto simp: select_greedy_column_def al.refl dest: kern_alloc split: option.split prod.split sum.split)
  show "same_alloc x (snd (read_tensor_rows D name first rows x))"
  proof (cases "storage x name")
    case None
    then show ?thesis by (simp add: read_tensor_rows_def al.refl)
  next
    case (Some b)
    obtain r y where r: "kern (download_rows D b first rows) x = (r, y)" by fastforce
    obtain q z where q: "kern (download D b) y = (q, z)" by fastforce
    have "same_alloc x y" "same_alloc x z" using kern_alloc [OF r] kern_alloc [OF q] al.trans by blast+
    then show ?thesis by (simp add: read_tensor_rows_def Some r q split: option.split sum.split)
  qed
qed

lemma alloc_bookkeeping:
  "same_alloc x (snd (submit R request x))" "same_alloc x (snd (complete handle x))"
  "same_alloc x (snd (release handle x))" "same_alloc x (snd (complete_kernel_invocation handle x))"
  "same_alloc x (release_step_capture name x)" "same_alloc x (snd (release_tensor name x))"
  by (simp_all add: submit_def complete_def release_def complete_kernel_invocation_def andthen_def gets_def
      modify_def ensure_def ret_def throw_def Let_def same_alloc_def release_step_capture_def release_tensor_def
      drop_storage_def split: option.split)

lemma alloc_write_inputs: "keeps same_alloc (write_inputs D ins)"
  using keeps_write_inputs only_kernels_alloc unfolding keeps_def by blast

lemma keepsE: "keeps R m \<Longrightarrow> R s (snd (m s))"
  by (simp add: keeps_def)

lemma alloc_begin: "keeps same_alloc (begin_step_capture D attrs)"
proof -
  have m: "keeps same_alloc (andthen (in_phase PhaseSubmit (begin_capture D attrs)) (\<lambda>_.
      modify (\<lambda>x. x\<lparr>step_recording := Some rc\<rparr>)))" for rc
    by (rule alloc_rules)+ (simp add: same_alloc_def)
  show ?thesis by (auto simp: begin_step_capture_def keeps_def al.refl intro: keepsE [OF m])
qed

lemma alloc_end: "keeps same_alloc (end_step_capture D)"
proof -
  have add: "keeps same_alloc (add_capture cs rc)" for cs rc
    by (simp add: keeps_def add_capture_def Let_def same_alloc_def)
  have m: "keeps same_alloc (andthen (in_phase PhaseComplete (end_capture D)) (\<lambda>cs.
      andthen (in_phase PhaseComplete (launch_captured D cs 0)) (\<lambda>_.
      andthen (if step_has_embedding cs then in_phase PhaseComplete (check_embedding_flag D) else ret ()) (\<lambda>_.
      add_capture cs rc))))" for rc :: recording
    by (rule alloc_rules add)+
  have "same_alloc x (snd (end_step_capture D x))" for x :: "'a executor"
  proof (cases "step_recording x")
    case None
    then show ?thesis by (simp add: end_step_capture_def al.refl)
  next
    case (Some rc)
    have "same_alloc x (x\<lparr>step_recording := None\<rparr>)" by (simp add: same_alloc_def)
    from al.trans [OF this keepsE [OF m, where s = "x\<lparr>step_recording := None\<rparr>"]] show ?thesis by (simp add: end_step_capture_def Some)
  qed
  then show ?thesis by (simp add: keeps_def)
qed

lemma alloc_abort: "keeps same_alloc (abort_step_capture D)"
  unfolding abort_step_capture_def by (rule alloc_rules | simp add: same_alloc_def)+

lemma alloc_replay: "keeps same_alloc (replay_step D name off ins)"
proof -
  have m: "keeps same_alloc (andthen (lift r) (\<lambda>_. andthen (write_inputs D ins) (\<lambda>_. replay_call k)))" for r k
    unfolding replay_call_def by (rule alloc_rules alloc_write_inputs)+
  show ?thesis by (auto simp: replay_step_def keeps_def al.refl intro: keepsE [OF m] split: option.split)
qed

section \<open>The calls balance\<close>

lemma balanced_alloc: "same_alloc x y \<Longrightarrow> balanced live (x, mem) (y, mem)"
  by (simp add: balanced_same same_alloc_def)

lemma write_admitted_balance:
  assumes L: "ledger M live"
  shows "balanced live s (snd (write_tensor_admitted D M name t cls owner s))"
proof (cases s)
  case (Pair x mem)
  obtain r mem' where a: "mm_allocate M (tensor_request x cls (data_len (tdata t) * 4) owner) mem = (r, mem')"
    by fastforce
  obtain q y where u: "kern (upload D t) x = (q, y)" by fastforce
  have y: "resource_allocations y = resource_allocations x" using kern_alloc [OF u] by (simp add: same_alloc_def)
  show ?thesis
  proof (cases r)
    case (Inl e)
    then show ?thesis using a ledger_denied [OF L] Pair
      by (auto simp: write_tensor_admitted_def andthen_def gets_def on_memory_def inside_def intro: balanced_same)
  next
    case (Inr aid)
    note fresh = a [unfolded Inr]
    show ?thesis
    proof (cases q)
      case (Inl e)
      have "balanced live (x, mem) (y, mm_release M aid mem')"
        using admission(5) [OF L _ fresh y] by (auto simp: balanced_def)
      then show ?thesis using a Inr u Inl Pair
        by (simp add: write_tensor_admitted_def andthen_def gets_def on_memory_def inside_def)
    next
      case (Inr b)
      have "balanced live (x, mem) (own_allocation M name aid (y, mem'))"
        by (rule balanced_own [OF L fresh y refl])
      then show ?thesis using a \<open>r = Inr aid\<close> u Inr Pair
        by (auto simp: write_tensor_admitted_def andthen_def gets_def on_memory_def inside_def balanced_def
            tracked_def foreign_def owned_def set_storage_def split: prod.splits)
    qed
  qed
qed

lemma value_admitted_balance:
  assumes L: "ledger M live"
  shows "balanced live s (snd (write_tensor_value_admitted D M name v cls owner s))"
proof (cases v)
  case (HostValue t)
  then show ?thesis using write_admitted_balance [OF L, of s D name t cls owner]
    by (auto simp: write_tensor_value_admitted_def map_err_def split: prod.splits sum.splits)
next
  case OpaqueValue
  then show ?thesis
    by (cases s) (auto simp: write_tensor_value_admitted_def balanced_def)
qed

lemma balanced_set_storage: "balanced live s (x, mem) \<Longrightarrow> balanced live s (set_storage name b x, mem)"
  by (simp add: balanced_def tracked_def foreign_def owned_def set_storage_def)

lemma copy_admitted_balance:
  assumes L: "ledger M live"
  shows "balanced live s (snd (copy_admitted D M missing failed source target cls owner s))"
proof (cases s)
  case (Pair x mem)
  show ?thesis
  proof (cases source)
    case None
    then show ?thesis
      by (auto simp: Pair copy_admitted_def andthen_def on_executor_def inside_def balanced_same)
  next
    case (Some b)
    let ?clone = "map_err ProviderErr (materializing failed (kern (clone_buffer D b)))"
    obtain r y where c: "?clone x = (r, y)" by fastforce
    have "keeps same_alloc ?clone" by (rule alloc_rules)+
    from keepsD [OF this c] have y: "resource_allocations y = resource_allocations x" by (simp add: same_alloc_def)
    show ?thesis
    proof (cases r)
      case (Inl e)
      then show ?thesis using c y
        by (simp add: Pair Some copy_admitted_def andthen_def on_executor_def inside_def balanced_same)
    next
      case (Inr cloned)
      obtain q mem' where a: "mm_allocate M (tensor_request y cls (buffer_len cloned * 4) owner) mem = (q, mem')"
        by fastforce
      show ?thesis
      proof (cases q)
        case (Inl e)
        have "live mem' = live mem" using ledger_denied [OF L a [unfolded Inl]] .
        then show ?thesis using c y Inr a Inl
          by (simp add: Pair Some copy_admitted_def andthen_def on_executor_def on_memory_def inside_def gets_def
              map_err_def balanced_same)
      next
        case (Inr aid)
        have "balanced live (x, mem) (own_allocation M target aid (y, mem'))"
          by (rule balanced_own [OF L a [unfolded Inr] y refl])
        then show ?thesis using c y \<open>r = Inr cloned\<close> a Inr
          by (auto simp: Pair Some copy_admitted_def andthen_def on_executor_def on_memory_def inside_def gets_def
              map_err_def modify_def ret_def intro: balanced_set_storage split: prod.splits)
      qed
    qed
  qed
qed

lemma release_admitted_balance:
  assumes L: "ledger M live"
  shows "balanced live s (snd (release_admitted_tensor M name s))"
proof (cases s)
  case (Pair x mem)
  have "snd (release_admitted_tensor M name s) = (case drop_stale M name s of (y, mem) \<Rightarrow> (drop_storage name y, mem))"
    by (simp add: Pair release_admitted_tensor_def drop_stale_def Let_def)
  then show ?thesis using drop_stale_balance [OF L, of s name]
    by (auto simp: balanced_def tracked_def foreign_def owned_def drop_storage_def split: prod.splits)
qed

section \<open>Submitted Kernels\<close>

text \<open>A dispatch that succeeds updates the invocation's first output and no other.\<close>

abbreviation updates_first :: "invocation \<Rightarrow> kernel_result \<Rightarrow> bool" where
  "updates_first call r \<equiv> (\<exists>out rest. outputs call = out # rest \<and> result_outcome r = Succeeded [out])"

lemma returns_updates: "returns (run_invocation D R call) (updates_first call)"
proof -
  have store: "returns (store_output call 0 b) (\<lambda>r. \<exists>rest. outputs call = r # rest)" for b
    unfolding store_output_def by (rule returns_intros | simp)+ (cases "outputs call"; simp add: nth_opt_def)
  have offer: "returns (run_invocation_with_offer D R call) (updates_first call)"
    unfolding run_invocation_with_offer_def
    by (rule returns_then, rule returns_andthen [OF store]) (auto simp: result_success_def intro: returns_ret)
  have "returns (run_offered D R call) (updates_first call)"
    using returnsD [OF offer] by (fastforce simp: returns_def run_offered_def Let_def split: prod.splits sum.splits)
  moreover have "returns (run_kv_write D call) (updates_first call)"
    unfolding run_kv_write_def by (rule returns_intros | simp add: result_success_def)+
  ultimately have "returns (run_invocation_uncaptured D R call) (updates_first call)"
    unfolding run_invocation_uncaptured_def by (intro returns_then returns_if)
  then show ?thesis
    unfolding run_invocation_def by (rule returns_andthen) (rule returns_intros | assumption)+
qed

lemma execute_updates:
  assumes "execute_invocation D R call x = (result, y)" "result_outcome result = Succeeded updated"
  shows "\<exists>out rest. outputs call = out # rest \<and> updated = [out]"
proof -
  have "returns (andthen (lift (rt_validate R call)) (\<lambda>_. run_invocation D R call)) (updates_first call)"
    by (rule returns_then returns_updates)+
  moreover obtain r z where "andthen (lift (rt_validate R call)) (\<lambda>_. run_invocation D R call)
      (observe DispatchStarted call x) = (r, z)" by fastforce
  ultimately show ?thesis using assms
    by (cases r) (auto simp: execute_invocation_def Let_def result_failure_def dest: returnsD split: if_splits)
qed

text \<open>
  In the middle of a submission: the allocations \<open>ads\<close> admitted so far are live and not tracked, besides
  those that were there before.
\<close>

definition holding :: "('m \<Rightarrow> u64 set) \<Rightarrow> 'd executor \<times> 'm \<Rightarrow> u64 list \<Rightarrow> 'd executor \<times> 'm \<Rightarrow> bool" where
  "holding live s ads t \<longleftrightarrow> tracked live t \<and> distinct ads \<and> foreign live t = foreign live s \<union> set ads \<and>
     set ads \<inter> foreign live s = {}"

lemma live_release_all:
  assumes "ledger M live"
  shows "live (release_all M admitted mem) = live mem - snd ` set admitted"
proof -
  have "live (foldl (\<lambda>mem (_, aid). mm_release M aid mem) mem admitted) = live mem - snd ` set admitted"
    by (induction admitted arbitrary: mem) (auto simp: ledger_release [OF assms] split: prod.splits)
  then show ?thesis by (simp add: release_all_def)
qed

lemma holding_released:
  assumes L: "ledger M live" and h: "holding live s (map snd admitted) (x, mem)"
    and y: "resource_allocations y = resource_allocations x"
  shows "tracked live (y, release_all M admitted mem)"
    "foreign live (y, release_all M admitted mem) = foreign live s"
proof -
  have "owned y = owned x" using y by (simp add: owned_def)
  then show "tracked live (y, release_all M admitted mem)"
    "foreign live (y, release_all M admitted mem) = foreign live s"
    using h y live_release_all [OF L, of admitted mem]
    by (auto simp: holding_def tracked_def foreign_def)
qed

lemma holding_admits:
  assumes L: "ledger M live" and h: "holding live s ads (x, mem)" and a: "mm_allocate M req mem = (Inr aid, mem')"
  shows "holding live s (ads @ [aid]) (x, mem')"
proof -
  have t: "tracked live (x, mem)" using h by (simp add: holding_def)
  note ad = admission [OF L t a refl] ledger_alloc [OF L a]
  have "foreign live (x, mem') = insert aid (foreign live (x, mem))" "aid \<notin> foreign live (x, mem)"
    using ad by (auto simp: foreign_def)
  then show ?thesis using h ad(3) by (auto simp: holding_def)
qed

text \<open>Admission: everything is released again, or each output is held by its owner or admitted.\<close>

definition admission_ends ::
  "('m \<Rightarrow> u64 set) \<Rightarrow> 'd executor \<times> 'm \<Rightarrow> resource list \<Rightarrow> (string \<times> u64) list \<Rightarrow> string list \<Rightarrow>
   kernel_error + (string \<times> u64) list \<times> string list \<Rightarrow> 'd executor \<times> 'm \<Rightarrow> bool" where
  "admission_ends live s outs admitted held r u \<longleftrightarrow> (case r of
     Inl _ \<Rightarrow> tracked live u \<and> foreign live u = foreign live s
   | Inr (admitted', held') \<Rightarrow> holding live s (map snd admitted') u \<and>
       length admitted' + length held' = length admitted + length held + length outs \<and>
       set held \<subseteq> set held' \<and> dom (map_of admitted) \<subseteq> dom (map_of admitted') \<and>
       (\<forall>out \<in> set outs. rid out \<in> set held' \<or> rid out \<in> dom (map_of admitted')))"

lemma admission_ends_held:
  "admission_ends live s outs admitted (rid out # held) r u \<Longrightarrow> admission_ends live s (out # outs) admitted held r u"
  by (auto simp: admission_ends_def split: sum.splits)

lemma admission_ends_admitted:
  "admission_ends live s outs (admitted @ [(rid out, aid)]) held r u \<Longrightarrow>
    admission_ends live s (out # outs) admitted held r u"
  by (cases r) (auto simp: admission_ends_def dom_map_of_conv_image_fst)

lemma admit_outputs_holding:
  assumes L: "ledger M live"
  shows "holding live s (map snd admitted) t \<Longrightarrow> admit_outputs M call outs admitted held t = (r, u) \<Longrightarrow>
    admission_ends live s outs admitted held r u"
proof (induction outs arbitrary: admitted held t)
  case Nil
  then show ?case by (auto simp: ret_def admission_ends_def)
next
  case (Cons out outs)
  obtain x mem where t: "t = (x, mem)" by (cases t)
  show ?case
  proof (cases "preadmitted_output M (rid out) t")
    case True
    have tr: "tracked live t" using Cons.prems(1) by (simp add: holding_def)
    have "holding live s (map snd admitted) (drop_stale M (rid out) t)"
      using drop_stale_balance [OF L, of t "rid out"] tr Cons.prems(1) by (simp add: balanced_def holding_def)
    from Cons.IH [OF this, of "rid out # held"] Cons.prems(2) True show ?thesis
      by (intro admission_ends_held) simp
  next
    case False
    show ?thesis
    proof (cases "byte_size out")
      case (Inl e)
      have "r = Inl (KernelExecutionFailed ''cannot admit output: invalid tensor descriptor'')"
        "u = (x, release_all M admitted mem)" using Cons.prems(2) False t Inl by simp_all
      then show ?thesis using holding_released [OF L Cons.prems(1) [unfolded t] refl] by (simp add: admission_ends_def)
    next
      case (Inr bytes)
      obtain q mem' where a: "mm_allocate M (output_request x out bytes) mem = (q, mem')" by fastforce
      show ?thesis
      proof (cases q)
        case (Inl e)
        have "live mem' = live mem" by (rule ledger_denied [OF L a [unfolded Inl]])
        then have h: "holding live s (map snd admitted) (x, mem')"
          using Cons.prems(1) t by (simp add: holding_def tracked_def foreign_def)
        have o: "resource_allocations (observe MemoryFeasibilityFailed call x) = resource_allocations x"
          using same_alloc_steps(3) [of x MemoryFeasibilityFailed call] by (simp add: same_alloc_def)
        have "r = Inl (KernelExecutionFailed ''memory admission denied for output'')"
          "u = (observe MemoryFeasibilityFailed call x, release_all M admitted mem')"
          using Cons.prems(2) False t Inr a Inl by simp_all
        then show ?thesis using holding_released [OF L h o] by (simp add: admission_ends_def)
      next
        case aid: (Inr aid)
        have "holding live s (map snd (admitted @ [(rid out, aid)])) (x, mem')"
          using holding_admits [OF L _ a [unfolded aid], of s "map snd admitted"] Cons.prems(1) t by simp
        from Cons.IH [OF this, of held] Cons.prems(2) False Inr a aid t show ?thesis
          by (intro admission_ends_admitted [where aid = aid]) simp
      qed
    qed
  qed
qed

text \<open>What a call leaves: the tracking, and at most \<open>n\<close> further allocations nobody tracks.\<close>

definition loses :: "('m \<Rightarrow> u64 set) \<Rightarrow> nat \<Rightarrow> 'd executor \<times> 'm \<Rightarrow> 'd executor \<times> 'm \<Rightarrow> bool" where
  "loses live n s t \<longleftrightarrow> (tracked live s \<longrightarrow> tracked live t \<and>
     (\<exists>lost. foreign live t = foreign live s \<union> lost \<and> lost \<inter> foreign live s = {} \<and> finite lost \<and> card lost \<le> n))"

lemma balanced_loses: "balanced live s t \<Longrightarrow> loses live n s t"
  by (auto simp: balanced_def loses_def intro: exI [of _ "{}"])

lemma holding_loses:
  assumes "holding live s ads t" "length ads \<le> n"
  shows "loses live n s t"
  using assms by (auto simp: holding_def loses_def distinct_card intro!: exI [of _ "set ads"])

lemma holding_owned:
  assumes L: "ledger M live" and h: "holding live s ads (x, mem)" and a: "aid \<in> set ads" "length ads \<le> Suc n"
  shows "loses live n s (own_allocation M name aid (x, mem))"
  unfolding loses_def
proof
  have t: "tracked live (x, mem)" and aid: "aid \<in> live mem" "aid \<notin> owned x" and d: "distinct ads"
    using h a by (auto simp: holding_def foreign_def)
  note own = own_allocation_balance [OF L t aid, of name]
  have "card (set ads - {aid}) \<le> n" using a d by (simp add: distinct_card)
  moreover have "foreign live (own_allocation M name aid (x, mem)) = foreign live s \<union> (set ads - {aid})"
    using own h a(1) by (auto simp: holding_def)
  ultimately show "tracked live (own_allocation M name aid (x, mem)) \<and> (\<exists>lost.
      foreign live (own_allocation M name aid (x, mem)) = foreign live s \<union> lost \<and> lost \<inter> foreign live s = {} \<and>
      finite lost \<and> card lost \<le> n)"
    using own h by (intro conjI exI [of _ "set ads - {aid}"]) (auto simp: holding_def)
qed

lemma submit_memory_loses:
  assumes L: "ledger M live"
  shows "loses live (length (outputs call) - 1) s (snd (execute_invocation_with_memory_manager D R M call s))"
proof (cases "tracked live s")
  case False
  then show ?thesis by (simp add: loses_def)
next
  case True
  obtain r x mem where ad: "admit_outputs M call (outputs call) [] [] s = (r, x, mem)" by (metis prod.exhaust)
  have start: "holding live s (map snd []) s" using True by (simp add: holding_def)
  note adm = admit_outputs_holding [OF L start ad]
  note defs = execute_invocation_with_memory_manager_def
  show ?thesis
  proof (cases r)
    case (Inl e)
    then show ?thesis using ad adm by (auto simp: defs loses_def admission_ends_def intro: exI [of _ "{}"])
  next
    case (Inr ah)
    obtain admitted held where ah: "ah = (admitted, held)" by fastforce
    note adm = adm [unfolded Inr ah admission_ends_def sum.case prod.case]
    obtain result y where e: "execute_invocation D R call x = (result, y)" by fastforce
    have y: "resource_allocations y = resource_allocations x"
      using alloc_execute [of x D R call] e by (simp add: same_alloc_def)
    have hy: "holding live s (map snd admitted) (y, mem)"
      using adm y by (auto simp: holding_def tracked_def foreign_def owned_def)
    show ?thesis
    proof (cases "result_outcome result")
      case (Failed f)
      then show ?thesis using ad Inr ah e holding_released [OF L hy refl]
        by (auto simp: defs loses_def intro: exI [of _ "{}"])
    next
      case (Succeeded updated)
      with execute_updates [OF e] obtain out rest where out: "outputs call = out # rest" "updated = [out]" by auto
      have len: "length admitted + length held = length (outputs call)" using adm by simp
      have end_state: "snd (execute_invocation_with_memory_manager D R M call s) =
          settle_output M admitted held out (y, mem)" using ad Inr ah e Succeeded out by (simp add: defs)
      show ?thesis
      proof (cases "rid out \<in> set held")
        case True
        then have "length admitted \<le> length (outputs call) - 1" using len by (cases held) auto
        then show ?thesis using holding_loses [OF hy] True unfolding end_state by (simp add: settle_output_def)
      next
        case False
        then obtain aid where aid: "map_of admitted (rid out) = Some aid" using adm out(1) by auto
        then have a: "aid \<in> set (map snd admitted)" by (force dest: map_of_SomeD)
        have h: "holding live s (map snd admitted) (y, mm_record M (rid out) (device_id y) (affinity out) aid mem)"
          using hy ledger_record [OF L] by (simp add: holding_def tracked_def foreign_def)
        have l: "length (map snd admitted) \<le> Suc (length (outputs call) - 1)" using len out(1) by simp
        from holding_owned [OF L h a l, of "rid out"] show ?thesis
          unfolding end_state by (simp add: settle_output_def False aid)
      qed
    qed
  qed
qed

lemma loses_alloc:
  "resource_allocations y = resource_allocations x \<Longrightarrow> loses live n (x, mem) t = loses live n (y, mem) t"
  "resource_allocations y = resource_allocations x \<Longrightarrow> loses live n s (x, mem) = loses live n s (y, mem)"
  by (simp_all add: loses_def tracked_def foreign_def owned_def)

lemma submit_kernel_loses:
  assumes "ledger M live"
  shows "loses live (length (outputs call) - 1) s (snd (submit_kernel_invocation D R M call s))"
proof (cases s)
  case (Pair x mem)
  obtain name y where n: "next_provider_execution_id (inv_id call) x = (name, y)" by fastforce
  then have y: "resource_allocations y = resource_allocations x"
    by (auto simp: next_provider_execution_id_def Let_def)
  obtain r z mem' where e: "execute_invocation_with_memory_manager D R M call (y, mem) = (r, z, mem')"
    by (metis prod.exhaust)
  then have "loses live (length (outputs call) - 1) (x, mem) (z, mem')"
    using submit_memory_loses [OF assms, of call "(y, mem)" D R] by (simp add: loses_alloc(1) [OF y])
  then show ?thesis
    by (simp add: Pair submit_kernel_invocation_def n e
        loses_alloc(2) [of "z\<lparr>kernel_executions := q\<rparr>" z for q])
qed

text \<open>The outputs of a call beyond the first, which a submission admits and does not track.\<close>

definition untracked_outputs :: "api_call \<Rightarrow> nat" where
  "untracked_outputs c = (case c of SubmitKernel call \<Rightarrow> length (outputs call) - 1 | _ \<Rightarrow> 0)"

lemma balanced_keeps: "keeps same_alloc m \<Longrightarrow> balanced live (x, mem) (snd (m x), mem)"
  by (rule balanced_alloc) (rule keepsE)

lemma api_balance:
  assumes L: "ledger M live"
  shows "loses live (untracked_outputs c) s (api D R M c s)"
proof (cases "\<exists>call. c = SubmitKernel call")
  case True
  then show ?thesis using submit_kernel_loses [OF L] by (auto simp: api_def untracked_outputs_def split: prod.split)
next
  case False
  have "balanced live s (api D R M c s)"
  proof (cases s)
    case (Pair x mem)
    show ?thesis
      using False release_admitted_balance [OF L] write_admitted_balance [OF L]
        value_admitted_balance [OF L] copy_admitted_balance [OF L, of "(x, mem)"]
      by (cases c) (auto simp: api_def Pair copy_tensor_admitted_def alloc_bookkeeping alloc_reads
          intro: balanced_keeps alloc_writes alloc_write_value alloc_begin alloc_end alloc_abort alloc_replay
            balanced_alloc)
  qed
  then show ?thesis by (rule balanced_loses)
qed

text \<open>C9. The allocations of the Memory Manager's ledger are accounted for by every call. With a Memory Manager
  that keeps its documented contract, every call of the API, successful or not and wherever the
  driver fails in it, keeps each tracked allocation live and tracked for one resource only, keeps every
  live allocation that is not tracked, and adds none to those, with one exception: a
  submission of a Kernel with \<open>n\<close> outputs can leave at most \<open>n - 1\<close> of the allocations it
  admitted for them live and untracked. So no call with at most one output loses an
  allocation, and no call touches an allocation of the client; the exception does occur
  (\<open>second_output_leaks\<close>).\<close>
theorem no_allocation_leaks:
  assumes "ledger M live" "tracked live (x, mem)"
  shows "tracked live (api D R M c (x, mem)) \<and>
    (\<exists>lost. foreign live (api D R M c (x, mem)) = foreign live (x, mem) \<union> lost \<and>
       lost \<inter> foreign live (x, mem) = {} \<and> finite lost \<and> card lost \<le> untracked_outputs c)"
  using api_balance [OF assms(1), of c "(x, mem)" D R] assms(2) unfolding loses_def by blast

lemma ledger_demo: "ledger demo_memory set"
  by (auto simp: ledger_def demo_memory_def find_Some_iff split: option.splits)

text \<open>A tensor is written over an admitted one while the client holds an allocation of its own.\<close>

definition demo_ledger :: "u64 executor \<times> u64 list" where
  "demo_ledger = api sim demo_runtime demo_memory
     (WriteTensorAdmitted ''a'' \<lparr>tshape = [1, 2], tdata = [0, 0]\<rparr> ''Tensor'' ''session'') (demo_executor, [0])"

theorem no_allocation_leaks_witness:
  "resource_allocations (fst demo_ledger) ''a'' = Some 1 \<and> foreign set demo_ledger = {0} \<and>
   foreign set (api sim demo_runtime demo_memory
     (WriteTensorAdmitted ''a'' \<lparr>tshape = [1, 1], tdata = [0]\<rparr> ''Tensor'' ''session'') demo_ledger) = {0}"
proof -
  have none: "resource_allocations demo_executor n = None" for n
    by (simp add: demo_executor_def new_executor_def)
  have start: "tracked set (demo_executor, [0])" "foreign set (demo_executor, [0]) = {0}"
    by (auto simp: tracked_def foreign_def owned_def ran_def none)
  have none_lost: "untracked_outputs (WriteTensorAdmitted n t c w) = 0" for n t c w by (simp add: untracked_outputs_def)
  have own: "resource_allocations (fst demo_ledger) ''a'' = Some 1" by code_simp
  show ?thesis
    using no_allocation_leaks [OF ledger_demo start(1), of sim demo_runtime
        "WriteTensorAdmitted ''a'' \<lparr>tshape = [1, 2], tdata = [0, 0]\<rparr> ''Tensor'' ''session''"]
      no_allocation_leaks [OF ledger_demo, of "fst demo_ledger" "snd demo_ledger" sim demo_runtime
        "WriteTensorAdmitted ''a'' \<lparr>tshape = [1, 1], tdata = [0]\<rparr> ''Tensor'' ''session''"] start(2) own
    by (auto simp: demo_ledger_def none_lost)
qed

text \<open>
  With two outputs the exception occurs: both are admitted, only the first is recorded, and the
  second allocation stays live with nobody to release it.
\<close>

definition two_outputs :: invocation where
  "two_outputs = (let call = demo_call ''silu'' ''c'' in call\<lparr>outputs := outputs call @ outputs (demo_call ''silu'' ''d'')\<rparr>)"

definition demo_leak :: "u64 executor \<times> u64 list" where
  "demo_leak = api sim demo_runtime demo_memory (SubmitKernel two_outputs) (demo_executor, [])"

lemma second_output_leaks:
  "snd demo_leak = [1, 0] \<and>
   map (resource_allocations (fst demo_leak)) [''a'', ''b'', ''c'', ''d''] = [None, None, Some 0, None]"
  by code_simp

end
