(* ===== verification/Device_Memory.thy ===== *)
theory Device_Memory
  imports Memory_Ledger
begin

text \<open>
  What the tensor operations rely on of the device memory the driver manages: an allocation is
  fresh, a copy moves the values it says it moves, and nothing changes an allocation it was not
  given. The driver's state stays abstract; a view reads the values of its allocations.
\<close>

section \<open>The contract\<close>

text \<open>The allocations of a device state, by address: their \<open>f32\<close> values, or their \<open>u16\<close> ones.\<close>

record 'd view =
  f32_at :: "'d \<Rightarrow> u64 \<Rightarrow> f32 list option"
  u16_at :: "'d \<Rightarrow> u64 \<Rightarrow> u16 list option"

text \<open>An allocating call: a fresh address holding \<open>xs\<close>, or an error and no change.\<close>

definition allocates :: "(u64 \<Rightarrow> 'a list option) \<Rightarrow> cu_result + u64 \<Rightarrow> (u64 \<Rightarrow> 'a list option) \<Rightarrow> 'a list option \<Rightarrow> bool" where
  "allocates h r h' xs \<longleftrightarrow> (case r of Inl _ \<Rightarrow> h' = h | Inr p \<Rightarrow> h p = None \<and> h' = h(p := xs))"

definition alloc_f32 :: "'d view \<Rightarrow> ('d, cu_result, u64) exec \<Rightarrow> ('d \<Rightarrow> f32 list option) \<Rightarrow> bool" where
  "alloc_f32 V m xs \<longleftrightarrow> (\<forall>d. case m d of (r, d') \<Rightarrow>
     allocates (f32_at V d) r (f32_at V d') (xs d) \<and> u16_at V d' = u16_at V d)"

definition alloc_u16 :: "'d view \<Rightarrow> ('d, cu_result, u64) exec \<Rightarrow> ('d \<Rightarrow> u16 list option \<Rightarrow> bool) \<Rightarrow> bool" where
  "alloc_u16 V m P \<longleftrightarrow> (\<forall>d. case m d of (r, d') \<Rightarrow>
     (\<exists>bs. P d bs \<and> allocates (u16_at V d) r (u16_at V d') bs) \<and> f32_at V d' = f32_at V d)"

text \<open>A call that changes no allocation; what it returns satisfies \<open>P\<close>.\<close>

definition only_reads :: "'d view \<Rightarrow> ('d, cu_result, 'a) exec \<Rightarrow> ('d \<Rightarrow> 'a \<Rightarrow> bool) \<Rightarrow> bool" where
  "only_reads V m P \<longleftrightarrow> (\<forall>d. case m d of (r, d') \<Rightarrow>
     f32_at V d' = f32_at V d \<and> u16_at V d' = u16_at V d \<and> (\<forall>x. r = Inr x \<longrightarrow> P d x))"

text \<open>A copy of \<open>u16\<close> values into an allocation, from its element \<open>i\<close> on.\<close>

definition writes_u16 :: "'d view \<Rightarrow> ('d, cu_result, unit) exec \<Rightarrow> u64 \<Rightarrow> nat \<Rightarrow> u16 list \<Rightarrow> bool" where
  "writes_u16 V m p i c \<longleftrightarrow> (\<forall>d bs. u16_at V d p = Some bs \<longrightarrow> i + length c \<le> length bs \<longrightarrow>
     (case m d of (r, d') \<Rightarrow> f32_at V d' = f32_at V d \<and> (\<forall>q. q \<noteq> p \<longrightarrow> u16_at V d' q = u16_at V d q) \<and>
        (r = Inr () \<longrightarrow> u16_at V d' p = Some (take i bs @ c @ drop (i + length c) bs))))"

definition device_memory :: "'d external \<Rightarrow> 'd view \<Rightarrow> bool" where
  "device_memory D V \<longleftrightarrow>
     (\<forall>vs. alloc_f32 V (cu_clone_htod D (HF32 vs)) (\<lambda>_. Some vs)) \<and>
     (\<forall>n. alloc_f32 V (cu_alloc_zeros D F32 n) (\<lambda>_. Some (replicate (unat n) 0))) \<and>
     (\<forall>s. alloc_f32 V (cu_clone_dtod D F32 s) (\<lambda>d. f32_at V d (ptr s))) \<and>
     (\<forall>s. alloc_u16 V (cu_clone_dtod D U16 s) (\<lambda>d bs. bs = u16_at V d (ptr s))) \<and>
     (\<forall>n. alloc_u16 V (cu_alloc D U16 n) (\<lambda>_ bs. \<exists>vs. bs = Some vs \<and> length vs = unat n)) \<and>
     (\<forall>p i c. writes_u16 V (cu_memcpy_htod D (HU16 c) (p + of_nat (2 * i))) p i c) \<and>
     (\<forall>p i n. only_reads V (cu_dtoh_f32 D (p + of_nat (4 * i)) n) (\<lambda>d vs. \<forall>xs.
        f32_at V d p = Some xs \<longrightarrow> i + unat n \<le> length xs \<longrightarrow> vs = take (unat n) (drop i xs))) \<and>
     (\<forall>p n. only_reads V (cu_dtoh_u16 D p n) (\<lambda>d vs. \<forall>bs.
        u16_at V d p = Some bs \<longrightarrow> length bs = unat n \<longrightarrow> vs = bs)) \<and>
     only_reads V (cu_synchronize D) (\<lambda>_ _. True)"

section \<open>Contents\<close>

text \<open>Every allocation of \<open>d\<close> is there in \<open>d'\<close> with the same values.\<close>

definition intact :: "'d view \<Rightarrow> 'd \<Rightarrow> 'd \<Rightarrow> bool" where
  "intact V d d' \<longleftrightarrow> f32_at V d \<subseteq>\<^sub>m f32_at V d' \<and> u16_at V d \<subseteq>\<^sub>m u16_at V d'"

lemma intact_refl [simp]: "intact V d d"
  by (simp add: intact_def)

lemma intact_trans: "intact V d e \<Longrightarrow> intact V e f \<Longrightarrow> intact V d f"
  by (auto simp: intact_def intro: map_le_trans)

definition content :: "'d view \<Rightarrow> 'd \<Rightarrow> device_buffer \<Rightarrow> f32 list option" where
  "content V d b = (case bf16 b of
     None \<Rightarrow> f32_at V d (ptr (buf_slice b))
   | Some s \<Rightarrow> map_option (map bf16_to_f32) (u16_at V d (ptr s)))"

lemma content_intact: "intact V d d' \<Longrightarrow> content V d b = Some xs \<Longrightarrow> content V d' b = Some xs"
  by (auto simp: content_def intact_def map_le_def split: option.splits) (metis domI)+

lemma intactD:
  "intact V d d' \<Longrightarrow> f32_at V d p = Some xs \<Longrightarrow> f32_at V d' p = Some xs"
  "intact V d d' \<Longrightarrow> u16_at V d p = Some bs \<Longrightarrow> u16_at V d' p = Some bs"
  by (metis intact_def map_le_def domI)+

text \<open>A buffer that holds a tensor.\<close>

definition holds :: "'d view \<Rightarrow> 'd \<Rightarrow> device_buffer \<Rightarrow> host_tensor \<Rightarrow> bool" where
  "holds V d b t \<longleftrightarrow> content V d b = Some (tdata t) \<and> shape b = tshape t \<and>
     unat (buffer_len b) = length (tdata t)"

lemma holds_intact: "intact V d d' \<Longrightarrow> holds V d b t \<Longrightarrow> holds V d' b t"
  by (auto simp: holds_def intro: content_intact)

section \<open>The calls\<close>

lemma allocates_le: "allocates h r h' xs \<Longrightarrow> h \<subseteq>\<^sub>m h'"
  by (auto simp: allocates_def map_le_def split: sum.splits)

lemma pre_drv [wp]:
  "pre (drv D m) Q E k = pre m (\<lambda>x d. Q x (k\<lparr>device := d\<rparr>))
     (\<lambda>e d. E (from_driver_error (cu_text D) e) (k\<lparr>device := d\<rparr>)) (device k)"
  unfolding drv_def pre_map_err pre_inside by simp

lemma pre_alloc_f32:
  assumes "alloc_f32 V m xs"
    and Q: "\<And>p d'. intact V d d' \<Longrightarrow> f32_at V d p = None \<Longrightarrow> f32_at V d' p = xs d \<Longrightarrow> Q p d'"
    and E: "\<And>e d'. intact V d d' \<Longrightarrow> E e d'"
  shows "pre m Q E d"
proof -
  obtain r d' where m: "m d = (r, d')" by fastforce
  then have R: "allocates (f32_at V d) r (f32_at V d') (xs d)" "u16_at V d' = u16_at V d"
    using assms(1) [unfolded alloc_f32_def, rule_format, of d] by simp_all
  then have "intact V d d'" by (auto simp: intact_def dest: allocates_le)
  then show ?thesis using R Q E by (cases r) (auto simp: pre_def m allocates_def)
qed

lemma pre_alloc_u16:
  assumes "alloc_u16 V m P"
    and Q: "\<And>p d' bs. u16_at V d p = None \<Longrightarrow> P d bs \<Longrightarrow> u16_at V d' = (u16_at V d)(p := bs) \<Longrightarrow>
        f32_at V d' = f32_at V d \<Longrightarrow> intact V d d' \<Longrightarrow> Q p d'"
    and E: "\<And>e d'. intact V d d' \<Longrightarrow> E e d'"
  shows "pre m Q E d"
proof -
  obtain r d' where m: "m d = (r, d')" by fastforce
  then obtain bs where R: "P d bs" "allocates (u16_at V d) r (u16_at V d') bs" "f32_at V d' = f32_at V d"
    using assms(1) [unfolded alloc_u16_def, rule_format, of d] by auto
  then have "intact V d d'" by (auto simp: intact_def dest: allocates_le)
  then show ?thesis using R Q E by (cases r) (auto simp: pre_def m allocates_def)
qed

lemma pre_only_reads:
  assumes "only_reads V m P"
    and Q: "\<And>x d'. intact V d d' \<Longrightarrow> P d x \<Longrightarrow> Q x d'"
    and E: "\<And>e d'. fst (m d) = Inl e \<Longrightarrow> intact V d d' \<Longrightarrow> E e d'"
  shows "pre m Q E d"
proof -
  obtain r d' where m: "m d = (r, d')" by fastforce
  then have R: "f32_at V d' = f32_at V d" "u16_at V d' = u16_at V d" "\<forall>x. r = Inr x \<longrightarrow> P d x"
    using assms(1) [unfolded only_reads_def, rule_format, of d] by simp_all
  then show ?thesis using Q E by (cases r) (auto simp: pre_def m intact_def)
qed

lemma memory_laws:
  assumes "device_memory D V"
  shows "alloc_f32 V (cu_clone_htod D (HF32 vs)) (\<lambda>_. Some vs)"
    "alloc_f32 V (cu_alloc_zeros D F32 n) (\<lambda>_. Some (replicate (unat n) 0))"
    "alloc_f32 V (cu_clone_dtod D F32 s) (\<lambda>d. f32_at V d (ptr s))"
    "alloc_u16 V (cu_clone_dtod D U16 s) (\<lambda>d bs. bs = u16_at V d (ptr s))"
    "alloc_u16 V (cu_alloc D U16 n) (\<lambda>_ bs. \<exists>vs. bs = Some vs \<and> length vs = unat n)"
    "writes_u16 V (cu_memcpy_htod D (HU16 c) (p + of_nat (2 * i))) p i c"
    "only_reads V (cu_dtoh_f32 D (p + of_nat (4 * i)) n) (\<lambda>d vs. \<forall>xs.
        f32_at V d p = Some xs \<longrightarrow> i + unat n \<le> length xs \<longrightarrow> vs = take (unat n) (drop i xs))"
    "only_reads V (cu_dtoh_u16 D p n) (\<lambda>d vs. \<forall>bs. u16_at V d p = Some bs \<longrightarrow> length bs = unat n \<longrightarrow> vs = bs)"
    "only_reads V (cu_synchronize D) (\<lambda>_ _. True)"
  using assms unfolding device_memory_def by simp_all

lemma andthen_assoc: "andthen (andthen m f) g = andthen m (\<lambda>x. andthen (f x) g)"
  by (rule ext) (auto simp: andthen_def split: prod.split sum.split)

lemma pre_andthen_fun: "pre (andthen m f) Q E = pre m (\<lambda>x. pre (f x) Q E) E"
  by (rule ext) (rule pre_andthen)

lemma pre_forbid:
  "Q () k \<Longrightarrow> (\<And>e k'. capture k \<noteq> None \<Longrightarrow> device k' = device k \<Longrightarrow> E e k') \<Longrightarrow>
    pre (forbid_in_capture what) Q E k"
  by (auto simp: pre_def forbid_in_capture_def Let_def split: option.split)

section \<open>The transfers\<close>

text \<open>A Kernel operation that, run on contents \<open>d\<close>, leaves them intact and returns \<open>Q\<close>.\<close>

definition yields :: "'d view \<Rightarrow> ('d, 'a) kernel_op \<Rightarrow> ('a \<Rightarrow> 'd \<Rightarrow> bool) \<Rightarrow> 'd kernels \<Rightarrow> bool" where
  "yields V m Q k = pre m (\<lambda>x k'. intact V (device k) (device k') \<and> Q x (device k'))
     (\<lambda>_ k'. intact V (device k) (device k')) k"

lemma yields_upload:
  assumes M: "device_memory D V" and "length (tdata t) < 2 ^ 64"
  shows "yields V (upload D t) (\<lambda>b d. holds V d b t) k"
  unfolding yields_def upload_def pre_andthen
  by (rule pre_forbid)
    (use assms(2) in \<open>auto simp: wp count_upload_def holds_def content_def buffer_len_def unat_of_nat
      take_bit_nat_eq_self_iff intro!: pre_alloc_f32 [OF memory_laws(1) [OF M]]\<close>)

lemma yields_zeros:
  assumes M: "device_memory D V"
  shows "yields V (zeros D sh) (\<lambda>b d. holds V d b \<lparr>tshape = sh, tdata = replicate (unat (shape_len sh)) 0\<rparr>) k"
  unfolding yields_def zeros_def pre_andthen
  by (rule pre_forbid)
    (auto simp: wp alloc_zeros_def holds_def content_def buffer_len_def dest: checked_product_len
      intro!: pre_alloc_f32 [OF memory_laws(2) [OF M]] split: option.split)

lemma yields_clone:
  assumes M: "device_memory D V" and h: "holds V (device k) b t"
  shows "yields V (clone_buffer D b) (\<lambda>b' d. holds V d b' t) k"
proof (cases "bf16 b")
  case None
  then show ?thesis unfolding yields_def clone_buffer_def pre_andthen
    by (intro pre_forbid) (use h in \<open>auto simp: wp holds_def content_def buffer_len_def
        intro!: pre_alloc_f32 [OF memory_laws(3) [OF M]]\<close>)
next
  case (Some s)
  show ?thesis unfolding yields_def clone_buffer_def pre_andthen
    by (intro pre_forbid) (use h Some in \<open>auto simp: wp holds_def content_def buffer_len_def
        intro!: pre_alloc_f32 [OF memory_laws(3) [OF M]] pre_alloc_u16 [OF memory_laws(4) [OF M]]
        dest: intact_trans intactD\<close>)
qed

section \<open>Compact weights\<close>

text \<open>The chunks of a list are the list, all but the last of them full.\<close>

lemma concat_chunks: "0 < n \<Longrightarrow> concat (chunks n xs) = xs"
proof (induction n xs rule: chunks.induct)
  case (1 n xs)
  then show ?case by (subst chunks.simps) simp
qed

lemma full_chunks: "c \<in> set (butlast (chunks n xs)) \<Longrightarrow> length c = n"
proof (induction n xs rule: chunks.induct)
  case (1 n xs)
  show ?case
  proof (cases "xs = [] \<or> n = 0")
    case True
    then show ?thesis using "1.prems" by (simp add: chunks.simps)
  next
    case False
    have step: "chunks n xs = take n xs # chunks n (drop n xs)" using False by (subst chunks.simps) simp
    have "n \<le> length xs" if "chunks n (drop n xs) \<noteq> []"
      using that by (subst (asm) chunks.simps) (simp split: if_splits)
    then show ?thesis using 1 False step by (auto split: if_splits)
  qed
qed

abbreviation high_halves :: "f32 list \<Rightarrow> u16 list" where
  "high_halves \<equiv> map (\<lambda>v. ucast (drop_bit 16 v))"

text \<open>Only the allocation at \<open>p\<close> may have changed.\<close>

definition only_at :: "'d view \<Rightarrow> u64 \<Rightarrow> 'd \<Rightarrow> 'd \<Rightarrow> bool" where
  "only_at V p d d' \<longleftrightarrow> f32_at V d' = f32_at V d \<and> (\<forall>q. q \<noteq> p \<longrightarrow> u16_at V d' q = u16_at V d q)"

lemma pre_upload_chunk:
  assumes M: "device_memory D V" and "u16_at V (device k) (ptr bits) = Some bs" "i * CHUNK + length c \<le> length bs"
    and Q: "\<And>k'. only_at V (ptr bits) (device k) (device k') \<Longrightarrow> u16_at V (device k') (ptr bits) =
        Some (take (i * CHUNK) bs @ high_halves c @ drop (i * CHUNK + length c) bs) \<Longrightarrow> Q () k'"
    and E: "\<And>e k'. only_at V (ptr bits) (device k) (device k') \<Longrightarrow> E e k'"
  shows "pre (upload_chunk D bits i c) Q E k"
proof -
  define a where "a = ptr bits + of_nat (2 * (i * CHUNK))"
  let ?m = "cu_memcpy_htod D (HU16 (high_halves c)) a"
  obtain r d' where m: "?m (device k) = (r, d')" by fastforce
  have "case ?m (device k) of (r, d') \<Rightarrow> f32_at V d' = f32_at V (device k) \<and>
      (\<forall>q. q \<noteq> ptr bits \<longrightarrow> u16_at V d' q = u16_at V (device k) q) \<and> (r = Inr () \<longrightarrow> u16_at V d' (ptr bits) =
        Some (take (i * CHUNK) bs @ high_halves c @ drop (i * CHUNK + length (high_halves c)) bs))"
    by (rule memory_laws(6) [OF M, of "high_halves c" "ptr bits" "i * CHUNK", folded a_def, unfolded writes_u16_def, rule_format])
      (use assms(2,3) in simp_all)
  then have "only_at V (ptr bits) (device k) d' \<and> (r = Inr () \<longrightarrow> u16_at V d' (ptr bits) =
      Some (take (i * CHUNK) bs @ high_halves c @ drop (i * CHUNK + length c) bs))"
    unfolding m by (simp add: only_at_def)
  then show ?thesis unfolding upload_chunk_def pre_drv a_def [symmetric]
    by (cases r) (simp_all add: pre_def m Q E)
qed

lemma pre_upload_chunks:
  fixes k :: "'d kernels"
  assumes M: "device_memory D V" and bs: "u16_at V (device k) (ptr bits) = Some bs"
    and len: "length bs = i * CHUNK + length (concat cs)" and full: "\<forall>c \<in> set (butlast cs). length c = CHUNK"
  shows "pre (upload_chunks D bits i cs) (\<lambda>_ k'. only_at V (ptr bits) (device k) (device k') \<and>
      u16_at V (device k') (ptr bits) = Some (take (i * CHUNK) bs @ high_halves (concat cs)))
    (\<lambda>_ k'. only_at V (ptr bits) (device k) (device k')) k"
  using bs len full
proof (induction cs arbitrary: i bs k)
  case Nil
  then show ?case by (simp add: wp only_at_def)
next
  case (Cons c cs)
  show ?case unfolding upload_chunks.simps pre_andthen
  proof (rule pre_upload_chunk [OF M Cons.prems(1)])
    show "i * CHUNK + length c \<le> length bs" using Cons.prems(2) by simp
    fix k' :: "'d kernels"
    assume at: "only_at V (ptr bits) (device k) (device k')"
      and now: "u16_at V (device k') (ptr bits) =
        Some (take (i * CHUNK) bs @ high_halves c @ drop (i * CHUNK + length c) bs)"
    show "pre (upload_chunks D bits (Suc i) cs) (\<lambda>_ k''. only_at V (ptr bits) (device k) (device k'') \<and>
        u16_at V (device k'') (ptr bits) = Some (take (i * CHUNK) bs @ high_halves (concat (c # cs))))
      (\<lambda>_ k''. only_at V (ptr bits) (device k) (device k'')) k'"
    proof (cases "cs = []")
      case True
      then show ?thesis using at now Cons.prems(2) by (simp add: wp)
    next
      case False
      then have c: "length c = CHUNK" using Cons.prems(3) by simp
      let ?bs = "take (i * CHUNK) bs @ high_halves c @ drop (i * CHUNK + length c) bs"
      have start: "length (take (i * CHUNK) bs @ high_halves c) = Suc i * CHUNK" using Cons.prems(2) c by simp
      have t: "take (Suc i * CHUNK) ?bs = take (i * CHUNK) bs @ high_halves c"
        using start by (metis append_assoc append_eq_conv_conj)
      have "length ?bs = Suc i * CHUNK + length (concat cs)" using Cons.prems(2) c by simp
      moreover have "\<forall>c \<in> set (butlast cs). length c = CHUNK" using Cons.prems(3) False by simp
      ultimately have "pre (upload_chunks D bits (Suc i) cs) (\<lambda>_ k''. only_at V (ptr bits) (device k') (device k'') \<and>
          u16_at V (device k'') (ptr bits) = Some ((take (i * CHUNK) bs @ high_halves c) @ high_halves (concat cs)))
        (\<lambda>_ k''. only_at V (ptr bits) (device k') (device k'')) k'"
        unfolding t [symmetric] by (rule Cons.IH [OF now])
      then show ?thesis by (rule pre_mono) (use at in \<open>auto simp: only_at_def\<close>)
    qed
  qed auto
qed

lemma yields_upload_weight:
  assumes M: "device_memory D V" and len: "length (tdata t) < 2 ^ 64"
  shows "yields V (upload_weight D t) (\<lambda>b d. holds V d b t) k"
proof (cases "compact_eligible t")
  case False
  then show ?thesis using yields_upload [OF assms] by (simp add: upload_weight_def)
next
  case True
  let ?data = "tdata t"
  have "bf16_to_f32 (ucast (drop_bit 16 v)) = v" if "v \<in> set ?data" for v
    using True that exact_bf16_value by (fastforce simp: compact_eligible_def list_all_iff)
  then have exact: "map bf16_to_f32 (high_halves ?data) = ?data" by (simp add: map_idI)
  have n: "unat (data_len ?data) = length ?data" using len by (simp add: unat_of_nat take_bit_nat_eq_self_iff)
  have chunk: "0 < CHUNK" by (simp add: CHUNK_def)
  have body: "pre (upload_chunks D \<lparr>ptr = p, slen = data_len ?data\<rparr> 0 (chunks CHUNK ?data)) Q E k'"
    if "u16_at V (device k) p = None" "u16_at V (device k') = (u16_at V (device k))(p := Some vs)"
      "f32_at V (device k') = f32_at V (device k)" "length vs = length ?data"
      and Q: "\<And>k''. intact V (device k) (device k'') \<Longrightarrow> u16_at V (device k'') p = Some (high_halves ?data) \<Longrightarrow> Q () k''"
      and E: "\<And>e k''. intact V (device k) (device k'') \<Longrightarrow> E e k''"
    for p k' vs Q E
  proof -
    have at: "intact V (device k) d" if "only_at V p (device k') d" for d
      using that \<open>u16_at V (device k) p = None\<close> \<open>u16_at V (device k') = _\<close> \<open>f32_at V (device k') = _\<close>
      by (auto simp: only_at_def intact_def map_le_def) (metis option.distinct(1))
    have "u16_at V (device k') (ptr \<lparr>ptr = p, slen = data_len ?data\<rparr>) = Some vs" using that(2) by simp
    note this [THEN pre_upload_chunks [OF M, where i = 0 and cs = "chunks CHUNK ?data"]]
    moreover have "\<forall>c \<in> set (butlast (chunks CHUNK ?data)). length c = CHUNK" using full_chunks by blast
    ultimately have "pre (upload_chunks D \<lparr>ptr = p, slen = data_len ?data\<rparr> 0 (chunks CHUNK ?data))
        (\<lambda>_ k''. only_at V p (device k') (device k'') \<and> u16_at V (device k'') p = Some (high_halves ?data))
        (\<lambda>_ k''. only_at V p (device k') (device k'')) k'"
      using that(4) chunk by (simp add: concat_chunks)
    then show ?thesis by (rule pre_mono) (use at Q E in auto)
  qed
  show ?thesis
    unfolding yields_def upload_weight_def if_not_P [OF not_not [THEN iffD2, OF True]] pre_andthen alloc_def pre_ret
      pre_drv
    by (rule pre_forbid, rule pre_alloc_u16 [OF memory_laws(5) [OF M]], elim exE conjE, rule body)
      (use exact in \<open>auto simp: n wp alloc_zeros_def count_upload_def holds_def content_def buffer_len_def
        intro!: pre_alloc_f32 [OF memory_laws(2) [OF M]] dest: intact_trans intactD\<close>)
qed

section \<open>Downloads\<close>

text \<open>
  A download of \<open>t\<close> is sure to succeed outside a capture when the driver's reads do and
  \<open>HostTensor::new\<close> takes the tensor.
\<close>

definition reads_succeed :: "'d external \<Rightarrow> bool" where
  "reads_succeed D \<longleftrightarrow> (\<forall>a n d. \<not> isl (fst (cu_dtoh_f32 D a n d))) \<and>
     (\<forall>a n d. \<not> isl (fst (cu_dtoh_u16 D a n d))) \<and> (\<forall>d. \<not> isl (fst (cu_synchronize D d)))"

lemma read_failed:
  "fst (cu_dtoh_f32 D a n d) = Inl e \<Longrightarrow> \<not> reads_succeed D"
  "fst (cu_dtoh_u16 D a n d) = Inl e \<Longrightarrow> \<not> reads_succeed D"
  "fst (cu_synchronize D d) = Inl e \<Longrightarrow> \<not> reads_succeed D"
  by (metis reads_succeed_def isl_def)+

definition readable :: "'d external \<Rightarrow> 'd kernels \<Rightarrow> host_tensor \<Rightarrow> bool" where
  "readable D k t \<longleftrightarrow> capture k = None \<and> reads_succeed D \<and> \<not> isl (host_new D (tshape t) (tdata t))"

text \<open>A download that returns \<open>r\<close>, and fails only when \<open>ok\<close> does not hold.\<close>

definition fetches :: "'d view \<Rightarrow> bool \<Rightarrow> ('d, 'a) kernel_op \<Rightarrow> 'a \<Rightarrow> 'd kernels \<Rightarrow> bool" where
  "fetches V ok m r k = pre m (\<lambda>x k'. intact V (device k) (device k') \<and> x = r)
     (\<lambda>_ k'. intact V (device k) (device k') \<and> \<not> ok) k"

lemma pre_download:
  assumes M: "device_memory D V" and h: "holds V (device k) b t"
    and Q: "\<And>k'. intact V (device k) (device k') \<Longrightarrow> Q (tdata t) k'"
    and E: "\<And>e k'. \<not> reads_succeed D \<Longrightarrow> intact V (device k) (device k') \<Longrightarrow> E e k'"
  shows "pre (case bf16 b of
         Some bits \<Rightarrow> andthen (drv D (cu_dtoh_u16 D (ptr bits) (slen bits))) (\<lambda>bs. ret (map bf16_to_f32 bs))
       | None \<Rightarrow> drv D (cu_dtoh_f32 D (ptr (buf_slice b)) (slen (buf_slice b)))) Q E k"
proof (cases "bf16 b")
  case None
  have "only_reads V (cu_dtoh_f32 D (ptr (buf_slice b)) (slen (buf_slice b))) (\<lambda>d vs. \<forall>xs.
      f32_at V d (ptr (buf_slice b)) = Some xs \<longrightarrow> unat (slen (buf_slice b)) \<le> length xs \<longrightarrow>
      vs = take (unat (slen (buf_slice b))) xs)"
    using memory_laws(7) [OF M, of "ptr (buf_slice b)" 0] by simp
  then have "pre (cu_dtoh_f32 D (ptr (buf_slice b)) (slen (buf_slice b))) (\<lambda>x d. Q x (k\<lparr>device := d\<rparr>))
      (\<lambda>e d. E (from_driver_error (cu_text D) e) (k\<lparr>device := d\<rparr>)) (device k)"
    by (rule pre_only_reads)
      (use None h Q E in \<open>auto simp: holds_def content_def buffer_len_def dest: read_failed\<close>)
  then show ?thesis using None by (simp add: pre_drv)
next
  case (Some s)
  obtain bs where bs: "u16_at V (device k) (ptr s) = Some bs" "map bf16_to_f32 bs = tdata t" "length bs = unat (slen s)"
    using Some h by (auto simp: holds_def content_def buffer_len_def) (metis length_map)
  have "pre (cu_dtoh_u16 D (ptr s) (slen s)) (\<lambda>x d. Q (map bf16_to_f32 x) (k\<lparr>device := d\<rparr>))
      (\<lambda>e d. E (from_driver_error (cu_text D) e) (k\<lparr>device := d\<rparr>)) (device k)"
    by (rule pre_only_reads [OF memory_laws(8) [OF M, of "ptr s" "slen s"]])
      (use bs Q E in \<open>auto dest: read_failed\<close>)
  then show ?thesis using Some by (simp add: wp)
qed

text \<open>The end of every download: wait, count, and build the host tensor.\<close>

lemma pre_finish_download:
  assumes M: "device_memory D V" and H: "host_checked D" and k: "intact V d (device k)"
    and t: "tshape t = sh" "tdata t = data"
  shows "pre (andthen (drv D (cu_synchronize D)) (\<lambda>_. andthen count_download (\<lambda>_. lift (host_tensor_new D sh data))))
    (\<lambda>x k'. intact V d (device k') \<and> x = t)
    (\<lambda>_ k'. intact V d (device k') \<and> (\<not> reads_succeed D \<or> isl (host_new D sh data))) k"
proof -
  have eq: "t' = t" if "host_tensor_new D sh data = Inr t'" for t'
    using host_tensor_newD [OF H that] t by (cases t) simp
  have fail: "isl (host_new D sh data)" if "host_tensor_new D sh data = Inl e" for e
    using that by (auto simp: host_tensor_new_def split: sum.splits)
  show ?thesis
    by (auto simp: wp count_download_def eq intro!: pre_only_reads [OF memory_laws(9) [OF M]]
        intro: intact_trans [OF k] fail dest: read_failed split: sum.split)
qed

lemma fetches_download:
  fixes k :: "'d kernels"
  assumes M: "device_memory D V" and H: "host_checked D" and h: "holds V (device k) b t"
  shows "fetches V (readable D k t) (download D b) t k"
  unfolding fetches_def download_def pre_andthen
proof (rule pre_forbid)
  show "pre (case bf16 b of
       Some bits \<Rightarrow> andthen (drv D (cu_dtoh_u16 D (ptr bits) (slen bits))) (\<lambda>bs. ret (map bf16_to_f32 bs))
     | None \<Rightarrow> drv D (cu_dtoh_f32 D (ptr (buf_slice b)) (slen (buf_slice b))))
    (\<lambda>data. pre (drv D (cu_synchronize D)) (\<lambda>_. pre count_download (\<lambda>_.
        pre (lift (host_tensor_new D (shape b) data)) (\<lambda>x k''. intact V (device k) (device k'') \<and> x = t)
          (\<lambda>_ k''. intact V (device k) (device k'') \<and> \<not> readable D k t))
        (\<lambda>_ k''. intact V (device k) (device k'') \<and> \<not> readable D k t))
        (\<lambda>_ k''. intact V (device k) (device k'') \<and> \<not> readable D k t))
    (\<lambda>_ k''. intact V (device k) (device k'') \<and> \<not> readable D k t) k"
  proof (rule pre_download [OF M h])
    fix k' :: "'d kernels"
    assume k': "intact V (device k) (device k')"
    show "pre (drv D (cu_synchronize D)) (\<lambda>_. pre count_download (\<lambda>_.
        pre (lift (host_tensor_new D (shape b) (tdata t))) (\<lambda>x k''. intact V (device k) (device k'') \<and> x = t)
          (\<lambda>_ k''. intact V (device k) (device k'') \<and> \<not> readable D k t))
        (\<lambda>_ k''. intact V (device k) (device k'') \<and> \<not> readable D k t))
        (\<lambda>_ k''. intact V (device k) (device k'') \<and> \<not> readable D k t) k'"
    proof -
      have "pre (andthen (drv D (cu_synchronize D)) (\<lambda>_. andthen count_download (\<lambda>_.
          lift (host_tensor_new D (shape b) (tdata t))))) (\<lambda>x k''. intact V (device k) (device k'') \<and> x = t)
          (\<lambda>_ k''. intact V (device k) (device k'') \<and> \<not> readable D k t) k'"
        by (rule pre_mono [OF pre_finish_download [OF M H k', of t "shape b" "tdata t"]])
          (use h in \<open>auto simp: readable_def holds_def\<close>)
      then show ?thesis by (simp only: pre_andthen_fun)
    qed
  qed (simp add: readable_def)
qed (simp add: readable_def)

text \<open>A tensor of rows whose values are all there, and some of its rows.\<close>

definition rectangular :: "host_tensor \<Rightarrow> u64 \<Rightarrow> u64 \<Rightarrow> bool" where
  "rectangular t rows cols \<longleftrightarrow> tshape t = [rows, cols] \<and> unat rows * unat cols = length (tdata t) \<and>
     length (tdata t) < 2 ^ 64"

definition rows_of :: "host_tensor \<Rightarrow> u64 \<Rightarrow> u64 \<Rightarrow> u64 \<Rightarrow> host_tensor" where
  "rows_of t cols first_row rows = \<lparr>tshape = [rows, cols],
     tdata = take (unat rows * unat cols) (drop (unat first_row * unat cols) (tdata t))\<rparr>"

lemma row_range:
  assumes t: "rectangular t n cols" and le: "unat first_row + unat rows \<le> unat n"
  shows "unat (first_row * cols) = unat first_row * unat cols"
    "unat ((first_row + rows) * cols) = (unat first_row + unat rows) * unat cols"
    "unat ((first_row + rows) * cols - first_row * cols) = unat rows * unat cols"
    "unat first_row * unat cols + unat rows * unat cols \<le> length (tdata t)"
proof -
  have bound: "(unat first_row + unat rows) * unat cols \<le> length (tdata t)" "length (tdata t) < 2 ^ 64"
    using t mult_le_mono1 [OF le, of "unat cols"] by (auto simp: rectangular_def)
  show "unat first_row * unat cols + unat rows * unat cols \<le> length (tdata t)"
    using bound(1) by (simp add: algebra_simps)
  then have "unat first_row * unat cols < 2 ^ 64" using bound(2) by linarith
  then show f: "unat (first_row * cols) = unat first_row * unat cols" by (simp add: unat_mult_u64)
  have "unat first_row + unat rows < 2 ^ 64" using le unat_lt_u64 [of n] by simp
  then have r: "unat (first_row + rows) = unat first_row + unat rows" by (simp add: unat_add_u64)
  have "unat (first_row + rows) * unat cols < 2 ^ 64" using bound r by simp
  then show s: "unat ((first_row + rows) * cols) = (unat first_row + unat rows) * unat cols"
    using r by (simp add: unat_mult_u64)
  have "first_row * cols \<le> (first_row + rows) * cols" by (simp add: word_le_nat_alt f s)
  then show "unat ((first_row + rows) * cols - first_row * cols) = unat rows * unat cols"
    unfolding unat_sub_le [OF \<open>first_row * cols \<le> _\<close>] f s by (simp add: add_mult_distrib)
qed

lemma read_rows:
  assumes M: "device_memory D V" and h: "holds V (device k) b t" and f32: "bf16 b = None"
    and t: "rectangular t n cols" and le: "unat first_row + unat rows \<le> unat n"
    and Q: "\<And>d'. intact V (device k) d' \<Longrightarrow> Q (tdata (rows_of t cols first_row rows)) d'"
    and E: "\<And>e d'. \<not> reads_succeed D \<Longrightarrow> intact V (device k) d' \<Longrightarrow> E e d'"
  shows "pre (cu_dtoh_f32 D (ptr (buf_slice b) + 4 * (first_row * cols))
      ((first_row + rows) * cols - first_row * cols)) Q E (device k)"
proof -
  have a: "ptr (buf_slice b) + 4 * (first_row * cols) = ptr (buf_slice b) + of_nat (4 * unat (first_row * cols))"
    by simp
  have c: "f32_at V (device k) (ptr (buf_slice b)) = Some (tdata t)" using h f32 by (simp add: holds_def content_def)
  show ?thesis unfolding a
    by (rule pre_only_reads [OF memory_laws(7) [OF M]])
      (use c row_range [OF t le] Q E in \<open>auto simp: rows_of_def dest: read_failed\<close>)
qed

lemma fetches_download_rows:
  fixes k :: "'d kernels"
  assumes M: "device_memory D V" and H: "host_checked D" and h: "holds V (device k) b t"
    and t: "rectangular t n cols" and le: "unat first_row + unat rows \<le> unat n"
  shows "fetches V (readable D k (rows_of t cols first_row rows)) (download_rows D b first_row rows)
    (if is_compact b then None else Some (rows_of t cols first_row rows)) k"
proof -
  let ?part = "rows_of t cols first_row rows"
  have shape: "shape b = [n, cols]" using h t by (simp add: holds_def rectangular_def)
  have "unat first_row + unat rows < 2 ^ 64" using le unat_lt_u64 [of n] by simp
  then have "saturating_add first_row rows = first_row + rows" "unat (first_row + rows) = unat first_row + unat rows"
    by (simp_all add: saturating_add_def checked_add_def unat_add_u64)
  then have fits: "\<not> saturating_add first_row rows > n" using le by (simp add: word_less_nat_alt)
  have finish: "pre (andthen (drv D (cu_synchronize D)) (\<lambda>_. andthen count_download (\<lambda>_.
      andthen (lift (host_tensor_new D [rows, cols] (tdata ?part))) (\<lambda>t. ret (Some t)))))
      (\<lambda>r k''. intact V (device k) (device k'') \<and> r = Some ?part)
      (\<lambda>_ k''. intact V (device k) (device k'') \<and> \<not> readable D k ?part) k'"
    if "intact V (device k) (device k')" for k' :: "'d kernels"
  proof -
    have "pre (andthen (andthen (drv D (cu_synchronize D)) (\<lambda>_. andthen count_download (\<lambda>_.
        lift (host_tensor_new D [rows, cols] (tdata ?part))))) (\<lambda>t. ret (Some t)))
        (\<lambda>r k''. intact V (device k) (device k'') \<and> r = Some ?part)
        (\<lambda>_ k''. intact V (device k) (device k'') \<and> \<not> readable D k ?part) k'"
      by (subst pre_andthen, rule pre_mono [OF pre_finish_download [OF M H that, of ?part]])
        (auto simp: readable_def rows_of_def wp)
    then show ?thesis by (simp only: andthen_assoc)
  qed
  have "pre (download_rows D b first_row rows)
      (\<lambda>r k'. intact V (device k) (device k') \<and> r = (if is_compact b then None else Some ?part))
      (\<lambda>_ k'. intact V (device k) (device k') \<and> \<not> readable D k ?part) k"
    unfolding download_rows_def pre_andthen_fun shape list.case Let_def
  proof (rule pre_forbid)
    show "pre (if is_compact b \<or> n < saturating_add first_row rows then ret None
        else andthen (drv D (cu_dtoh_f32 D (ptr (buf_slice b) + 4 * (first_row * cols))
            ((first_row + rows) * cols - first_row * cols))) (\<lambda>data.
          andthen (drv D (cu_synchronize D)) (\<lambda>_. andthen count_download (\<lambda>_.
          andthen (lift (host_tensor_new D [rows, cols] data)) (\<lambda>t. ret (Some t))))))
        (\<lambda>r k'. intact V (device k) (device k') \<and> r = (if is_compact b then None else Some ?part))
        (\<lambda>_ k'. intact V (device k) (device k') \<and> \<not> readable D k ?part) k"
    proof (cases "is_compact b")
      case True
      then show ?thesis by (simp add: wp)
    next
      case False
      then have no: "\<not> (is_compact b \<or> n < saturating_add first_row rows)" "bf16 b = None"
        using fits by (simp_all add: is_compact_def)
      show ?thesis unfolding if_not_P [OF no(1)] if_not_P [OF False] pre_andthen [of "drv D (cu_dtoh_f32 D _ _)"] pre_drv
      proof (rule read_rows [OF M h no(2) t le])
        fix d' assume "intact V (device k) d'"
        then show "pre (andthen (drv D (cu_synchronize D)) (\<lambda>_. andthen count_download (\<lambda>_.
            andthen (lift (host_tensor_new D [rows, cols] (tdata ?part))) (\<lambda>t. ret (Some t)))))
          (\<lambda>r k'. intact V (device k) (device k') \<and> r = Some ?part)
          (\<lambda>_ k'. intact V (device k) (device k') \<and> \<not> readable D k ?part) (k\<lparr>device := d'\<rparr>)"
          by (intro finish) simp
      qed (simp add: readable_def)
    qed
  qed (simp add: readable_def)
  then show ?thesis by (simp add: fetches_def)
qed

end
