(* ===== verification/Simulated_Memory.thy ===== *)
theory Simulated_Memory
  imports Device_Memory
begin

text \<open>
  A Device with memory, for the concrete cases: numbered blocks of values, each at its own
  multiple of \<open>2 ^ 32\<close>, and copies that find the block and the offset of an address.
\<close>

record heap =
  h_f32 :: "nat \<Rightarrow> f32 list option"
  h_u16 :: "nat \<Rightarrow> u16 list option"
  h_next :: nat

definition block_of :: "u64 \<Rightarrow> nat" where
  "block_of p = unat p div 4294967296"

definition offset_of :: "u64 \<Rightarrow> nat" where
  "offset_of p = unat p mod 4294967296"

definition small :: "'a list option \<Rightarrow> 'a list option" where
  "small r = (case r of None \<Rightarrow> None | Some xs \<Rightarrow> if length xs < 1073741824 then Some xs else None)"

text \<open>The block at an address, and the address of a block. Block 0 is not used: its address is null.\<close>

definition look :: "(nat \<Rightarrow> 'a list option) \<Rightarrow> u64 \<Rightarrow> 'a list option" where
  "look m p = (if offset_of p = 0 \<and> p \<noteq> 0 then small (m (block_of p)) else None)"

definition address_of :: "nat \<Rightarrow> u64" where
  "address_of k = of_nat (k * 4294967296)"

definition heap_view :: "heap view" where
  "heap_view = \<lparr>f32_at = (\<lambda>h. look (h_f32 h)), u16_at = (\<lambda>h. look (h_u16 h))\<rparr>"

definition may_alloc :: "(nat \<Rightarrow> 'a list option) \<Rightarrow> nat \<Rightarrow> 'a list \<Rightarrow> bool" where
  "may_alloc m k xs \<longleftrightarrow> 0 < k \<and> k < 2147483648 \<and> m k = None \<and> length xs < 1073741824"

definition heap_alloc_f32 :: "f32 list \<Rightarrow> (heap, cu_result, u64) exec" where
  "heap_alloc_f32 xs = (\<lambda>h. let k = h_next h in
     if may_alloc (h_f32 h) k xs
     then (Inr (address_of k), h\<lparr>h_f32 := (h_f32 h)(k \<mapsto> xs), h_next := k + 1\<rparr>)
     else (Inl CUDA_ERROR_OUT_OF_MEMORY, h))"

definition heap_alloc_u16 :: "u16 list \<Rightarrow> (heap, cu_result, u64) exec" where
  "heap_alloc_u16 xs = (\<lambda>h. let k = h_next h in
     if may_alloc (h_u16 h) k xs
     then (Inr (address_of k), h\<lparr>h_u16 := (h_u16 h)(k \<mapsto> xs), h_next := k + 1\<rparr>)
     else (Inl CUDA_ERROR_OUT_OF_MEMORY, h))"

definition heap_copy :: "elem \<Rightarrow> cuda_slice \<Rightarrow> (heap, cu_result, u64) exec" where
  "heap_copy ty s = (\<lambda>h. if ty = U16
     then (case u16_at heap_view h (ptr s) of Some xs \<Rightarrow> heap_alloc_u16 xs h | None \<Rightarrow> (Inl (CUDA_OTHER 1), h))
     else (case f32_at heap_view h (ptr s) of Some xs \<Rightarrow> heap_alloc_f32 xs h | None \<Rightarrow> (Inl (CUDA_OTHER 1), h)))"

definition heap_write :: "host_data \<Rightarrow> u64 \<Rightarrow> (heap, cu_result, unit) exec" where
  "heap_write vals a = (\<lambda>h. case (vals, small (h_u16 h (block_of a))) of
       (HU16 c, Some bs) \<Rightarrow>
         (let i = offset_of a div 2 in
          if i + length c \<le> length bs
          then (Inr (), h\<lparr>h_u16 := (h_u16 h)(block_of a \<mapsto> take i bs @ c @ drop (i + length c) bs)\<rparr>)
          else (Inl (CUDA_OTHER 1), h))
     | _ \<Rightarrow> (Inl (CUDA_OTHER 1), h))"

definition heap_read :: "'a \<Rightarrow> 'a list option \<Rightarrow> nat \<Rightarrow> nat \<Rightarrow> 'a list" where
  "heap_read z r i n = (case r of
     Some xs \<Rightarrow> (if i + n \<le> length xs then take n (drop i xs) else replicate n z) | None \<Rightarrow> replicate n z)"

definition heap_device :: "heap external" where
  "heap_device = \<lparr>cu_text = (\<lambda>_. ''CUDA error''),
     cu_alloc = (\<lambda>ty n. if ty = U16 then heap_alloc_u16 (replicate (unat n) 0) else heap_alloc_f32 (replicate (unat n) 0)),
     cu_alloc_zeros = (\<lambda>ty n. heap_alloc_f32 (replicate (unat n) 0)),
     cu_clone_htod = (\<lambda>vals. case vals of HF32 xs \<Rightarrow> heap_alloc_f32 xs | HU16 xs \<Rightarrow> heap_alloc_u16 xs
        | HU64 _ \<Rightarrow> throw (CUDA_OTHER 1)),
     cu_memcpy_htod = heap_write,
     cu_dtoh_f32 = (\<lambda>a n h. (Inr (heap_read 0 (small (h_f32 h (block_of a))) (offset_of a div 4) (unat n)), h)),
     cu_dtoh_u16 = (\<lambda>a n h. (Inr (heap_read 0 (small (h_u16 h (block_of a))) (offset_of a div 2) (unat n)), h)),
     cu_dtoh_u64 = (\<lambda>_. ret 0), cu_dtoh_i32 = (\<lambda>_. ret 0),
     cu_clone_dtod = heap_copy, cu_memcpy_dtod = (\<lambda>_ _. ret ()), cu_memset_zeros = (\<lambda>_. ret ()),
     cu_synchronize = ret (), cu_load_function = (\<lambda>_. ret ()), cu_load_tensor_function = (\<lambda>_. ret ()),
     cu_set_max_shared = (\<lambda>_ _. ret ()), cu_launch = (\<lambda>_. ret ()), cu_begin_capture = ret (),
     cu_end_capture = ret (Some 1), cu_graph_launch = (\<lambda>_. ret ()), for_num_elems = sim_config,
     banded_validate = (\<lambda>_. Inr ()), host_new = sim_host\<rparr>"

section \<open>It keeps the contract\<close>

lemma block_addr:
  assumes "k < 2147483648"
  shows "block_of (address_of k) = k" "offset_of (address_of k) = 0"
proof -
  have "k * 4294967296 < 2 ^ 64" using assms by simp
  then have "unat (address_of k) = k * 4294967296"
    unfolding address_of_def by (simp only: unat_of_nat take_bit_nat_eq_self_iff len_bit0 len_num1) simp
  then show "block_of (address_of k) = k" "offset_of (address_of k) = 0"
    by (simp_all only: block_of_def offset_of_def) simp_all
qed

lemma block_inj: "offset_of p = 0 \<Longrightarrow> offset_of q = 0 \<Longrightarrow> block_of p = block_of q \<Longrightarrow> p = q"
  unfolding block_of_def offset_of_def by (metis mult_div_mod_eq word_unat_eq_iff)

lemma block_shift:
  assumes "offset_of p = 0" "j < 4294967296"
  shows "block_of (p + of_nat j) = block_of p" "offset_of (p + of_nat j) = j"
proof -
  obtain k where k: "unat p = 4294967296 * k" using assms(1) by (auto simp: offset_of_def mod_eq_0_iff_dvd)
  then have "k < 4294967296" using unat_lt_u64 [of p] by simp
  then have "unat p + j < 18446744073709551616" using k assms(2) by simp
  moreover have "unat (of_nat j :: u64) = j" using assms(2) by (simp add: unat_of_nat take_bit_nat_eq_self_iff)
  ultimately have "unat (p + of_nat j) = 4294967296 * k + j" using unat_add_u64 [of p "of_nat j"] k by simp
  then show "block_of (p + of_nat j) = block_of p" "offset_of (p + of_nat j) = j"
    using assms(2) k by (simp_all add: block_of_def offset_of_def)
qed

lemma look_put:
  assumes "may_alloc m k xs"
  shows "look m (address_of k) = None" "look (m(k \<mapsto> xs)) = (look m)(address_of k \<mapsto> xs)"
proof -
  have k: "k < 2147483648" "length xs < 1073741824" "m k = None" "0 < k" using assms by (simp_all add: may_alloc_def)
  then have "address_of k \<noteq> 0" using block_addr(1) [OF k(1)] by (auto simp: block_of_def)
  note k = k this
  show "look m (address_of k) = None" using k block_addr [OF k(1)] by (simp add: look_def small_def)
  show "look (m(k \<mapsto> xs)) = (look m)(address_of k \<mapsto> xs)"
  proof
    fix p
    show "look (m(k \<mapsto> xs)) p = ((look m)(address_of k \<mapsto> xs)) p"
      using k block_addr [OF k(1)] block_inj [of p "address_of k"]
      by (cases "p = address_of k") (auto simp: look_def small_def)
  qed
qed

lemma heap_allocs:
  "alloc_f32 heap_view (heap_alloc_f32 xs) (\<lambda>_. Some xs)"
  "alloc_u16 heap_view (heap_alloc_u16 vs) (\<lambda>_ bs. bs = Some vs)"
  by (simp_all add: alloc_f32_def heap_alloc_f32_def alloc_u16_def heap_alloc_u16_def Let_def allocates_def
      heap_view_def look_put)

lemma alloc_u16_mono: "alloc_u16 V m P \<Longrightarrow> (\<And>d bs. P d bs \<Longrightarrow> P' d bs) \<Longrightarrow> alloc_u16 V m P'"
  unfolding alloc_u16_def by (fastforce split: prod.splits)

lemma heap_copies:
  "alloc_f32 heap_view (heap_copy F32 s) (\<lambda>d. f32_at heap_view d (ptr s))"
  "alloc_u16 heap_view (heap_copy U16 s) (\<lambda>d bs. bs = u16_at heap_view d (ptr s))"
proof -
  show "alloc_f32 heap_view (heap_copy F32 s) (\<lambda>d. f32_at heap_view d (ptr s))"
    unfolding alloc_f32_def
  proof
    fix d :: heap
    show "case heap_copy F32 s d of (r, d') \<Rightarrow>
        allocates (f32_at heap_view d) r (f32_at heap_view d') (f32_at heap_view d (ptr s)) \<and>
        u16_at heap_view d' = u16_at heap_view d"
    proof (cases "f32_at heap_view d (ptr s)")
      case (Some xs)
      then show ?thesis using heap_allocs(1) [of xs] unfolding alloc_f32_def by (simp add: heap_copy_def)
    qed (simp add: heap_copy_def allocates_def)
  qed
  show "alloc_u16 heap_view (heap_copy U16 s) (\<lambda>d bs. bs = u16_at heap_view d (ptr s))"
    unfolding alloc_u16_def
  proof
    fix d :: heap
    show "case heap_copy U16 s d of (r, d') \<Rightarrow>
        (\<exists>bs. bs = u16_at heap_view d (ptr s) \<and> allocates (u16_at heap_view d) r (u16_at heap_view d') bs) \<and>
        f32_at heap_view d' = f32_at heap_view d"
    proof (cases "u16_at heap_view d (ptr s)")
      case (Some xs)
      then show ?thesis using heap_allocs(2) [of xs] unfolding alloc_u16_def by (simp add: heap_copy_def)
    qed (simp add: heap_copy_def allocates_def)
  qed
qed

lemma look_Some: "look m p = Some xs \<Longrightarrow> p \<noteq> 0 \<and> offset_of p = 0 \<and> small (m (block_of p)) = Some xs \<and> length xs < 1073741824"
  by (auto simp: look_def small_def split: if_splits option.splits)

lemma heap_write_law: "writes_u16 heap_view (heap_write (HU16 c) (p + of_nat (2 * i))) p i c"
  unfolding writes_u16_def
proof (intro allI impI)
  fix d :: heap and bs assume bs: "u16_at heap_view d p = Some bs" and i: "i + length c \<le> length bs"
  from bs have p: "offset_of p = 0" "small (h_u16 d (block_of p)) = Some bs" "length bs < 1073741824" "p \<noteq> 0"
    using look_Some [of "h_u16 d" p bs] by (simp_all add: heap_view_def)
  have a: "block_of (p + of_nat (2 * i)) = block_of p" "offset_of (p + of_nat (2 * i)) = 2 * i"
    using block_shift [OF p(1), of "2 * i"] i p(3) by simp_all
  let ?new = "take i bs @ c @ drop (i + length c) bs"
  have run: "heap_write (HU16 c) (p + of_nat (2 * i)) d =
      (Inr (), d\<lparr>h_u16 := (h_u16 d)(block_of p \<mapsto> ?new)\<rparr>)"
    unfolding heap_write_def a using p(2) i by (simp add: Let_def)
  have at: "look ((h_u16 d)(block_of p \<mapsto> ?new)) p = Some ?new" using p i by (simp add: look_def small_def)
  have others: "look ((h_u16 d)(block_of p \<mapsto> ?new)) q = look (h_u16 d) q" if "q \<noteq> p" for q
    using block_inj [of q p] p(1) that by (auto simp: look_def)
  show "case heap_write (HU16 c) (p + of_nat (2 * i)) d of (r, d') \<Rightarrow> f32_at heap_view d' = f32_at heap_view d \<and>
      (\<forall>q. q \<noteq> p \<longrightarrow> u16_at heap_view d' q = u16_at heap_view d q) \<and> (r = Inr () \<longrightarrow> u16_at heap_view d' p = Some ?new)"
    unfolding run using at others by (simp add: heap_view_def)
qed

lemma heap_device_memory: "device_memory heap_device heap_view"
proof -
  have read: "only_reads heap_view (cu_dtoh_f32 heap_device (p + of_nat (4 * i)) n) (\<lambda>d vs. \<forall>xs.
        f32_at heap_view d p = Some xs \<longrightarrow> i + unat n \<le> length xs \<longrightarrow> vs = take (unat n) (drop i xs))" for p i n
  proof -
    have "heap_read 0 (small (h_f32 d (block_of (p + of_nat (4 * i))))) (offset_of (p + of_nat (4 * i)) div 4) (unat n) =
        take (unat n) (drop i xs)" if "look (h_f32 d) p = Some xs" "i + unat n \<le> length xs" for d :: heap and xs
      using look_Some [OF that(1)] that(2) block_shift [of p "4 * i"] by (simp add: heap_read_def)
    then show ?thesis by (simp add: only_reads_def heap_device_def heap_view_def)
  qed
  have read16: "only_reads heap_view (cu_dtoh_u16 heap_device p n) (\<lambda>d vs. \<forall>bs.
        u16_at heap_view d p = Some bs \<longrightarrow> length bs = unat n \<longrightarrow> vs = bs)" for p n
  proof -
    have "heap_read 0 (small (h_u16 d (block_of p))) (offset_of p div 2) (unat n) = bs"
      if "look (h_u16 d) p = Some bs" "length bs = unat n" for d :: heap and bs
      using look_Some [OF that(1)] that(2) by (simp add: heap_read_def)
    then show ?thesis by (simp add: only_reads_def heap_device_def heap_view_def)
  qed
  have zeroed: "alloc_u16 heap_view (cu_alloc heap_device U16 n) (\<lambda>_ bs. \<exists>vs. bs = Some vs \<and> length vs = unat n)" for n
    by (rule alloc_u16_mono [where P = "\<lambda>_ bs. bs = Some (replicate (unat n) 0)"])
      (use heap_allocs(2) in \<open>auto simp: heap_device_def\<close>)
  show ?thesis
    unfolding device_memory_def
    using heap_allocs(1) heap_copies heap_write_law read read16 zeroed
    by (simp add: heap_device_def) (simp add: only_reads_def ret_def)
qed

end
