(* ===== verification/Device_Threads.thy ===== *)
theory Device_Threads
  imports Simulated_Memory
begin

text \<open>
  The elementwise device code of \<open>src/kernels.cu\<close>, one thread at a time, and the launch of
  all of them in any order. A thread reads and writes the device's allocations and fails when it
  leaves one. The Device's \<open>f32\<close> operations are parameters; which elements are read, how
  they are combined and where the result goes is the code's.
\<close>

section \<open>Memory\<close>

type_synonym memory = "u64 \<Rightarrow> f32 list option"

definition mem_load :: "memory \<Rightarrow> u64 \<Rightarrow> u64 \<Rightarrow> f32 option" where
  "mem_load h p i = (case h p of
     Some xs \<Rightarrow> (if unat i < length xs then Some (xs ! unat i) else None) | None \<Rightarrow> None)"

definition mem_store :: "memory \<Rightarrow> u64 \<Rightarrow> u64 \<Rightarrow> f32 \<Rightarrow> memory option" where
  "mem_store h p i v = (case h p of
     Some xs \<Rightarrow> (if unat i < length xs then Some (h(p \<mapsto> xs[unat i := v])) else None) | None \<Rightarrow> None)"

section \<open>Threads\<close>

text \<open>The compact allocations, which no thread here writes.\<close>

type_synonym halves = "u64 \<Rightarrow> u16 list option"

definition half_load :: "halves \<Rightarrow> u64 \<Rightarrow> u64 \<Rightarrow> u16 option" where
  "half_load g p i = (case g p of
     Some xs \<Rightarrow> (if unat i < length xs then Some (xs ! unat i) else None) | None \<Rightarrow> None)"

text \<open>
  The Device's arithmetic. Negation flips the sign bit. \<open>f_mac\<close> is \<open>acc += x * y\<close>,
  \<open>f_mul_sub\<close> is \<open>a * c - b * s\<close> and \<open>f_mul_add\<close> is \<open>a * s + b * c\<close>, which the compiler may contract.
\<close>

record device_float =
  f_add :: "f32 \<Rightarrow> f32 \<Rightarrow> f32"
  f_mul :: "f32 \<Rightarrow> f32 \<Rightarrow> f32"
  f_div :: "f32 \<Rightarrow> f32 \<Rightarrow> f32"
  f_exp :: "f32 \<Rightarrow> f32"
  f_mac :: "f32 \<Rightarrow> f32 \<Rightarrow> f32 \<Rightarrow> f32"
  f_sub :: "f32 \<Rightarrow> f32 \<Rightarrow> f32"
  f_less :: "f32 \<Rightarrow> f32 \<Rightarrow> bool"
  f_of_u64 :: "u64 \<Rightarrow> f32"
  f_pow :: "f32 \<Rightarrow> f32 \<Rightarrow> f32"
  f_sin :: "f32 \<Rightarrow> f32"
  f_cos :: "f32 \<Rightarrow> f32"
  f_mul_sub :: "f32 \<Rightarrow> f32 \<Rightarrow> f32 \<Rightarrow> f32 \<Rightarrow> f32"
  f_mul_add :: "f32 \<Rightarrow> f32 \<Rightarrow> f32 \<Rightarrow> f32 \<Rightarrow> f32"

definition f_neg :: "f32 \<Rightarrow> f32" where
  "f_neg v = v XOR 0x80000000"

definition ONE :: f32 where "ONE = 0x3F800000"

text \<open>\<open>v * (1.0f / (1.0f + expf(-v)))\<close>.\<close>

definition f_silu :: "device_float \<Rightarrow> f32 \<Rightarrow> f32" where
  "f_silu F v = f_mul F v (f_div F ONE (f_add F ONE (f_exp F (f_neg v))))"

type_synonym thread = "u64 \<Rightarrow> memory \<Rightarrow> memory option"

definition add_kernel :: "device_float \<Rightarrow> u64 \<Rightarrow> u64 \<Rightarrow> u64 \<Rightarrow> u64 \<Rightarrow> thread" where
  "add_kernel F a b out n i h =
     (if i < n then Option.bind (mem_load h a i) (\<lambda>x. Option.bind (mem_load h b i) (\<lambda>y.
        mem_store h out i (f_add F x y))) else Some h)"

definition mul_kernel :: "device_float \<Rightarrow> u64 \<Rightarrow> u64 \<Rightarrow> u64 \<Rightarrow> u64 \<Rightarrow> thread" where
  "mul_kernel F a b out n i h =
     (if i < n then Option.bind (mem_load h a i) (\<lambda>x. Option.bind (mem_load h b i) (\<lambda>y.
        mem_store h out i (f_mul F x y))) else Some h)"

definition silu_mul_kernel :: "device_float \<Rightarrow> u64 \<Rightarrow> u64 \<Rightarrow> u64 \<Rightarrow> u64 \<Rightarrow> thread" where
  "silu_mul_kernel F gate up out n i h =
     (if i < n then Option.bind (mem_load h gate i) (\<lambda>v. let activated = f_silu F v in
        Option.bind (mem_load h up i) (\<lambda>y. mem_store h out i (f_mul F activated y))) else Some h)"

definition silu_kernel :: "device_float \<Rightarrow> u64 \<Rightarrow> u64 \<Rightarrow> u64 \<Rightarrow> thread" where
  "silu_kernel F x out n i h =
     (if i < n then Option.bind (mem_load h x i) (\<lambda>v. mem_store h out i (f_silu F v)) else Some h)"

definition bias_add_kernel :: "device_float \<Rightarrow> u64 \<Rightarrow> u64 \<Rightarrow> u64 \<Rightarrow> u64 \<Rightarrow> u64 \<Rightarrow> thread" where
  "bias_add_kernel F a bias out cols n i h =
     (if i < n then Option.bind (mem_load h a i) (\<lambda>x. Option.bind (mem_load h bias (i mod cols)) (\<lambda>y.
        mem_store h out i (f_add F x y))) else Some h)"

text \<open>Outside a capture \<open>step_offset\<close> is null.\<close>

definition kv_write_kernel :: "u64 \<Rightarrow> u64 \<Rightarrow> u64 \<Rightarrow> u64 \<Rightarrow> u64 \<Rightarrow> thread" where
  "kv_write_kernel rows kv n width row_offset i h =
     (if i \<ge> n then Some h
      else Option.bind (mem_load h rows i) (mem_store h kv (row_offset * width + i)))"

text \<open>One element of a product: the row's start and the column's, the steps along both, and the loop.\<close>

definition weight_load :: "memory \<Rightarrow> halves \<Rightarrow> u64 \<Rightarrow> u64 \<Rightarrow> u64 \<Rightarrow> f32 option" where
  "weight_load h g b b16 i = (if b16 \<noteq> 0 then map_option bf16_to_f32 (half_load g b16 i) else mem_load h b i)"

definition matmul_sum ::
  "device_float \<Rightarrow> (u64 \<Rightarrow> f32 option) \<Rightarrow> (u64 \<Rightarrow> f32 option) \<Rightarrow> u64 \<Rightarrow> f32 option" where
  "matmul_sum F a_value b_value k = foldl (\<lambda>r inner. Option.bind r (\<lambda>acc.
     Option.bind (a_value (of_nat inner)) (\<lambda>x. Option.bind (b_value (of_nat inner)) (\<lambda>y. Some (f_mac F acc x y)))))
     (Some 0) [0..<unat k]"

definition matmul_kernel ::
  "device_float \<Rightarrow> halves \<Rightarrow> u64 \<Rightarrow> u64 \<Rightarrow> u64 \<Rightarrow> u64 \<Rightarrow> u64 \<Rightarrow> u64 \<Rightarrow> u64 \<Rightarrow> u64 \<Rightarrow> u64 \<Rightarrow> u64 \<Rightarrow> u64 \<Rightarrow> thread" where
  "matmul_kernel F g a b out m k n ars ais bis bcs b16 idx h =
     (let total = m * n in
      if idx \<ge> total then Some h
      else
        (let row = idx div n; col = idx mod n in
         Option.bind
           (matmul_sum F (\<lambda>inner. mem_load h a (row * ars + inner * ais))
             (\<lambda>inner. weight_load h g b b16 (inner * bis + col * bcs)) k)
           (mem_store h out (row * n + col))))"

text \<open>
  The angle of pair \<open>pair\<close> at a position, with the banded scaling of the frequency (a factor that
  is not positive leaves it), and the two elements of the pair turned by it. Outside a capture
  \<open>step_offset\<close> is null.
\<close>

definition TWO_PI :: f32 where "TWO_PI = 0x40C90FDB"

definition MINUS_TWO :: f32 where "MINUS_TWO = 0xC0000000"

definition banded_frequency :: "device_float \<Rightarrow> f32 \<Rightarrow> f32 \<Rightarrow> f32 \<Rightarrow> f32 \<Rightarrow> f32 \<Rightarrow> f32" where
  "banded_frequency F banded_factor low high context frequency =
     (if f_less F 0 banded_factor
      then
        (let wavelength = f_div F TWO_PI frequency in
         if f_less F wavelength (f_div F context high) then frequency
         else if f_less F (f_div F context low) wavelength then f_div F frequency banded_factor
         else
           (let smooth = f_div F (f_sub F (f_div F context wavelength) low) (f_sub F high low) in
            f_mac F (f_div F (f_mul F (f_sub F ONE smooth) frequency) banded_factor) smooth frequency))
      else frequency)"

definition rope_angle :: "device_float \<Rightarrow> f32 \<Rightarrow> f32 \<Rightarrow> u64 \<Rightarrow> f32 \<times> f32 \<times> f32 \<times> f32 \<Rightarrow> u64 \<Rightarrow> u64 \<Rightarrow> f32" where
  "rope_angle F base scale dimension = (\<lambda>(banded_factor, low, high, context) place pair.
     (let position = f_mul F (f_of_u64 F place) scale;
          frequency = f_pow F base (f_div F (f_mul F MINUS_TWO (f_of_u64 F pair)) (f_of_u64 F dimension))
      in f_mul F position (banded_frequency F banded_factor low high context frequency)))"

definition rope_kernel ::
  "device_float \<Rightarrow> u64 \<Rightarrow> u64 \<Rightarrow> u64 \<Rightarrow> u64 \<Rightarrow> u64 \<Rightarrow> f32 \<Rightarrow> f32 \<Rightarrow> u64 \<Rightarrow> u64 \<Rightarrow> u64 \<Rightarrow> u32 \<Rightarrow>
   f32 \<times> f32 \<times> f32 \<times> f32 \<Rightarrow> thread" where
  "rope_kernel F input out rows cols half base scale dimension position_offset n_heads half_split bands idx h =
     (let per_row = n_heads * half; total = rows * per_row in
      if idx \<ge> total then Some h
      else
        (let head_width = cols div n_heads; row = idx div per_row; remainder = idx mod per_row;
             head = remainder div half; pair = remainder mod half;
             angle = rope_angle F base scale dimension bands (position_offset + row) pair;
             s = f_sin F angle; c = f_cos F angle;
             col_base = row * cols + head * head_width;
             first = (if half_split \<noteq> 0 then col_base + pair else col_base + 2 * pair);
             second = (if half_split \<noteq> 0 then col_base + pair + half else col_base + 2 * pair + 1)
         in
         Option.bind (mem_load h input first) (\<lambda>a. Option.bind (mem_load h input second) (\<lambda>b.
         Option.bind (mem_store h out first (f_mul_sub F a c b s)) (\<lambda>h.
           mem_store h out second (f_mul_add F a s b c))))))"

definition rope_thread :: "device_float \<Rightarrow> karg list \<Rightarrow> thread option" where
  "rope_thread F args = (case args of
     [APtr input, APtr out, AU64 rows, AU64 cols, AU64 half, AF32 base, AF32 scale, AU64 dimension,
      AU64 position_offset, AU64 n_heads, AU32 half_split, APtr step, AF32 banded_factor, AF32 low, AF32 high,
      AF32 context] \<Rightarrow>
       (if step = 0
        then Some (rope_kernel F input out rows cols half base scale dimension position_offset n_heads half_split
               (banded_factor, low, high, context))
        else None)
   | _ \<Rightarrow> None)"

text \<open>The thread function of a launch, for the functions modelled here.\<close>

definition device_thread :: "device_float \<Rightarrow> halves \<Rightarrow> string \<Rightarrow> karg list \<Rightarrow> thread option" where
  "device_thread F g name args = (if name = ''rope_kernel'' then rope_thread F args else case args of
     [APtr x, APtr out, AU64 n] \<Rightarrow> (if name = ''silu_kernel'' then Some (silu_kernel F x out n) else None)
   | [APtr a, APtr b, APtr out, AU64 n] \<Rightarrow>
       (if name = ''add_kernel'' then Some (add_kernel F a b out n)
        else if name = ''mul_kernel'' then Some (mul_kernel F a b out n)
        else if name = ''silu_mul_kernel'' then Some (silu_mul_kernel F a b out n) else None)
   | [APtr a, APtr b, APtr out, AU64 cols, AU64 n] \<Rightarrow>
       (if name = ''bias_add_kernel'' then Some (bias_add_kernel F a b out cols n) else None)
   | [APtr rows, APtr kv, AU64 n, AU64 width, AU64 row_offset, APtr step] \<Rightarrow>
       (if name = ''kv_write_kernel'' \<and> step = 0 then Some (kv_write_kernel rows kv n width row_offset) else None)
   | [APtr a, APtr b, APtr out, AU64 m, AU64 k, AU64 n, AU64 ars, AU64 ais, AU64 bis, AU64 bcs, APtr b16] \<Rightarrow>
       (if name = ''matmul_kernel'' then Some (matmul_kernel F g a b out m k n ars ais bis bcs b16) else None)
   | _ \<Rightarrow> None)"

section \<open>Launches\<close>

text \<open>\<open>blockIdx.x * blockDim.x + threadIdx.x\<close>.\<close>

definition thread_index :: "launch_config \<Rightarrow> nat \<times> nat \<Rightarrow> u64" where
  "thread_index cfg = (\<lambda>(block, thread). of_nat block * ucast (fst (block_dim cfg)) + of_nat thread)"

definition run_threads :: "thread \<Rightarrow> u64 list \<Rightarrow> memory \<Rightarrow> memory option" where
  "run_threads f order h = foldl (\<lambda>r i. Option.bind r (f i)) (Some h) order"

text \<open>An order in which the threads of a one-dimensional launch may run.\<close>

definition schedule :: "launch_config \<Rightarrow> (nat \<times> nat) list \<Rightarrow> bool" where
  "schedule cfg order \<longleftrightarrow> snd (grid_dim cfg) = (1, 1) \<and> snd (block_dim cfg) = (1, 1) \<and> distinct order \<and>
     set order = {..<unat (fst (grid_dim cfg))} \<times> {..<unat (fst (block_dim cfg))}"

text \<open>Every thread index below the size of the launch occurs.\<close>

lemma schedule_covers:
  assumes "schedule cfg order" "unat i < unat (fst (grid_dim cfg)) * unat (fst (block_dim cfg))"
  shows "i \<in> set (map (thread_index cfg) order)"
proof -
  let ?b = "unat (fst (block_dim cfg))" and ?g = "unat (fst (grid_dim cfg))"
  have b: "0 < ?b" using assms(2) by (metis gr_zeroI mult_0_right not_less0)
  have "(unat i div ?b, unat i mod ?b) \<in> set order"
    using assms b by (simp add: schedule_def less_mult_imp_div_less)
  moreover have "of_nat ?b = (ucast (fst (block_dim cfg)) :: u64)" by (metis of_nat_unat ucast_eq unat_eq_nat_uint)
  then have "thread_index cfg (unat i div ?b, unat i mod ?b) = of_nat (unat i div ?b * ?b + unat i mod ?b)"
    unfolding thread_index_def prod.case of_nat_add of_nat_mult by (simp only:)
  then have "thread_index cfg (unat i div ?b, unat i mod ?b) = i" by (simp only: div_mult_mod_eq of_nat_unat ucast_id)
  ultimately show ?thesis by (metis image_eqI set_map)
qed

text \<open>
  Threads that each store one value, at its own place of \<open>out\<close>, made of what they do not change:
  in any order they store all of the values.
\<close>

definition pointwise :: "u64 \<Rightarrow> u64 \<Rightarrow> (u64 \<Rightarrow> u64) \<Rightarrow> (u64 \<Rightarrow> f32) \<Rightarrow> memory \<Rightarrow> thread \<Rightarrow> bool" where
  "pointwise n out place val h f \<longleftrightarrow> (\<forall>i ys. f i (h(out \<mapsto> ys)) =
     (if i < n then mem_store (h(out \<mapsto> ys)) out (place i) (val i) else Some (h(out \<mapsto> ys))))"

lemma run_threads_Cons: "run_threads f (i # order) h = Option.bind (f i h) (run_threads f order)"
proof -
  have "foldl (\<lambda>r i. Option.bind r (f i)) None order = None" by (induction order) simp_all
  then show ?thesis by (cases "f i h") (simp_all add: run_threads_def)
qed

text \<open>\<open>ys\<close> is \<open>xs\<close> with the values of the threads \<open>ids\<close> in their places.\<close>

definition filled :: "u64 \<Rightarrow> (u64 \<Rightarrow> u64) \<Rightarrow> (u64 \<Rightarrow> f32) \<Rightarrow> u64 set \<Rightarrow> f32 list \<Rightarrow> f32 list \<Rightarrow> bool" where
  "filled n place val ids xs ys \<longleftrightarrow> length ys = length xs \<and>
     (\<forall>i < n. i \<in> ids \<or> xs ! unat (place i) = val i \<longrightarrow> ys ! unat (place i) = val i) \<and>
     (\<forall>j. (\<forall>i < n. unat (place i) \<noteq> j) \<longrightarrow> ys ! j = xs ! j)"

lemma filled_update:
  assumes "filled n place val ids (xs[unat (place i) := val i]) ys" "i < n" "unat (place i) < length xs"
    and inj: "\<And>j. j < n \<Longrightarrow> place j = place i \<Longrightarrow> val j = val i"
  shows "filled n place val (insert i ids) xs ys"
proof -
  have "xs[unat (place i) := val i] ! unat (place j) = val j"
    if "j = i \<or> xs ! unat (place j) = val j" "j < n" for j
    using that assms(3) inj [OF that(2)] by (cases "unat (place j) = unat (place i)") (auto simp: word_unat_eq_iff [of "place j" "place i"])
  moreover have "xs[unat (place i) := val i] ! j = xs ! j" if "\<forall>i < n. unat (place i) \<noteq> j" for j
    using that assms(2) by (metis nth_list_update_neq)
  ultimately show ?thesis using assms(1) unfolding filled_def by (metis insert_iff length_list_update)
qed

lemma run_pointwise:
  assumes f: "pointwise n out place val h f" and xs: "\<forall>i < n. unat (place i) < length xs"
    and inj: "\<And>i j. i < n \<Longrightarrow> j < n \<Longrightarrow> place i = place j \<Longrightarrow> val i = val j"
  shows "\<exists>ys. run_threads f order (h(out \<mapsto> xs)) = Some (h(out \<mapsto> ys)) \<and> filled n place val (set order) xs ys"
  using xs
proof (induction order arbitrary: xs)
  case Nil
  then show ?case by (auto simp: run_threads_def filled_def)
next
  case (Cons i order)
  note step = f [unfolded pointwise_def, rule_format, of i xs]
  show ?case
  proof (cases "i < n")
    case False
    then have "run_threads f (i # order) (h(out \<mapsto> xs)) = run_threads f order (h(out \<mapsto> xs))"
      unfolding run_threads_Cons step by simp
    moreover have "filled n place val (set order) xs ys \<Longrightarrow> filled n place val (set (i # order)) xs ys" for ys
      using False by (auto simp: filled_def)
    moreover obtain ys where "run_threads f order (h(out \<mapsto> xs)) = Some (h(out \<mapsto> ys))"
      "filled n place val (set order) xs ys"
      using Cons.IH [OF Cons.prems] by (elim exE conjE)
    ultimately show ?thesis by (intro exI [of _ ys] conjI) (simp_all only:)
  next
    case True
    let ?xs = "xs[unat (place i) := val i]"
    have "run_threads f (i # order) (h(out \<mapsto> xs)) = run_threads f order (h(out \<mapsto> ?xs))"
      unfolding run_threads_Cons step using True Cons.prems by (simp add: mem_store_def)
    moreover have len: "\<forall>i < n. unat (place i) < length ?xs" using Cons.prems by simp
    moreover have "filled n place val (set order) ?xs ys \<Longrightarrow> filled n place val (set (i # order)) xs ys" for ys
      unfolding list.set by (erule filled_update [OF _ True]) (use Cons.prems True inj in blast)+
    moreover obtain ys where "run_threads f order (h(out \<mapsto> ?xs)) = Some (h(out \<mapsto> ys))"
      "filled n place val (set order) ?xs ys"
      using Cons.IH [OF len] by (elim exE conjE)
    ultimately show ?thesis by (intro exI [of _ ys] conjI) (simp_all only:)
  qed
qed

end
