(* ===== verification/Kernel_Results.thy ===== *)
theory Kernel_Results
  imports Device_Threads
begin

text \<open>
  What the elementwise Kernels of \<open>CudaKernels\<close> compute: with a device that runs its launches
  thread by thread, each leaves the tensor its Operator means in the buffer it returns, taken from
  the offer or freshly allocated, and spares every other allocation.
\<close>

section \<open>What is relied on\<close>

text \<open>
  \<open>X\<close> holds of the states in which the stream executes, that is, no capture records it.
  None of these calls begins a capture.
\<close>

definition stays :: "('d \<Rightarrow> bool) \<Rightarrow> ('d, cu_result, 'a) exec \<Rightarrow> bool" where
  "stays X m \<longleftrightarrow> (\<forall>d. X d \<longrightarrow> X (snd (m d)))"

definition alloc_any :: "'d view \<Rightarrow> ('d, cu_result, u64) exec \<Rightarrow> nat \<Rightarrow> bool" where
  "alloc_any V m n \<longleftrightarrow> (\<forall>d. case m d of (r, d') \<Rightarrow> u16_at V d' = u16_at V d \<and>
     (\<exists>xs. length xs = n \<and> allocates (f32_at V d) r (f32_at V d') (Some xs)))"

text \<open>A copy of the whole slice \<open>s\<close> into another allocation, from its element \<open>i\<close> on.\<close>

definition copies :: "'d view \<Rightarrow> ('d \<Rightarrow> bool) \<Rightarrow> ('d, cu_result, unit) exec \<Rightarrow> cuda_slice \<Rightarrow> u64 \<Rightarrow> nat \<Rightarrow> bool" where
  "copies V X m s q i \<longleftrightarrow> (\<forall>d xs ys. X d \<longrightarrow> q \<noteq> ptr s \<longrightarrow>
     f32_at V d (ptr s) = Some xs \<longrightarrow> length xs = unat (slen s) \<longrightarrow>
     f32_at V d q = Some ys \<longrightarrow> i + length xs \<le> length ys \<longrightarrow>
     (case m d of (r, d') \<Rightarrow> u16_at V d' = u16_at V d \<and> (\<forall>p. p \<noteq> q \<longrightarrow> f32_at V d' p = f32_at V d p) \<and>
        (r = Inr () \<longrightarrow> f32_at V d' q = Some (take i ys @ xs @ drop (i + length xs) ys))))"

text \<open>
  A launch that is refused does nothing; an accepted one runs its threads in some order, which
  says what it leaves when no thread leaves its allocations.
\<close>

definition launches :: "'d view \<Rightarrow> ('d \<Rightarrow> bool) \<Rightarrow> device_float \<Rightarrow> ('d, cu_result, unit) exec \<Rightarrow> launch \<Rightarrow> bool" where
  "launches V X F m L \<longleftrightarrow> (\<forall>f d. device_thread F (u16_at V d) (function_name L) (kargs L) = Some f \<longrightarrow>
     snd (grid_dim (config L)) = (1, 1) \<longrightarrow> snd (block_dim (config L)) = (1, 1) \<longrightarrow> X d \<longrightarrow>
     (case m d of (r, d') \<Rightarrow> u16_at V d' = u16_at V d \<and>
        (case r of Inl _ \<Rightarrow> f32_at V d' = f32_at V d
         | Inr _ \<Rightarrow> \<exists>order. schedule (config L) order \<and>
             (\<forall>h. run_threads f (map (thread_index (config L)) order) (f32_at V d) = Some h \<longrightarrow> f32_at V d' = h))))"

definition covers :: "launch_config \<Rightarrow> u32 \<Rightarrow> bool" where
  "covers cfg n \<longleftrightarrow> snd (grid_dim cfg) = (1, 1) \<and> snd (block_dim cfg) = (1, 1) \<and>
     unat n \<le> unat (fst (grid_dim cfg)) * unat (fst (block_dim cfg))"

definition device_computes :: "'d external \<Rightarrow> 'd view \<Rightarrow> ('d \<Rightarrow> bool) \<Rightarrow> device_float \<Rightarrow> bool" where
  "device_computes D V X F \<longleftrightarrow> (\<forall>d. X d \<longrightarrow> u16_at V d 0 = None) \<and>
     (\<forall>n. alloc_any V (cu_alloc D F32 n) (unat n)) \<and>
     (\<forall>name. only_reads V (cu_load_function D name) (\<lambda>_ _. True)) \<and>
     (\<forall>s q i. copies V X (cu_memcpy_dtod D s (q + of_nat (4 * i))) s q i) \<and>
     (\<forall>L. launches V X F (cu_launch D L) L) \<and>
     (\<forall>n. covers (for_num_elems D n) n) \<and>
     (\<forall>ty n. stays X (cu_alloc D ty n)) \<and> (\<forall>name. stays X (cu_load_function D name)) \<and>
     (\<forall>s q. stays X (cu_memcpy_dtod D s q)) \<and> (\<forall>L. stays X (cu_launch D L)) \<and>
     (\<forall>vs. stays X (cu_clone_htod D vs)) \<and> (\<forall>ty s. stays X (cu_clone_dtod D ty s)) \<and>
     (\<forall>p n. stays X (cu_dtoh_f32 D p n)) \<and> (\<forall>p n. stays X (cu_dtoh_u16 D p n)) \<and> stays X (cu_synchronize D) \<and>
     (\<forall>ty n. stays X (cu_alloc_zeros D ty n)) \<and> (\<forall>v p. stays X (cu_memcpy_htod D v p))"

lemma compute_laws:
  assumes "device_computes D V X F"
  shows "alloc_any V (cu_alloc D F32 n) (unat n)"
    "only_reads V (cu_load_function D name) (\<lambda>_ _. True)"
    "copies V X (cu_memcpy_dtod D s (q + of_nat (4 * i))) s q i"
    "launches V X F (cu_launch D L) L" "covers (for_num_elems D m) m"
  using assms unfolding device_computes_def by simp_all

lemma stays_laws:
  assumes "device_computes D V X F"
  shows "stays X (cu_alloc D ty n)" "stays X (cu_load_function D name)" "stays X (cu_memcpy_dtod D s q)"
    "stays X (cu_launch D L)" "stays X (cu_clone_htod D vs)" "stays X (cu_clone_dtod D ty s)"
    "stays X (cu_dtoh_f32 D p n)" "stays X (cu_dtoh_u16 D p n)" "stays X (cu_synchronize D)"
    "stays X (cu_alloc_zeros D ty n)" "stays X (cu_memcpy_htod D v p)"
  using assms unfolding device_computes_def by simp_all

section \<open>Outputs and launches\<close>

text \<open>The address of the offered output, which is backed by an allocation of its length.\<close>

definition offers :: "'d kernels \<Rightarrow> u64 set" where
  "offers k = (case offered_output k of None \<Rightarrow> {} | Some s \<Rightarrow> {ptr s})"

definition offer_backed :: "'d view \<Rightarrow> 'd kernels \<Rightarrow> bool" where
  "offer_backed V k \<longleftrightarrow> (\<forall>s. offered_output k = Some s \<longrightarrow>
     (\<exists>xs. f32_at V (device k) (ptr s) = Some xs \<and> length xs = unat (slen s)))"

text \<open>Every allocation outside \<open>P\<close> keeps its values.\<close>

definition spared :: "'d view \<Rightarrow> u64 set \<Rightarrow> 'd \<Rightarrow> 'd \<Rightarrow> bool" where
  "spared V P d d' \<longleftrightarrow> u16_at V d \<subseteq>\<^sub>m u16_at V d' \<and>
     (\<forall>p xs. p \<notin> P \<longrightarrow> f32_at V d p = Some xs \<longrightarrow> f32_at V d' p = Some xs)"

lemma spared_intact: "intact V d d' \<Longrightarrow> spared V P d d'"
  by (auto simp: spared_def intact_def map_le_def) (metis domI)

lemma spared_none: "spared V {} d d' \<longleftrightarrow> intact V d d'"
  by (auto simp: spared_def intact_def map_le_def) (metis domI)

lemma pre_stays:
  assumes "pre m Q E d" "stays X m" "X d"
  shows "pre m (\<lambda>x d'. X d' \<and> Q x d') (\<lambda>e d'. X d' \<and> E e d') d"
  using assms by (auto simp: pre_def stays_def split: prod.splits sum.splits)

lemma pre_alloc_any:
  assumes "alloc_any V m n"
    and Q: "\<And>p d' xs. f32_at V d p = None \<Longrightarrow> length xs = n \<Longrightarrow> f32_at V d' p = Some xs \<Longrightarrow> intact V d d' \<Longrightarrow> Q p d'"
    and E: "\<And>e d'. intact V d d' \<Longrightarrow> E e d'"
  shows "pre m Q E d"
proof -
  obtain r d' where m: "m d = (r, d')" by fastforce
  then obtain xs where R: "length xs = n" "allocates (f32_at V d) r (f32_at V d') (Some xs)" "u16_at V d' = u16_at V d"
    using assms(1) [unfolded alloc_any_def, rule_format, of d] by auto
  then have "intact V d d'" by (auto simp: intact_def dest: allocates_le)
  then show ?thesis using R Q E by (cases r) (auto simp: pre_def m allocates_def)
qed

lemma pre_alloc_output:
  assumes C: "device_computes D V X F" and x: "X (device k)" and o: "offer_backed V k"
    and Q: "\<And>s k' xs. slen s = n \<Longrightarrow> f32_at V (device k') (ptr s) = Some xs \<Longrightarrow> length xs = unat n \<Longrightarrow>
        intact V (device k) (device k') \<Longrightarrow> X (device k') \<Longrightarrow>
        ptr s \<in> offers k \<and> offered_output k' = None \<or> f32_at V (device k) (ptr s) = None \<Longrightarrow> Q s k'"
    and E: "\<And>e k'. intact V (device k) (device k') \<Longrightarrow> X (device k') \<Longrightarrow> E e k'"
  shows "pre (alloc_output D n) Q E k"
proof -
  have fresh: "pre (andthen (forbid_in_capture ''a device allocation'') (\<lambda>_. alloc D F32 n)) Q E k"
    unfolding pre_andthen
  proof (rule pre_forbid)
    have "pre (cu_alloc D F32 n)
        (\<lambda>p d. f32_at V (device k) p = None \<and> intact V (device k) d \<and> (\<exists>xs. f32_at V d p = Some xs \<and> length xs = unat n))
        (\<lambda>_ d. intact V (device k) d) (device k)"
      by (rule pre_alloc_any [OF compute_laws(1) [OF C]]) auto
    from pre_stays [OF this stays_laws(1) [OF C] x] show "pre (alloc D F32 n) Q E k"
      unfolding alloc_def pre_andthen pre_drv pre_ret by (rule pre_mono) (use Q E in auto)
  qed (use E x in simp)
  show ?thesis
  proof (cases "offered_output k")
    case None
    then show ?thesis using fresh by (simp add: alloc_output_def wp)
  next
    case (Some s)
    obtain xs where "f32_at V (device k) (ptr s) = Some xs" "length xs = unat (slen s)"
      using o Some by (auto simp: offer_backed_def)
    then have "Q s (drop_offer k)" if "slen s = n"
      using Q [of s "drop_offer k" xs] that x Some by (simp add: offers_def drop_offer_def)
    then show ?thesis using fresh Some by (simp add: alloc_output_def wp)
  qed
qed

lemma pre_load_function:
  assumes C: "device_computes D V X F" and x: "X (device k)"
    and Q: "\<And>k'. f32_at V (device k') = f32_at V (device k) \<Longrightarrow> u16_at V (device k') = u16_at V (device k) \<Longrightarrow>
        X (device k') \<Longrightarrow> offered_output k' = offered_output k \<Longrightarrow> Q () k'"
    and E: "\<And>e k'. f32_at V (device k') = f32_at V (device k) \<Longrightarrow> u16_at V (device k') = u16_at V (device k) \<Longrightarrow>
        X (device k') \<Longrightarrow> offered_output k' = offered_output k \<Longrightarrow> E e k'"
  shows "pre (load_function D name) Q E k"
proof -
  obtain r d' where m: "cu_load_function D name (device k) = (r, d')" by fastforce
  have "f32_at V d' = f32_at V (device k)" "u16_at V d' = u16_at V (device k)"
    using compute_laws(2) [OF C, of name, unfolded only_reads_def, rule_format, of "device k"] m by simp_all
  moreover have "X d'" using stays_laws(2) [OF C, of name] x m by (metis stays_def snd_conv)
  ultimately have "pre (cu_load_function D name) (\<lambda>x d. Q () (k\<lparr>device := d, loaded_functions := insert name (loaded_functions k)\<rparr>))
      (\<lambda>e d. E (from_driver_error (cu_text D) e) (k\<lparr>device := d\<rparr>)) (device k)"
    using Q E m by (cases r) (simp_all add: pre_def)
  then show ?thesis using Q [of k] x by (simp add: load_function_def wp)
qed

lemma pre_launch_threads:
  fixes k :: "'d kernels"
  assumes C: "device_computes D V X F" and x: "X (device k)" and n: "unat n < 2 ^ 32"
    and f: "device_thread F (u16_at V (device k)) name args = Some f"
    and runs: "\<And>order. (\<And>i. i < n \<Longrightarrow> i \<in> set order) \<Longrightarrow>
        \<exists>ys. run_threads f order (f32_at V (device k)) = Some ((f32_at V (device k))(out \<mapsto> ys)) \<and> P ys"
    and Q: "\<And>ys k'. X (device k') \<Longrightarrow> u16_at V (device k') = u16_at V (device k) \<Longrightarrow>
        f32_at V (device k') = (f32_at V (device k))(out \<mapsto> ys) \<Longrightarrow> offered_output k' = offered_output k \<Longrightarrow>
        P ys \<Longrightarrow> Q () k'"
    and E: "\<And>e k'. X (device k') \<Longrightarrow> u16_at V (device k') = u16_at V (device k) \<Longrightarrow>
        f32_at V (device k') = f32_at V (device k) \<Longrightarrow> offered_output k' = offered_output k \<Longrightarrow> E e k'"
  shows "pre (launch_elems D name args n) Q E k"
  unfolding launch_elems_def pre_andthen
proof (rule pre_load_function [OF C x])
  fix k' :: "'d kernels"
  assume same: "f32_at V (device k') = f32_at V (device k)" "u16_at V (device k') = u16_at V (device k)"
    "X (device k')" "offered_output k' = offered_output k"
  define cfg where "cfg = for_num_elems D (as_u32 n)"
  define L where "L = \<lparr>function_name = name, kargs = args, config = cfg\<rparr>"
  have cov: "covers cfg (as_u32 n)" using compute_laws(5) [OF C] by (simp add: cfg_def)
  obtain r d' where m: "cu_launch D L (device k') = (r, d')" by fastforce
  have law: "u16_at V d' = u16_at V (device k) \<and>
        (case r of Inl _ \<Rightarrow> f32_at V d' = f32_at V (device k)
         | Inr _ \<Rightarrow> \<exists>order. schedule cfg order \<and>
             (\<forall>h. run_threads f (map (thread_index cfg) order) (f32_at V (device k)) = Some h \<longrightarrow> f32_at V d' = h))"
    using compute_laws(4) [OF C, of L, unfolded launches_def, rule_format, of "device k'" f] f cov same m
    by (simp add: L_def covers_def split: sum.splits)
  have X: "X d'" using stays_laws(4) [OF C, of L] same(3) m by (metis stays_def snd_conv)
  have "pre (cu_launch D L) (\<lambda>u d. Q () (k'\<lparr>device := d\<rparr>))
      (\<lambda>e d. E (from_driver_error (cu_text D) e) (k'\<lparr>device := d\<rparr>)) (device k')"
  proof (cases r)
    case (Inl e)
    then show ?thesis using law X same m E by (simp add: pre_def)
  next
    case (Inr u)
    then obtain order where order: "schedule cfg order"
      and h: "\<And>h. run_threads f (map (thread_index cfg) order) (f32_at V (device k)) = Some h \<Longrightarrow> f32_at V d' = h"
      using law by auto
    have "i \<in> set (map (thread_index cfg) order)" if "i < n" for i
    proof (rule schedule_covers [OF order])
      have "unat (as_u32 n) = unat n" using n by (simp add: unat_as_u32)
      then show "unat i < unat (fst (grid_dim cfg)) * unat (fst (block_dim cfg))"
        using cov that by (simp add: covers_def word_less_nat_alt)
    qed
    then obtain ys where ys: "run_threads f (map (thread_index cfg) order) (f32_at V (device k)) =
        Some ((f32_at V (device k))(out \<mapsto> ys))" "P ys"
      using runs by blast
    have "f32_at V d' = (f32_at V (device k))(out \<mapsto> ys)" by (rule h) (rule ys(1))
    then show ?thesis using Inr law X same m Q [of "k'\<lparr>device := d'\<rparr>" ys] ys(2) by (simp add: pre_def)
  qed
  then show "pre (launch_kernel D name args (for_num_elems D (as_u32 n))) Q E k'"
    by (simp add: launch_kernel_def pre_drv L_def cfg_def)
qed (use E in blast)

lemma pre_launch_pointwise:
  fixes k :: "'d kernels"
  assumes C: "device_computes D V X F" and x: "X (device k)" and n: "unat n < 2 ^ 32"
    and f: "device_thread F (u16_at V (device k)) name args = Some f" "pointwise n out place val (f32_at V (device k)) f"
    and xs: "f32_at V (device k) out = Some xs" "\<forall>i < n. unat (place i) < length xs"
    and inj: "\<And>i j. i < n \<Longrightarrow> j < n \<Longrightarrow> place i = place j \<Longrightarrow> val i = val j"
    and Q: "\<And>ys k'. X (device k') \<Longrightarrow> u16_at V (device k') = u16_at V (device k) \<Longrightarrow>
        f32_at V (device k') = (f32_at V (device k))(out \<mapsto> ys) \<Longrightarrow> offered_output k' = offered_output k \<Longrightarrow>
        filled n place val UNIV xs ys \<Longrightarrow> Q () k'"
    and E: "\<And>e k'. X (device k') \<Longrightarrow> u16_at V (device k') = u16_at V (device k) \<Longrightarrow>
        f32_at V (device k') = f32_at V (device k) \<Longrightarrow> offered_output k' = offered_output k \<Longrightarrow> E e k'"
  shows "pre (launch_elems D name args n) Q E k"
proof (rule pre_launch_threads [OF C x n f(1), where P = "filled n place val UNIV xs" and out = out])
  fix order :: "u64 list"
  assume "\<And>i. i < n \<Longrightarrow> i \<in> set order"
  then have all: "filled n place val (set order) xs ys \<Longrightarrow> filled n place val UNIV xs ys" for ys by (simp add: filled_def)
  have "(f32_at V (device k))(out \<mapsto> xs) = f32_at V (device k)" using xs(1) by (rule fun_upd_idem)
  then show "\<exists>ys. run_threads f order (f32_at V (device k)) = Some ((f32_at V (device k))(out \<mapsto> ys)) \<and>
      filled n place val UNIV xs ys"
    using run_pointwise [OF f(2) xs(2) inj, of order] all by metis
qed (erule (4) Q, erule (3) E)

section \<open>What a Kernel computes\<close>

text \<open>
  A Kernel operation that, if it succeeds, returns a buffer that holds \<open>t\<close>, at a fresh address or
  in the offer, and that spares what was not offered; one that fails with the offer not taken
  leaves everything.
\<close>

definition new_place :: "'d view \<Rightarrow> 'd kernels \<Rightarrow> device_buffer \<Rightarrow> 'd kernels \<Rightarrow> bool" where
  "new_place V k b k' \<longleftrightarrow> bf16 b = None \<and>
     (ptr (buf_slice b) \<in> offers k \<and> offered_output k' = None \<or> f32_at V (device k) (ptr (buf_slice b)) = None)"

definition gives :: "'d view \<Rightarrow> ('d \<Rightarrow> bool) \<Rightarrow> host_tensor option \<Rightarrow> 'd kernels \<Rightarrow> device_buffer \<Rightarrow> 'd kernels \<Rightarrow> bool" where
  "gives V X t k b k' \<longleftrightarrow> X (device k') \<and> spared V (offers k) (device k) (device k') \<and> new_place V k b k' \<and>
     (offered_output k' \<noteq> None \<longrightarrow> intact V (device k) (device k')) \<and>
     (case t of None \<Rightarrow> False | Some t \<Rightarrow> holds V (device k') b t)"

definition gave_up :: "'d view \<Rightarrow> ('d \<Rightarrow> bool) \<Rightarrow> 'd kernels \<Rightarrow> 'd kernels \<Rightarrow> bool" where
  "gave_up V X k k' \<longleftrightarrow> X (device k') \<and> spared V (offers k) (device k) (device k') \<and>
     (offered_output k' \<noteq> None \<longrightarrow> intact V (device k) (device k'))"

definition computes :: "'d view \<Rightarrow> ('d \<Rightarrow> bool) \<Rightarrow> ('d, device_buffer) kernel_op \<Rightarrow> host_tensor option \<Rightarrow> 'd kernels \<Rightarrow> bool" where
  "computes V X m t k = pre m (gives V X t k) (\<lambda>_. gave_up V X k) k"

lemma gave_up_intact: "X (device k') \<Longrightarrow> intact V (device k) (device k') \<Longrightarrow> gave_up V X k k'"
  by (simp add: gave_up_def spared_intact)

text \<open>Allocate the output, launch one thread per element, and return it.\<close>

lemma spared_out:
  fixes s :: cuda_slice
  assumes "intact V d d1" "ptr s \<in> P \<or> f32_at V d (ptr s) = None"
    "u16_at V d2 = u16_at V d1" "f32_at V d2 = (f32_at V d1)(ptr s := ys)"
  shows "spared V P d d2" "f32_at V d (ptr s) = None \<Longrightarrow> intact V d d2"
proof -
  show "spared V P d d2"
    using assms intactD(1) [OF assms(1)] unfolding spared_def intact_def by (metis fun_upd_apply option.distinct(1))
  then show "intact V d d2" if "f32_at V d (ptr s) = None"
    using that assms unfolding spared_none [symmetric] spared_def spared_none [symmetric]
    by (metis fun_upd_apply option.distinct(1) intactD(1))
qed

lemma filled_ids:
  assumes "filled n id val UNIV xs ys" "length xs = unat n"
  shows "ys = map (\<lambda>j. val (of_nat j)) [0..<unat n]"
proof (rule nth_equalityI)
  show "length ys = length (map (\<lambda>j. val (of_nat j)) [0..<unat n])" using assms by (simp add: filled_def)
  fix j assume "j < length ys"
  then have j: "j < unat n" using assms by (simp add: filled_def)
  then have "unat (of_nat j :: u64) = j"
    using unat_lt_u64 [of n] by (simp add: unat_of_nat take_bit_nat_eq_self_iff)
  then have "ys ! j = val (of_nat j)"
    using assms(1) j unfolding filled_def by (metis UNIV_I id_apply word_less_nat_alt)
  then show "ys ! j = map (\<lambda>j. val (of_nat j)) [0..<unat n] ! j" using j by simp
qed

lemma computes_threads:
  fixes k :: "'d kernels"
  assumes C: "device_computes D V X F" and x: "X (device k)" and o: "offer_backed V k" and n: "unat n < 2 ^ 32"
    and thread: "\<And>g out. device_thread F g name (args out) = Some (f g out)"
    and f: "\<And>g out h. u16_at V (device k) \<subseteq>\<^sub>m g \<Longrightarrow> (\<And>p. f32_at V (device k) p \<noteq> None \<Longrightarrow> p \<notin> offers k \<Longrightarrow>
        p \<noteq> out \<and> h p = f32_at V (device k) p) \<Longrightarrow> pointwise n out id val h (f g out)"
  shows "computes V X (andthen (alloc_output D n) (\<lambda>out. andthen (launch_elems D name (args (ptr out)) n) (\<lambda>_.
      ret (plain out sh)))) (Some \<lparr>tshape = sh, tdata = map (\<lambda>j. val (of_nat j)) [0..<unat n]\<rparr>) k"
    (is "computes V X _ (Some ?t) k")
  unfolding computes_def pre_andthen
proof (rule pre_alloc_output [OF C x o])
  fix s :: cuda_slice and xs and k1 :: "'d kernels"
  assume s: "slen s = n" and xs: "f32_at V (device k1) (ptr s) = Some xs" "length xs = unat n"
    and k1: "intact V (device k) (device k1)" "X (device k1)"
    and p: "ptr s \<in> offers k \<and> offered_output k1 = None \<or> f32_at V (device k) (ptr s) = None"
  have at: "ptr s \<in> offers k \<or> f32_at V (device k) (ptr s) = None" using p by auto
  have "pointwise n (ptr s) id val (f32_at V (device k1)) (f (u16_at V (device k1)) (ptr s))"
    by (rule f) (use at k1(1) intactD(1) [OF k1(1)] in \<open>fastforce simp: intact_def\<close>)+
  then show "pre (launch_elems D name (args (ptr s)) n)
      (\<lambda>_. pre (ret (plain s sh)) (gives V X (Some ?t) k) (\<lambda>_. gave_up V X k)) (\<lambda>_. gave_up V X k) k1"
  proof (rule pre_launch_pointwise [OF C k1(2) n thread _ xs(1)])
    fix ys and k2 :: "'d kernels"
    assume k2: "X (device k2)" "u16_at V (device k2) = u16_at V (device k1)"
      "f32_at V (device k2) = (f32_at V (device k1))(ptr s \<mapsto> ys)" and ys: "filled n id val UNIV xs ys"
      and o2: "offered_output k2 = offered_output k1"
    have "holds V (device k2) (plain s sh) ?t"
      using k2(3) filled_ids [OF ys xs(2)] s by (simp add: holds_def content_def buffer_len_def)
    then show "pre (ret (plain s sh)) (gives V X (Some ?t) k) (\<lambda>_. gave_up V X k) k2"
      using k2(1) spared_out [OF k1(1) at k2(2,3)] p o2 by (auto simp: wp gives_def new_place_def)
  next
    fix e and k2 :: "'d kernels"
    assume "X (device k2)" "u16_at V (device k2) = u16_at V (device k1)"
      "f32_at V (device k2) = f32_at V (device k1)"
    then show "gave_up V X k k2" using k1(1) by (intro gave_up_intact) (simp_all add: intact_def)
  qed (use xs(2) in \<open>auto simp: word_less_nat_alt\<close>)
qed (simp add: gave_up_intact)

text \<open>The same for threads that read no compact allocation.\<close>

lemma computes_elementwise:
  fixes k :: "'d kernels"
  assumes "device_computes D V X F" "X (device k)" "offer_backed V k" "unat n < 2 ^ 32"
    and thread: "\<And>g out. device_thread F g name (args out) = Some (f out)"
    and f: "\<And>out h. (\<And>p. f32_at V (device k) p \<noteq> None \<Longrightarrow> p \<notin> offers k \<Longrightarrow>
        p \<noteq> out \<and> h p = f32_at V (device k) p) \<Longrightarrow> pointwise n out id val h (f out)"
  shows "computes V X (andthen (alloc_output D n) (\<lambda>out. andthen (launch_elems D name (args (ptr out)) n) (\<lambda>_.
      ret (plain out sh)))) (Some \<lparr>tshape = sh, tdata = map (\<lambda>j. val (of_nat j)) [0..<unat n]\<rparr>) k"
  by (rule computes_threads [OF assms(1-4) thread]) (rule f)

section \<open>The tensors the Operators mean\<close>

definition pointwise_tensor :: "(f32 \<Rightarrow> f32 \<Rightarrow> f32) \<Rightarrow> host_tensor \<Rightarrow> host_tensor \<Rightarrow> host_tensor option" where
  "pointwise_tensor f a b = (if tshape a = tshape b
     then Some \<lparr>tshape = tshape a, tdata = map2 f (tdata a) (tdata b)\<rparr> else None)"

text \<open>A row added to every row.\<close>

definition add_row :: "(f32 \<Rightarrow> f32 \<Rightarrow> f32) \<Rightarrow> f32 list \<Rightarrow> f32 list \<Rightarrow> f32 list" where
  "add_row f xs row = map (\<lambda>i. f (xs ! i) (row ! (i mod length row))) [0..<length xs]"

definition tensor_add :: "device_float \<Rightarrow> host_tensor \<Rightarrow> host_tensor \<Rightarrow> host_tensor option" where
  "tensor_add F a b =
     (if tshape a = tshape b then pointwise_tensor (f_add F) a b
      else if tshape a \<noteq> [] \<and> (tshape b = [last (tshape a)] \<or> tshape b = [1, last (tshape a)])
      then Some \<lparr>tshape = tshape a, tdata = add_row (f_add F) (tdata a) (tdata b)\<rparr> else None)"

definition tensor_silu :: "device_float \<Rightarrow> host_tensor \<Rightarrow> host_tensor" where
  "tensor_silu F a = \<lparr>tshape = tshape a, tdata = map (f_silu F) (tdata a)\<rparr>"

definition tensor_concat :: "host_tensor \<Rightarrow> host_tensor \<Rightarrow> host_tensor option" where
  "tensor_concat a b = (case (tshape a, tshape b) of
     (m # rest, n # rest') \<Rightarrow>
       (if rest = rest' then Some \<lparr>tshape = (m + n) # rest, tdata = tdata a @ tdata b\<rparr> else None)
   | _ \<Rightarrow> None)"

section \<open>The Kernels compute them\<close>

text \<open>An input: a buffer that holds a well-formed tensor and is not the offer.\<close>

definition feeds :: "'d view \<Rightarrow> 'd kernels \<Rightarrow> device_buffer \<Rightarrow> host_tensor \<Rightarrow> bool" where
  "feeds V k b t \<longleftrightarrow> holds V (device k) b t \<and> (bf16 b = None \<longrightarrow> ptr (buf_slice b) \<notin> offers k) \<and> wf_host t"

definition ready :: "'d external \<Rightarrow> 'd view \<Rightarrow> ('d \<Rightarrow> bool) \<Rightarrow> device_float \<Rightarrow> 'd kernels \<Rightarrow> bool" where
  "ready D V X F k \<longleftrightarrow> device_computes D V X F \<and> X (device k) \<and> offer_backed V k"

lemma readyD: "ready D V X F k \<Longrightarrow> device_computes D V X F" "ready D V X F k \<Longrightarrow> X (device k)"
  "ready D V X F k \<Longrightarrow> offer_backed V k"
  by (simp_all add: ready_def)

lemma computes_throw: "ready D V X F k \<Longrightarrow> computes V X (throw e) t k"
  by (simp add: computes_def wp gave_up_intact ready_def)

lemma computes_lift:
  "ready D V X F k \<Longrightarrow> (\<And>x. r = Inr x \<Longrightarrow> computes V X (m x) t k) \<Longrightarrow> computes V X (andthen (lift r) m) t k"
  by (cases r) (simp_all add: computes_def wp gave_up_intact ready_def)

lemma computes_ensure:
  "ready D V X F k \<Longrightarrow> (c \<Longrightarrow> computes V X (m ()) t k) \<Longrightarrow> computes V X (andthen (ensure c e) m) t k"
  by (simp add: computes_def wp gave_up_intact ready_def)

lemma feeds_plain:
  assumes "feeds V k b t" "bf16 b = None"
  shows "f32_at V (device k) (ptr (buf_slice b)) = Some (tdata t)" "ptr (buf_slice b) \<notin> offers k"
    "unat (slen (buf_slice b)) = length (tdata t)" "shape b = tshape t" "slen (buf_slice b) = shape_len (tshape t)"
proof -
  show n: "unat (slen (buf_slice b)) = length (tdata t)"
    using assms by (simp add: feeds_def holds_def buffer_len_def)
  show "slen (buf_slice b) = shape_len (tshape t)"
    using assms(1) unfolding feeds_def wf_host_def n [symmetric] by simp
qed (use assms in \<open>simp_all add: feeds_def holds_def content_def\<close>)

lemma map2_nths: "length xs = n \<Longrightarrow> length ys = n \<Longrightarrow> map (\<lambda>j. f (xs ! j) (ys ! j)) [0..<n] = map2 f xs ys"
  by (rule nth_equalityI) simp_all

lemma unat_index: "j < unat (n :: u64) \<Longrightarrow> unat (of_nat j :: u64) = j"
  using unat_lt_u64 [of n] by (simp add: unat_of_nat take_bit_nat_eq_self_iff)

lemma map_index: "unat (n :: u64) = m \<Longrightarrow> map (\<lambda>j. g (unat (of_nat j :: u64))) [0..<m] = map g [0..<m]"
  by (rule map_cong) (auto simp: unat_index)

text \<open>A thread that combines element \<open>i\<close> of two inputs.\<close>

lemma computes_binary:
  assumes k: "ready D V X F k" and a: "feeds V k a ta" "bf16 a = None" and b: "feeds V k b tb" "bf16 b = None"
    and sh: "tshape ta = tshape tb" and n: "length (tdata ta) < 2 ^ 32"
    and thread: "\<And>g out. device_thread F g name [APtr (ptr (buf_slice a)), APtr (ptr (buf_slice b)), APtr out,
        AU64 (slen (buf_slice a))] = Some (f out)"
    and f: "\<And>out i h x y. mem_load h (ptr (buf_slice a)) i = Some x \<Longrightarrow> mem_load h (ptr (buf_slice b)) i = Some y \<Longrightarrow>
        f out i h = (if i < slen (buf_slice a) then mem_store h out i (g x y) else Some h)"
    and rest: "\<And>out i h. \<not> i < slen (buf_slice a) \<Longrightarrow> f out i h = Some h"
  shows "computes V X (andthen (alloc_output D (slen (buf_slice a))) (\<lambda>out. andthen (launch_elems D name
      [APtr (ptr (buf_slice a)), APtr (ptr (buf_slice b)), APtr (ptr out), AU64 (slen (buf_slice a))]
      (slen (buf_slice a))) (\<lambda>_. ret (plain out (shape a))))) (pointwise_tensor g ta tb) k"
proof -
  note A = feeds_plain [OF a] and B = feeds_plain [OF b]
  let ?n = "slen (buf_slice a)"
  have len: "length (tdata ta) = unat ?n" "length (tdata tb) = unat ?n"
    using A(3,5) B(3,5) sh by simp_all
  have threads: "pointwise ?n out id (\<lambda>i. g (tdata ta ! unat i) (tdata tb ! unat i)) h (f out)"
    if h: "\<And>p. f32_at V (device k) p \<noteq> None \<Longrightarrow> p \<notin> offers k \<Longrightarrow> p \<noteq> out \<and> h p = f32_at V (device k) p" for out h
  proof -
    have "ptr (buf_slice a) \<noteq> out" "ptr (buf_slice b) \<noteq> out" "h (ptr (buf_slice a)) = Some (tdata ta)"
      "h (ptr (buf_slice b)) = Some (tdata tb)"
      using h [of "ptr (buf_slice a)"] h [of "ptr (buf_slice b)"] A(1,2) B(1,2) by simp_all
    then have "f out i (h(out \<mapsto> ys)) = mem_store (h(out \<mapsto> ys)) out i (g (tdata ta ! unat i) (tdata tb ! unat i))"
      if "i < ?n" for i ys
      using that len f [of "h(out \<mapsto> ys)" i "tdata ta ! unat i" "tdata tb ! unat i" out]
      by (simp add: mem_load_def word_less_nat_alt)
    then show ?thesis using rest by (simp add: pointwise_def)
  qed
  have "unat ?n < 2 ^ 32" using n len by simp
  from computes_elementwise [OF readyD [OF k] this,
      where args = "\<lambda>out. [APtr (ptr (buf_slice a)), APtr (ptr (buf_slice b)), APtr out, AU64 ?n]", OF thread threads]
  show ?thesis
    using len A(4) sh by (simp add: pointwise_tensor_def map_index [OF refl, where g = "\<lambda>j. g (tdata ta ! j) (tdata tb ! j)"] map2_nths)
qed

text \<open>The threads of the modelled functions.\<close>

lemma device_threads:
  "device_thread F g ''add_kernel'' [APtr a, APtr b, APtr out, AU64 n] = Some (add_kernel F a b out n)"
  "device_thread F g ''mul_kernel'' [APtr a, APtr b, APtr out, AU64 n] = Some (mul_kernel F a b out n)"
  "device_thread F g ''silu_mul_kernel'' [APtr a, APtr b, APtr out, AU64 n] = Some (silu_mul_kernel F a b out n)"
  "device_thread F g ''silu_kernel'' [APtr a, APtr out, AU64 n] = Some (silu_kernel F a out n)"
  "device_thread F g ''bias_add_kernel'' [APtr a, APtr b, APtr out, AU64 cols, AU64 n] = Some (bias_add_kernel F a b out cols n)"
  "device_thread F g ''kv_write_kernel'' [APtr a, APtr b, AU64 n, AU64 width, AU64 off, APtr 0] =
     Some (kv_write_kernel a b n width off)"
  "device_thread F g ''matmul_kernel'' [APtr a, APtr b, APtr out, AU64 m, AU64 k, AU64 n, AU64 ars, AU64 ais,
      AU64 bis, AU64 bcs, APtr b16] = Some (matmul_kernel F g a b out m k n ars ais bis bcs b16)"
  by (simp_all add: device_thread_def)

lemma computes_mul:
  assumes k: "ready D V X F k" and a: "feeds V k a ta" and b: "feeds V k b tb" and n: "length (tdata ta) < 2 ^ 32"
  shows "computes V X (mul D a b) (pointwise_tensor (f_mul F) ta tb) k"
  unfolding mul_def same_shape_buf_def
proof (rule computes_lift [OF k], rule computes_lift [OF k])
  fix u v assume "require_f32 [a, b] ''mul'' = Inr u"
    "(if shape a \<noteq> shape b then Inl (shape_error ''shape mismatch'') else Inr ()) = Inr v"
  then have p: "bf16 a = None" "bf16 b = None" and sh: "tshape ta = tshape tb"
    using a b by (auto simp: feeds_def holds_def split: if_splits)
  show "computes V X (let n = slen (buf_slice a) in andthen (alloc_output D n) (\<lambda>out. andthen (launch_elems D ''mul_kernel''
      [APtr (ptr (buf_slice a)), APtr (ptr (buf_slice b)), APtr (ptr out), AU64 n] n) (\<lambda>_. ret (plain out (shape a)))))
      (pointwise_tensor (f_mul F) ta tb) k"
    unfolding Let_def
    by (rule computes_binary [OF k a p(1) b p(2) sh n device_threads(2)]) (simp_all add: mul_kernel_def)
qed

lemma computes_silu_mul:
  assumes k: "ready D V X F k" and a: "feeds V k a ta" and b: "feeds V k b tb" and n: "length (tdata ta) < 2 ^ 32"
  shows "computes V X (silu_mul D a b) (pointwise_tensor (\<lambda>x y. f_mul F (f_silu F x) y) ta tb) k"
  unfolding silu_mul_def
proof (rule computes_lift [OF k], rule computes_ensure [OF k])
  fix u assume "require_f32 [a, b] ''silu-mul'' = Inr u" "shape a = shape b"
  then have p: "bf16 a = None" "bf16 b = None" and sh: "tshape ta = tshape tb"
    using a b by (simp_all add: feeds_def holds_def)
  show "computes V X (let n = slen (buf_slice a) in andthen (alloc_output D n) (\<lambda>out. andthen (launch_elems D ''silu_mul_kernel''
      [APtr (ptr (buf_slice a)), APtr (ptr (buf_slice b)), APtr (ptr out), AU64 n] n) (\<lambda>_. ret (plain out (shape a)))))
      (pointwise_tensor (\<lambda>x y. f_mul F (f_silu F x) y) ta tb) k"
    unfolding Let_def
    by (rule computes_binary [OF k a p(1) b p(2) sh n device_threads(3)]) (simp_all add: silu_mul_kernel_def Let_def)
qed

lemma computes_silu:
  assumes k: "ready D V X F k" and a: "feeds V k a ta" and n: "length (tdata ta) < 2 ^ 32"
  shows "computes V X (silu D a) (Some (tensor_silu F ta)) k"
  unfolding silu_def Let_def
proof (rule computes_lift [OF k])
  fix u assume "require_f32 [a] ''silu'' = Inr u"
  then have p: "bf16 a = None" by simp
  note A = feeds_plain [OF a p]
  let ?n = "slen (buf_slice a)"
  have threads: "pointwise ?n out id (\<lambda>i. f_silu F (tdata ta ! unat i)) h (silu_kernel F (ptr (buf_slice a)) out ?n)"
    if h: "\<And>p. f32_at V (device k) p \<noteq> None \<Longrightarrow> p \<notin> offers k \<Longrightarrow> p \<noteq> out \<and> h p = f32_at V (device k) p" for out h
    using h [of "ptr (buf_slice a)"] A(1,2,3)
    by (auto simp: pointwise_def silu_kernel_def mem_load_def word_less_nat_alt)
  have "unat ?n < 2 ^ 32" using n A(3) by simp
  from computes_elementwise [OF readyD [OF k] this, where args = "\<lambda>out. [APtr (ptr (buf_slice a)), APtr out, AU64 ?n]",
      OF device_threads(4) threads]
  have "computes V X (andthen (alloc_output D ?n) (\<lambda>out. andthen (launch_elems D ''silu_kernel''
      [APtr (ptr (buf_slice a)), APtr (ptr out), AU64 ?n] ?n) (\<lambda>_. ret (plain out (shape a)))))
    (Some \<lparr>tshape = shape a, tdata = map (\<lambda>j. f_silu F (tdata ta ! unat (of_nat j :: u64))) [0..<unat ?n]\<rparr>) k" .
  moreover have "map (\<lambda>j. f_silu F (tdata ta ! unat (of_nat j :: u64))) [0..<unat ?n] = map (f_silu F) (tdata ta)"
    by (rule nth_equalityI) (simp_all add: A(3) [symmetric] unat_index [of _ ?n])
  ultimately show "computes V X (andthen (alloc_output D ?n) (\<lambda>out. andthen (launch_elems D ''silu_kernel''
      [APtr (ptr (buf_slice a)), APtr (ptr out), AU64 ?n] ?n) (\<lambda>_. ret (plain out (shape a)))))
    (Some (tensor_silu F ta)) k"
    using A(4) by (simp add: tensor_silu_def)
qed

lemma computes_bias_add:
  assumes k: "ready D V X F k" and a: "feeds V k a ta" "bf16 a = None" and b: "feeds V k b tb" "bf16 b = None"
    and n: "length (tdata ta) < 2 ^ 32" and cols: "cols = shape_len (tshape tb)"
    and whole: "is_multiple_of (slen (buf_slice a)) cols"
  shows "computes V X (andthen (alloc_output D (slen (buf_slice a))) (\<lambda>out. andthen (launch_elems D ''bias_add_kernel''
      [APtr (ptr (buf_slice a)), APtr (ptr (buf_slice b)), APtr (ptr out), AU64 cols, AU64 (slen (buf_slice a))]
      (slen (buf_slice a))) (\<lambda>_. ret (plain out (shape a)))))
    (Some \<lparr>tshape = tshape ta, tdata = add_row (f_add F) (tdata ta) (tdata tb)\<rparr>) k"
proof -
  note A = feeds_plain [OF a] and B = feeds_plain [OF b]
  let ?n = "slen (buf_slice a)"
  let ?val = "\<lambda>j. f_add F (tdata ta ! j) (tdata tb ! (j mod length (tdata tb)))"
  have len: "unat cols = length (tdata tb)" using B(3,5) cols by simp
  have pos: "0 < length (tdata tb)" if "i < ?n" for i
  proof -
    have "?n \<noteq> 0" using that by auto
    then have "cols \<noteq> 0" using whole by (auto simp: is_multiple_of_def)
    then show ?thesis using len by (metis unat_gt_0)
  qed
  have threads: "pointwise ?n out id (\<lambda>i. ?val (unat i)) h
      (bias_add_kernel F (ptr (buf_slice a)) (ptr (buf_slice b)) out cols ?n)"
    if h: "\<And>p. f32_at V (device k) p \<noteq> None \<Longrightarrow> p \<notin> offers k \<Longrightarrow> p \<noteq> out \<and> h p = f32_at V (device k) p" for out h
    using h [of "ptr (buf_slice a)"] h [of "ptr (buf_slice b)"] A(1,2,3) B(1,2) len pos
    by (auto simp: pointwise_def bias_add_kernel_def mem_load_def word_less_nat_alt unat_mod)
  have "unat ?n < 2 ^ 32" using n A(3) by simp
  from computes_elementwise [OF readyD [OF k] this, where sh = "shape a" and
      args = "\<lambda>out. [APtr (ptr (buf_slice a)), APtr (ptr (buf_slice b)), APtr out, AU64 cols, AU64 ?n]",
      OF device_threads(5) threads]
  show ?thesis using A(3,4) by (simp add: map_index [OF A(3), where g = ?val] add_row_def)
qed

lemma computes_add:
  assumes k: "ready D V X F k" and a: "feeds V k a ta" and b: "feeds V k b tb" and n: "length (tdata ta) < 2 ^ 32"
  shows "computes V X (add D a b) (tensor_add F ta tb) k"
  unfolding add_def Let_def
proof (rule computes_lift [OF k])
  fix u assume "require_f32 [a, b] ''add'' = Inr u"
  then have p: "bf16 a = None" "bf16 b = None" by simp_all
  note A = feeds_plain [OF a p(1)] and B = feeds_plain [OF b p(2)]
  let ?n = "slen (buf_slice a)"
  let ?same = "andthen (alloc_output D ?n) (\<lambda>out. andthen (launch_elems D ''add_kernel''
      [APtr (ptr (buf_slice a)), APtr (ptr (buf_slice b)), APtr (ptr out), AU64 ?n] ?n) (\<lambda>_. ret (plain out (shape a))))"
  let ?row = "\<lambda>cols. andthen (alloc_output D ?n) (\<lambda>out. andthen (launch_elems D ''bias_add_kernel''
      [APtr (ptr (buf_slice a)), APtr (ptr (buf_slice b)), APtr (ptr out), AU64 cols, AU64 ?n] ?n) (\<lambda>_.
      ret (plain out (shape a))))"
  have same: "computes V X ?same (tensor_add F ta tb) k" if "shape a = shape b"
    using computes_binary [OF k a p(1) b p(2) _ n device_threads(1), of "f_add F"] that A(4) B(4)
    by (simp add: add_kernel_def tensor_add_def)
  have row: "computes V X (andthen (ensure (shape a \<noteq> []) e1) (\<lambda>_.
      andthen (ensure (shape b = [last (shape a)] \<or> shape b = [1, last (shape a)]) e2) (\<lambda>_.
      andthen (ensure (is_multiple_of ?n (last (shape a))) e3) (\<lambda>_. ?row (last (shape a)))))) (tensor_add F ta tb) k"
    if "shape a \<noteq> shape b" for e1 e2 e3
  proof (intro computes_ensure [OF k])
    assume c: "shape a \<noteq> []" "shape b = [last (shape a)] \<or> shape b = [1, last (shape a)]"
      "is_multiple_of ?n (last (shape a))"
    then have "last (shape a) = shape_len (tshape tb)" using B(4) by auto
    from computes_bias_add [OF k a p(1) b p(2) n this c(3)] show "computes V X (?row (last (shape a))) (tensor_add F ta tb) k"
      using that c(1,2) A(4) B(4) by (simp add: tensor_add_def)
  qed
  show "computes V X (if shape a = shape b then ?same else andthen (ensure (shape a \<noteq> []) (shape_error ''add expects at least one dimension'')) (\<lambda>_.
      andthen (ensure (shape b = [last (shape a)] \<or> shape b = [1, last (shape a)])
        (shape_error ''add expects b to match a's shape or broadcast'')) (\<lambda>_.
      andthen (ensure (is_multiple_of ?n (last (shape a)))
        (shape_error ''add data length is not divisible by broadcast dimension'')) (\<lambda>_. ?row (last (shape a))))))
      (tensor_add F ta tb) k"
    using same row by simp
qed

lemma computes_residual_add:
  assumes k: "ready D V X F k" and "feeds V k a ta" "feeds V k b tb" "length (tdata ta) < 2 ^ 32"
  shows "computes V X (residual_add D a b) (tensor_add F ta tb) k"
  unfolding residual_add_def by (rule computes_lift [OF k], rule computes_add [OF assms])

text \<open>A copy into an output, and the two of a concatenation.\<close>

lemma pre_copy:
  fixes k :: "'d kernels"
  assumes C: "device_computes D V X F" and x: "X (device k)" and s: "f32_at V (device k) (ptr s) = Some xs"
      "length xs = unat (slen s)" "q \<noteq> ptr s"
    and q: "f32_at V (device k) q = Some ys" "i + length xs \<le> length ys" "a = q + of_nat (4 * i)"
    and Q: "\<And>k'. X (device k') \<Longrightarrow> u16_at V (device k') = u16_at V (device k) \<Longrightarrow> f32_at V (device k') =
        (f32_at V (device k))(q \<mapsto> take i ys @ xs @ drop (i + length xs) ys) \<Longrightarrow> offered_output k' = offered_output k \<Longrightarrow> Q () k'"
    and E: "\<And>e k' zs. X (device k') \<Longrightarrow> u16_at V (device k') = u16_at V (device k) \<Longrightarrow>
        f32_at V (device k') = (f32_at V (device k))(q := zs) \<Longrightarrow> offered_output k' = offered_output k \<Longrightarrow> E e k'"
  shows "pre (drv D (cu_memcpy_dtod D s a)) Q E k"
proof -
  obtain r d' where m: "cu_memcpy_dtod D s a (device k) = (r, d')" by fastforce
  have law: "u16_at V d' = u16_at V (device k) \<and> (\<forall>p. p \<noteq> q \<longrightarrow> f32_at V d' p = f32_at V (device k) p) \<and>
      (r = Inr () \<longrightarrow> f32_at V d' q = Some (take i ys @ xs @ drop (i + length xs) ys))"
    using compute_laws(3) [OF C, of s q i, folded q(3), unfolded copies_def, rule_format, OF x s(3) s(1,2) q(1,2)] m
    by simp
  have X: "X d'" using stays_laws(3) [OF C, of s a] x m by (metis stays_def snd_conv)
  show ?thesis
  proof (cases r)
    case (Inl e)
    have "f32_at V d' = (f32_at V (device k))(q := f32_at V d' q)" using law by (auto simp: fun_eq_iff)
    then show ?thesis using Inl law X m E by (simp add: pre_drv pre_def [of "cu_memcpy_dtod D s a"])
  next
    case (Inr u)
    then have "f32_at V d' = (f32_at V (device k))(q \<mapsto> take i ys @ xs @ drop (i + length xs) ys)"
      using law by (auto simp: fun_eq_iff)
    then show ?thesis using Inr law X m Q by (simp add: pre_drv pre_def [of "cu_memcpy_dtod D s a"])
  qed
qed

lemma computes_concat:
  fixes k :: "'d kernels"
  assumes k: "ready D V X F k" and a: "feeds V k a ta" and b: "feeds V k b tb"
    and n: "length (tdata ta) + length (tdata tb) < 2 ^ 64"
  shows "computes V X (concat_rows D a b) (tensor_concat ta tb) k"
  unfolding concat_rows_def
proof (rule computes_lift [OF k])
  fix u assume "require_f32 [a, b] ''concat'' = Inr u"
  then have p: "bf16 a = None" "bf16 b = None" by simp_all
  note A = feeds_plain [OF a p(1)] and B = feeds_plain [OF b p(2)]
  let ?a = "buf_slice a" and ?b = "buf_slice b"
  have len: "unat (slen ?a + slen ?b) = length (tdata ta) + length (tdata tb)"
    using n A(3) B(3) by (simp add: unat_add_u64)
  have body: "computes V X (andthen (alloc_output D (slen ?a + slen ?b)) (\<lambda>out.
      andthen (drv D (cu_memcpy_dtod D ?a (ptr out))) (\<lambda>_.
      andthen (drv D (cu_memcpy_dtod D ?b (ptr out + 4 * slen ?a))) (\<lambda>_. ret (plain out sh)))))
      (Some \<lparr>tshape = sh, tdata = tdata ta @ tdata tb\<rparr>) k" (is "computes V X _ (Some ?t) k") for sh
    unfolding computes_def pre_andthen
  proof (rule pre_alloc_output [OF readyD [OF k]])
    fix s :: cuda_slice and xs and k1 :: "'d kernels"
    assume s: "slen s = slen ?a + slen ?b" and xs: "f32_at V (device k1) (ptr s) = Some xs"
        "length xs = unat (slen ?a + slen ?b)"
      and k1: "intact V (device k) (device k1)" "X (device k1)"
      and at: "ptr s \<in> offers k \<and> offered_output k1 = None \<or> f32_at V (device k) (ptr s) = None"
    have place: "ptr s \<in> offers k \<or> f32_at V (device k) (ptr s) = None" using at by auto
    then have other: "ptr s \<noteq> ptr ?a" "ptr s \<noteq> ptr ?b" using A(1,2) B(1,2) by auto
    note in1 = intactD(1) [OF k1(1) A(1)] and in2 = intactD(1) [OF k1(1) B(1)]
    have fail: "gave_up V X k k'" if "X (device k')" "u16_at V (device k') = u16_at V (device k1)"
      "f32_at V (device k') = (f32_at V (device k1))(ptr s := zs)" "offered_output k' = offered_output k1" for k' zs
      using that at spared_out [OF k1(1) place that(2,3)] by (auto simp: gave_up_def)
    let ?ys = "tdata ta @ drop (length (tdata ta)) xs"
    have second: "pre (drv D (cu_memcpy_dtod D ?b (ptr s + 4 * slen ?a)))
        (\<lambda>_. pre (ret (plain s sh)) (gives V X (Some ?t) k) (\<lambda>_. gave_up V X k)) (\<lambda>_. gave_up V X k) k2"
      if k2: "X (device k2)" "u16_at V (device k2) = u16_at V (device k1)"
        "f32_at V (device k2) = (f32_at V (device k1))(ptr s \<mapsto> ?ys)" "offered_output k2 = offered_output k1"
      for k2 :: "'d kernels"
    proof (rule pre_copy [OF readyD(1) [OF k] k2(1)])
      show "f32_at V (device k2) (ptr ?b) = Some (tdata tb)" using k2(3) other(2) in2 by simp
      show "f32_at V (device k2) (ptr s) = Some ?ys" using k2(3) by simp
      show "ptr s + 4 * slen ?a = ptr s + of_nat (4 * length (tdata ta))" by (simp add: A(3) [symmetric])
      show "length (tdata tb) = unat (slen ?b)" "ptr s \<noteq> ptr ?b" using B(3) other by simp_all
      show "length (tdata ta) + length (tdata tb) \<le> length ?ys" using xs(2) len by simp
    next
      fix k' :: "'d kernels"
      assume k': "X (device k')" "u16_at V (device k') = u16_at V (device k2)" "f32_at V (device k') =
        (f32_at V (device k2))(ptr s \<mapsto> take (length (tdata ta)) ?ys @ tdata tb @ drop (length (tdata ta) + length (tdata tb)) ?ys)"
        and o': "offered_output k' = offered_output k2"
      have f: "f32_at V (device k') = (f32_at V (device k1))(ptr s \<mapsto> tdata ta @ tdata tb)"
        using k'(3) k2(3) xs(2) len by simp
      have "holds V (device k') (plain s sh) ?t"
        using f s len by (simp add: holds_def content_def buffer_len_def)
      then show "pre (ret (plain s sh)) (gives V X (Some ?t) k) (\<lambda>_. gave_up V X k) k'"
        using k'(1) spared_out [OF k1(1) place _ f] k'(2) k2(2,4) at o' by (auto simp: wp gives_def new_place_def)
    next
      fix e zs and k' :: "'d kernels"
      assume "X (device k')" "u16_at V (device k') = u16_at V (device k2)"
        "f32_at V (device k') = (f32_at V (device k2))(ptr s := zs)" "offered_output k' = offered_output k2"
      then show "gave_up V X k k'" using fail [of k' zs] k2 by simp
    qed
    show "pre (drv D (cu_memcpy_dtod D ?a (ptr s)))
        (\<lambda>_. pre (drv D (cu_memcpy_dtod D ?b (ptr s + 4 * slen ?a)))
          (\<lambda>_. pre (ret (plain s sh)) (gives V X (Some ?t) k) (\<lambda>_. gave_up V X k)) (\<lambda>_. gave_up V X k))
        (\<lambda>_. gave_up V X k) k1"
    proof (rule pre_copy [OF readyD(1) [OF k] k1(2) in1 _ other(1) xs(1), where i = 0])
      fix k2 :: "'d kernels"
      assume "X (device k2)" "u16_at V (device k2) = u16_at V (device k1)" "f32_at V (device k2) =
        (f32_at V (device k1))(ptr s \<mapsto> take 0 xs @ tdata ta @ drop (0 + length (tdata ta)) xs)"
        "offered_output k2 = offered_output k1"
      then show "pre (drv D (cu_memcpy_dtod D ?b (ptr s + 4 * slen ?a)))
          (\<lambda>_. pre (ret (plain s sh)) (gives V X (Some ?t) k) (\<lambda>_. gave_up V X k)) (\<lambda>_. gave_up V X k) k2"
        using second by simp
    next
      fix e zs and k' :: "'d kernels"
      assume "X (device k')" "u16_at V (device k') = u16_at V (device k1)"
        "f32_at V (device k') = (f32_at V (device k1))(ptr s := zs)" "offered_output k' = offered_output k1"
      then show "gave_up V X k k'" using fail by simp
    qed (use xs(2) len A(3) in simp_all)
  qed (simp add: gave_up_intact)
  show "computes V X (case shape a of
        [] \<Rightarrow> throw (shape_error ''concat expects a to have at least one dimension'')
      | a_rows # a_rest \<Rightarrow>
     (case shape b of
        [] \<Rightarrow> throw (shape_error ''concat expects b to have at least one dimension'')
      | b_rows # b_rest \<Rightarrow>
     andthen (ensure (a_rest = b_rest)
       (shape_error ''concat expects a and b to share trailing dimensions'')) (\<lambda>_.
     (let a_len = slen ?a; b_len = slen ?b in
      andthen (alloc_output D (a_len + b_len)) (\<lambda>out.
      andthen (drv D (cu_memcpy_dtod D ?a (ptr out))) (\<lambda>_.
      andthen (drv D (cu_memcpy_dtod D ?b (ptr out + 4 * a_len))) (\<lambda>_.
      ret (plain out ((a_rows + b_rows) # a_rest)))))))))  (tensor_concat ta tb) k"
    using body A(4) B(4)
    by (auto simp: tensor_concat_def Let_def computes_throw [OF k] intro!: computes_ensure [OF k] split: list.split)
qed

section \<open>Transfers and the expansion of a compact input\<close>

definition keeps_running :: "('d \<Rightarrow> bool) \<Rightarrow> 'd kernels \<Rightarrow> 'd kernels \<Rightarrow> bool" where
  "keeps_running X k k' \<longleftrightarrow> (X (device k) \<longrightarrow> X (device k'))"

interpretation running: frame "keeps_running X" for X
  by unfold_locales (auto simp: keeps_running_def)

lemma running_drv: "stays X m \<Longrightarrow> keeps (keeps_running X) (drv D m)"
  by (simp add: keeps_def keeps_running_def device_drv stays_def)

lemma running_host: "keeps (keeps_running X) (forbid_in_capture what)"
    "keeps (keeps_running X) count_upload" "keeps (keeps_running X) count_download"
  by (auto simp: keeps_def keeps_running_def forbid_in_capture_def count_upload_def count_download_def modify_def
      Let_def split: option.split)

lemma running_alloc: "stays X (cu_alloc D ty n) \<Longrightarrow> keeps (keeps_running X) (alloc D ty n)"
    "stays X (cu_alloc_zeros D ty n) \<Longrightarrow> keeps (keeps_running X) (alloc_zeros D ty n)"
  unfolding alloc_def alloc_zeros_def by (rule running.keeps_basic running_drv | assumption)+

lemma running_chunks: "(\<And>v p. stays X (cu_memcpy_htod D v p)) \<Longrightarrow> keeps (keeps_running X) (upload_chunks D s i cs)"
proof (induction cs arbitrary: i)
  case Nil
  show ?case unfolding upload_chunks.simps by (rule running.keeps_basic)
next
  case (Cons c cs)
  show ?case unfolding upload_chunks.simps upload_chunk_def
    by (rule running.keeps_basic running_drv Cons)+
qed

lemma running_transfers:
  assumes "device_computes D V X F"
  shows "keeps (keeps_running X) (download D b)" "keeps (keeps_running X) (upload D t)"
    "keeps (keeps_running X) (zeros D sh)" "keeps (keeps_running X) (upload_weight D t)"
  unfolding download_def upload_def zeros_def upload_weight_def
  by (rule keeps_if running.keeps_basic running_host running_drv running_alloc running_chunks stays_laws [OF assms] keeps_option)+

lemma computes_fresh:
  assumes "keeps (keeps_running X) m" "X (device k)"
    and "pre m (\<lambda>b k'. intact V (device k) (device k') \<and> holds V (device k') b t \<and> bf16 b = None \<and>
      f32_at V (device k) (ptr (buf_slice b)) = None) (\<lambda>_ k'. intact V (device k) (device k')) k"
  shows "computes V X m (Some t) k"
  using assms unfolding computes_def pre_def keeps_def keeps_running_def
  by (auto simp: gives_def new_place_def gave_up_intact spared_intact split: prod.splits sum.splits)

lemma computes_upload:
  assumes M: "device_memory D V" and C: "device_computes D V X F" and k: "X (device k)" and t: "length (tdata t) < 2 ^ 64"
  shows "computes V X (upload D t) (Some t) k"
proof (rule computes_fresh [OF running_transfers(2) [OF C] k])
  show "pre (upload D t) (\<lambda>b k'. intact V (device k) (device k') \<and> holds V (device k') b t \<and> bf16 b = None \<and>
      f32_at V (device k) (ptr (buf_slice b)) = None) (\<lambda>_ k'. intact V (device k) (device k')) k"
    unfolding upload_def pre_andthen
    by (rule pre_forbid)
      (use t in \<open>auto simp: wp count_upload_def holds_def content_def buffer_len_def unat_of_nat
        take_bit_nat_eq_self_iff intro!: pre_alloc_f32 [OF memory_laws(1) [OF M]]\<close>)
qed

lemma computes_zeros:
  assumes M: "device_memory D V" and C: "device_computes D V X F" and k: "X (device k)"
  shows "computes V X (zeros D sh) (Some \<lparr>tshape = sh, tdata = replicate (unat (shape_len sh)) 0\<rparr>) k"
proof (rule computes_fresh [OF running_transfers(3) [OF C] k])
  show "pre (zeros D sh) (\<lambda>b k'. intact V (device k) (device k') \<and>
      holds V (device k') b \<lparr>tshape = sh, tdata = replicate (unat (shape_len sh)) 0\<rparr> \<and> bf16 b = None \<and>
      f32_at V (device k) (ptr (buf_slice b)) = None) (\<lambda>_ k'. intact V (device k) (device k')) k"
    unfolding zeros_def pre_andthen
    by (rule pre_forbid)
      (auto simp: wp alloc_zeros_def holds_def content_def buffer_len_def dest: checked_product_len
        intro!: pre_alloc_f32 [OF memory_laws(2) [OF M]] split: option.split)
qed

lemma computes_expand:
  assumes M: "device_memory D V" and H: "host_checked D" and C: "device_computes D V X F" and k: "X (device k)"
    and b: "holds V (device k) b t" and o: "offered_output k = None"
  shows "computes V X (expand D b) (Some t) k"
  unfolding computes_def expand_def pre_andthen
proof (rule preI)
  have len: "length (tdata t) < 2 ^ 64" using b unat_lt_u64 [of "buffer_len b"] by (simp add: holds_def)
  fix u k1 assume d: "download D b k = (Inr u, k1)"
  have k1: "X (device k1)" using keepsD [OF running_transfers(1) [OF C] d] k by (simp add: keeps_running_def)
  have "intact V (device k) (device k1)" "u = t"
    using fetches_download [OF M H b] d by (auto simp: fetches_def pre_def)
  moreover have "offered_output k1 = None"
    using keepsD [OF keeps_download [of "\<lambda>_. True"] d] o by (simp add: frame_le_def offer_le_def)
  ultimately have k1': "intact V (device k) (device k1)" "u = t" "offered_output k1 = None" by simp_all
  have fresh: "f32_at V (device k) p = None" if "f32_at V (device k1) p = None" for p
    using intactD(1) [OF k1'(1)] that by (metis not_Some_eq)
  have "offers k = {}" "offers k1 = {}" using o k1'(3) by (simp_all add: offers_def)
  then have "gives V X (Some t) k b' k2" if "gives V X (Some t) k1 b' k2" for b' k2
    using that intact_trans [OF k1'(1)] fresh by (auto simp: gives_def new_place_def spared_none)
  moreover have "gave_up V X k k2" if "gave_up V X k1 k2" for k2
    using that intact_trans [OF k1'(1)] \<open>offers k1 = {}\<close>
    by (intro gave_up_intact) (auto simp: gave_up_def spared_none)
  ultimately show "pre (upload D u) (gives V X (Some t) k) (\<lambda>_. gave_up V X k) k1"
    unfolding k1'(2) by (rule pre_mono [OF computes_upload [OF M C k1 len, unfolded computes_def]])
next
  fix e k1 assume d: "download D b k = (Inl e, k1)"
  have "X (device k1)" using keepsD [OF running_transfers(1) [OF C] d] k by (simp add: keeps_running_def)
  moreover have "intact V (device k) (device k1)"
    using fetches_download [OF M H b] d by (auto simp: fetches_def pre_def)
  ultimately show "gave_up V X k k1" by (rule gave_up_intact)
qed

section \<open>One Kernel after another\<close>

lemma holds_spared:
  "spared V P d d' \<Longrightarrow> holds V d b t \<Longrightarrow> (bf16 b = None \<Longrightarrow> ptr (buf_slice b) \<notin> P) \<Longrightarrow> holds V d' b t"
  by (auto simp: holds_def content_def spared_def map_le_def split: option.splits) (metis domI)+

lemma spared_trans:
  assumes "spared V P d d1" "spared V P1 d1 d2" "P1 \<subseteq> P"
  shows "spared V P d d2"
  using assms map_le_trans [of "u16_at V d" "u16_at V d1" "u16_at V d2"] unfolding spared_def by (auto simp: subset_eq)

text \<open>After a step that put \<open>t\<close> into \<open>b\<close>, the rest can start, with \<open>b\<close> and the inputs for its own.\<close>

lemma gives_ready:
  assumes k: "ready D V X F k" and g: "gives V X (Some t) k b k1" and wf: "wf_host t"
    and le: "offer_le (offered_output k) (offered_output k1)"
  shows "ready D V X F k1" "feeds V k1 b t" "feeds V k c u \<Longrightarrow> feeds V k1 c u" "offers k1 \<subseteq> offers k" "bf16 b = None"
proof -
  have taken: "offered_output k1 = None \<or> offered_output k1 = offered_output k \<and> intact V (device k) (device k1)"
    using g le by (auto simp: gives_def offer_le_def)
  show sub: "offers k1 \<subseteq> offers k" using taken by (auto simp: offers_def)
  show b: "bf16 b = None" using g by (simp add: gives_def new_place_def)
  have backed: "f32_at V (device k) p \<noteq> None" if "p \<in> offers k" for p
    using that readyD(3) [OF k] by (auto simp: offers_def offer_backed_def split: option.splits)
  show "ready D V X F k1"
    using k g taken unfolding ready_def offer_backed_def gives_def by (metis intactD(1) option.distinct(1))
  have "ptr (buf_slice b) \<notin> offers k1"
    using g taken backed [of "ptr (buf_slice b)"] by (auto simp: gives_def new_place_def offers_def)
  then show "feeds V k1 b t" using g wf by (simp add: gives_def feeds_def)
  show "feeds V k1 c u" if "feeds V k c u"
    using that holds_spared [of V "offers k" "device k" "device k1" c u] g sub by (auto simp: feeds_def gives_def)
qed

lemma gives_then:
  assumes o: "offer_backed V k" and g: "gives V X (Some t) k b k1" and sub: "offers k1 \<subseteq> offers k"
    and none: "offered_output k2 \<noteq> None \<Longrightarrow> offered_output k1 \<noteq> None"
  shows "gives V X u k1 c k2 \<Longrightarrow> gives V X u k c k2" "gave_up V X k1 k2 \<Longrightarrow> gave_up V X k k2"
proof -
  have s: "spared V (offers k) (device k) (device k1)" using g by (simp add: gives_def)
  have i: "intact V (device k) (device k2)" if "intact V (device k1) (device k2)" "offered_output k2 \<noteq> None"
    using that g none intact_trans [of V "device k" "device k1" "device k2"] by (auto simp: gives_def)
  have fresh: "p \<in> offers k \<and> offered_output k2 = None \<or> f32_at V (device k) p = None" if p: "f32_at V (device k1) p = None" for p
  proof (cases "p \<in> offers k")
    case True
    then obtain xs where xs: "f32_at V (device k) p = Some xs" using o by (auto simp: offers_def offer_backed_def split: option.splits)
    have "offered_output k1 = None"
      using p xs intactD(1) [OF _ xs, of "device k1"] g unfolding gives_def by auto
    then have "offered_output k2 = None" using none by blast
    then show ?thesis using True by simp
  next
    case False
    then show ?thesis using p s unfolding spared_def by (metis not_Some_eq)
  qed
  show "gave_up V X k1 k2 \<Longrightarrow> gave_up V X k k2"
    using spared_trans [OF s _ sub, of "device k2"] i by (auto simp: gave_up_def)
  assume c: "gives V X u k1 c k2"
  have "new_place V k c k2" using c fresh [of "ptr (buf_slice c)"] sub unfolding gives_def new_place_def by auto
  then show "gives V X u k c k2" using c spared_trans [OF s _ sub, of "device k2"] i by (auto simp: gives_def)
qed

lemma computes_compose:
  assumes k: "ready D V X F k" and m: "computes V X m (Some t) k" "keeps (frame_le (\<lambda>_. True)) m" and wf: "wf_host t"
    and f: "\<And>b k1. ready D V X F k1 \<Longrightarrow> feeds V k1 b t \<Longrightarrow> (\<And>c u. feeds V k c u \<Longrightarrow> feeds V k1 c u) \<Longrightarrow>
        computes V X (f b) u k1"
    and kf: "\<And>b. keeps (frame_le (\<lambda>_. True)) (f b)"
  shows "computes V X (andthen m f) u k"
  unfolding computes_def pre_andthen
proof (rule preI)
  fix b k1 assume mk: "m k = (Inr b, k1)"
  have g: "gives V X (Some t) k b k1" using m(1) mk by (simp add: computes_def pre_def)
  have "offer_le (offered_output k) (offered_output k1)" using keepsD [OF m(2) mk] by (simp add: frame_le_def)
  note r = gives_ready [OF k g wf this]
  obtain q k2 where fk: "f b k1 = (q, k2)" by fastforce
  have "offered_output k2 \<noteq> None \<Longrightarrow> offered_output k1 \<noteq> None"
    using keepsD [OF kf fk] by (auto simp: frame_le_def offer_le_def)
  note then_rules = gives_then [OF readyD(3) [OF k] g r(4) this]
  show "pre (f b) (gives V X u k) (\<lambda>_. gave_up V X k) k1"
    using f [OF r(1,2,3)] fk then_rules by (cases q) (simp_all add: computes_def pre_def)
next
  fix e k1 assume "m k = (Inl e, k1)"
  then show "gave_up V X k k1" using m(1) by (simp add: computes_def pre_def)
qed

lemma computes_bind:
  assumes k: "ready D V X F k" and m: "computes V X m t k" "keeps (frame_le (\<lambda>_. True)) m"
    and wf: "\<And>v. t = Some v \<Longrightarrow> wf_host v"
    and f: "\<And>b v k1. t = Some v \<Longrightarrow> ready D V X F k1 \<Longrightarrow> feeds V k1 b v \<Longrightarrow>
        (\<And>c u. feeds V k c u \<Longrightarrow> feeds V k1 c u) \<Longrightarrow> computes V X (f b) (u v) k1"
    and kf: "\<And>b. keeps (frame_le (\<lambda>_. True)) (f b)"
  shows "computes V X (andthen m f) (Option.bind t u) k"
proof (cases t)
  case None
  then have "computes V X m None k" using m(1) by simp
  then show ?thesis unfolding computes_def pre_andthen by (rule pre_mono) (simp_all add: gives_def)
next
  case (Some v)
  have mv: "computes V X m (Some v) k" using m(1) unfolding Some .
  have "computes V X (andthen m f) (u v) k"
  proof (rule computes_compose [OF k mv m(2) wf [OF Some] _ kf])
    fix b k1
    assume "ready D V X F k1" "feeds V k1 b v" "\<And>c u. feeds V k c u \<Longrightarrow> feeds V k1 c u"
    then show "computes V X (f b) (u v) k1" by (rule f [OF Some])
  qed
  then show ?thesis unfolding Some by (simp only: Option.bind.bind_lunit)
qed

end
