(* ===== verification/Tensor_Store.thy ===== *)
theory Tensor_Store
  imports Simulated_Memory
begin

text \<open>
  The executor's storage refines a map from resource names to host tensors: what the tensor
  operations do to buffers, addresses and compact encodings is, seen through the device memory,
  an update of that map, and a failed operation changes nothing of it.
\<close>

section \<open>The abstract store\<close>

definition tensors :: "'d view \<Rightarrow> 'd executor \<Rightarrow> string \<Rightarrow> host_tensor option" where
  "tensors V x name = (case storage x name of None \<Rightarrow> None | Some b \<Rightarrow>
     map_option (\<lambda>xs. \<lparr>tshape = shape b, tdata = xs\<rparr>) (content V (device (kernels x)) b))"

definition resident :: "'d view \<Rightarrow> 'd executor \<Rightarrow> bool" where
  "resident V x \<longleftrightarrow> (\<forall>name b. storage x name = Some b \<longrightarrow> (\<exists>t. holds V (device (kernels x)) b t))"

lemma tensors_holds: "storage x name = Some b \<Longrightarrow> holds V (device (kernels x)) b t \<Longrightarrow> tensors V x name = Some t"
  by (simp add: tensors_def holds_def)

lemma residentD: "resident V x \<Longrightarrow> storage x name = Some b \<Longrightarrow>
    \<exists>t. holds V (device (kernels x)) b t \<and> tensors V x name = Some t"
  using tensors_holds unfolding resident_def by blast

text \<open>While a resource keeps its buffer and the device keeps its values, it keeps its tensor.\<close>

lemma same_tensor:
  assumes "resident V x" "intact V (device (kernels x)) (device (kernels y))" "storage y name = storage x name"
  shows "tensors V y name = tensors V x name"
proof (cases "storage x name")
  case None
  then show ?thesis using assms(3) by (simp add: tensors_def)
next
  case (Some b)
  from residentD [OF assms(1) this] obtain t where "holds V (device (kernels x)) b t" "tensors V x name = Some t"
    by blast
  then show ?thesis using assms(2,3) Some by (simp add: tensors_holds holds_intact)
qed

lemma same_tensors:
  assumes "resident V x" "intact V (device (kernels x)) (device (kernels y))" "storage y = storage x"
  shows "resident V y \<and> tensors V y = tensors V x"
  using assms same_tensor [OF assms(1,2)]
  by (auto simp: resident_def fun_eq_iff intro: holds_intact) (metis holds_intact)

lemma storage_updates [simp]:
  "storage (set_storage name b x) = (storage x)(name \<mapsto> b)" "kernels (set_storage name b x) = kernels x"
  "storage (drop_storage name x) = (storage x)(name := None)" "kernels (drop_storage name x) = kernels x"
  by (simp_all add: set_storage_def drop_storage_def)

lemma tensors_cong: "kernels y = kernels x \<Longrightarrow> storage y n = storage x n \<Longrightarrow> tensors V y n = tensors V x n"
  by (simp add: tensors_def split: option.split)

lemma put_tensor:
  assumes "resident V x" "intact V (device (kernels x)) (device (kernels y))" "storage y = storage x"
    and "holds V (device (kernels y)) b t"
  shows "resident V (set_storage name b y) \<and> tensors V (set_storage name b y) = (tensors V x)(name \<mapsto> t)"
proof -
  from same_tensors [OF assms(1-3)] have y: "resident V y" "tensors V y = tensors V x" by simp_all
  have "resident V (set_storage name b y)"
    using y(1) assms(4) by (auto simp: resident_def)
  moreover have "tensors V (set_storage name b y) n = ((tensors V x)(name \<mapsto> t)) n" for n
  proof (cases "n = name")
    case True
    then show ?thesis using assms(4) by (simp add: tensors_def holds_def)
  next
    case False
    then show ?thesis using y(2) tensors_cong [of "set_storage name b y" y n V] by simp
  qed
  ultimately show ?thesis by blast
qed

lemma drop_tensor:
  "resident V x \<Longrightarrow> resident V (drop_storage name x) \<and> tensors V (drop_storage name x) = (tensors V x)(name := None)"
  using tensors_cong [of "drop_storage name x" x] by (auto simp: resident_def fun_eq_iff) (simp add: tensors_def)

section \<open>Refinement\<close>

text \<open>
  An operation on the executor inside \<open>s\<close> refines an update \<open>f\<close> of the abstract store:
  when it succeeds the store is updated, when it fails it is as it was.
\<close>

definition refines :: "'d view \<Rightarrow> ('s \<Rightarrow> 'd executor) \<Rightarrow> ('s, 'e, 'a) exec \<Rightarrow>
    ((string \<Rightarrow> host_tensor option) \<Rightarrow> string \<Rightarrow> host_tensor option) \<Rightarrow> 's \<Rightarrow> bool" where
  "refines V get m f s \<longleftrightarrow> (case m s of (r, t) \<Rightarrow> resident V (get t) \<and>
     tensors V (get t) = (if isl r then tensors V (get s) else f (tensors V (get s))))"

lemma refines_map_err: "refines V get (map_err g m) f s = refines V get m f s"
  by (auto simp: refines_def map_err_def split: prod.splits sum.splits)

lemma kern_yields:
  assumes "yields V m Q (kernels x)" "kern m x = (r, y)"
  shows "intact V (device (kernels x)) (device (kernels y)) \<and> storage y = storage x \<and>
    (\<forall>b. r = Inr b \<longrightarrow> Q b (device (kernels y)))"
proof -
  obtain q k where m: "m (kernels x) = (q, k)" by fastforce
  then have y: "r = q" "y = x\<lparr>kernels := k\<rparr>" using assms(2) by (auto simp: kern_def inside_def)
  show ?thesis using assms(1) m y by (cases q) (auto simp: yields_def pre_def)
qed

text \<open>A Kernel operation that yields a buffer holding \<open>t\<close>, put under a name.\<close>

lemma refines_put:
  assumes "yields V m (\<lambda>b d. holds V d b t) (kernels x)" "resident V x"
  shows "refines V (\<lambda>x. x) (andthen (kern m) (\<lambda>b. modify (set_storage name b))) (\<lambda>S. S(name \<mapsto> t)) x"
proof -
  obtain r y where k: "kern m x = (r, y)" by fastforce
  note y = kern_yields [OF assms(1) k]
  show ?thesis
  proof (cases r)
    case (Inl e)
    then have "andthen (kern m) (\<lambda>b. modify (set_storage name b)) x = (Inl e, y)" by (simp add: andthen_def k)
    then show ?thesis using same_tensors [OF assms(2), of y] y by (simp add: refines_def)
  next
    case (Inr b)
    then have "andthen (kern m) (\<lambda>b. modify (set_storage name b)) x = (Inr (), set_storage name b y)"
      by (simp add: andthen_def k modify_def)
    then show ?thesis using put_tensor [OF assms(2), of y b t name] y Inr by (simp add: refines_def)
  qed
qed

lemma refines_same:
  assumes "yields V m Q (kernels x)" "resident V x"
  shows "refines V (\<lambda>x. x) (kern m) (\<lambda>S. S) x"
proof -
  obtain r y where k: "kern m x = (r, y)" by fastforce
  show ?thesis using same_tensors [OF assms(2), of y] kern_yields [OF assms(1) k] by (simp add: refines_def k)
qed

lemma refines_materializing: "refines V (\<lambda>x. x) m f x \<Longrightarrow> refines V (\<lambda>x. x) (materializing what m) f x"
  unfolding materializing_def by (auto simp: refines_def map_err_def split: prod.splits sum.splits)

text \<open>The admitted operations, on the executor beside the Memory Manager.\<close>

lemma refines_write_admitted:
  assumes "device_memory D V" "resident V x" "length (tdata t) < 2 ^ 64"
  shows "refines V fst (write_tensor_admitted D M name t cls owner) (\<lambda>S. S(name \<mapsto> t)) (x, mem)"
proof -
  obtain r mem' where a: "mm_allocate M (tensor_request x cls (data_len (tdata t) * 4) owner) mem = (r, mem')"
    by fastforce
  obtain q y where u: "kern (upload D t) x = (q, y)" by fastforce
  note y = kern_yields [OF yields_upload [OF assms(1,3)] u]
  show ?thesis
  proof (cases r)
    case (Inl e)
    then show ?thesis using a assms(2)
      by (simp add: write_tensor_admitted_def andthen_def gets_def on_memory_def inside_def refines_def)
  next
    case (Inr aid)
    show ?thesis
    proof (cases q)
      case (Inl e)
      then show ?thesis using a \<open>r = Inr aid\<close> u y same_tensors [OF assms(2), of y]
        by (simp add: write_tensor_admitted_def andthen_def gets_def on_memory_def inside_def refines_def)
    next
      case (Inr b)
      obtain z mem'' where o: "own_allocation M name aid (y, mem') = (z, mem'')" by fastforce
      then have "kernels z = kernels y" "storage z = storage y" by (auto simp: own_allocation_def)
      then show ?thesis using a \<open>r = Inr aid\<close> u y Inr o put_tensor [OF assms(2), of z b t name]
        by (simp add: write_tensor_admitted_def andthen_def gets_def on_memory_def inside_def refines_def)
    qed
  qed
qed

lemma refines_copy_admitted:
  assumes "device_memory D V" "resident V x"
  shows "refines V fst (copy_tensor_admitted D M source target cls owner) (\<lambda>S. S(target := S source)) (x, mem)"
proof -
  note defs = copy_tensor_admitted_def copy_admitted_def andthen_def on_executor_def on_memory_def inside_def
    gets_def modify_def ret_def refines_def map_err_def
  show ?thesis
  proof (cases "storage x source")
    case None
    then show ?thesis using assms(2) by (simp add: defs)
  next
    case (Some b)
    from residentD [OF assms(2) this] obtain t where t: "holds V (device (kernels x)) b t" "tensors V x source = Some t"
      by blast
    obtain q y where c: "kern (clone_buffer D b) x = (q, y)" by fastforce
    note y = kern_yields [OF yields_clone [OF assms(1) t(1)] c]
    show ?thesis
    proof (cases q)
      case (Inl e)
      then show ?thesis using Some c y same_tensors [OF assms(2), of y] by (simp add: defs materializing_def)
    next
      case (Inr b')
      obtain r mem' where a: "mm_allocate M (tensor_request y cls (buffer_len b' * 4) owner) mem = (r, mem')"
        by fastforce
      show ?thesis
      proof (cases r)
        case (Inl e)
        then show ?thesis using Some c y Inr a same_tensors [OF assms(2), of y] by (simp add: defs materializing_def)
      next
        case (Inr aid)
        obtain z mem'' where o: "own_allocation M target aid (y, mem') = (z, mem'')" by fastforce
        then have "kernels z = kernels y" "storage z = storage y" by (auto simp: own_allocation_def)
        then show ?thesis using Some c y \<open>q = Inr b'\<close> a Inr o t(2) put_tensor [OF assms(2), of z b' t target]
          by (simp add: defs materializing_def)
      qed
    qed
  qed
qed

section \<open>Reads\<close>

lemma kern_fetches:
  assumes "fetches V ok m v (kernels x)" "kern m x = (r, y)"
  shows "intact V (device (kernels x)) (device (kernels y)) \<and> storage y = storage x \<and>
    (\<forall>w. r = Inr w \<longrightarrow> w = v) \<and> (isl r \<longrightarrow> \<not> ok)"
proof -
  obtain q k where m: "m (kernels x) = (q, k)" by fastforce
  then have y: "r = q" "y = x\<lparr>kernels := k\<rparr>" using assms(2) by (auto simp: kern_def inside_def)
  show ?thesis using assms(1) m y by (cases q) (auto simp: fetches_def pre_def)
qed

lemma read_tensor_cases:
  assumes M: "device_memory D V" and H: "host_checked D" and x: "resident V x"
  shows "case read_tensor D name x of (found, y) \<Rightarrow> resident V y \<and> tensors V y = tensors V x \<and>
    (found = None \<or> found = tensors V x name) \<and>
    (\<forall>t. tensors V x name = Some t \<longrightarrow> readable D (kernels x) t \<longrightarrow> found = Some t)"
proof (cases "storage x name")
  case None
  then show ?thesis using x by (simp add: read_tensor_def tensors_def)
next
  case (Some b)
  from residentD [OF x this] obtain t where t: "holds V (device (kernels x)) b t" "tensors V x name = Some t" by blast
  obtain r y where d: "kern (download D b) x = (r, y)" by fastforce
  note y = kern_fetches [OF fetches_download [OF M H t(1)] d]
  show ?thesis using Some d y t(2) same_tensors [OF x, of y]
    by (cases r) (auto simp: read_tensor_def)
qed

lemma whole_rows_of:
  assumes H: "host_checked D" and t: "rectangular t n cols" and le: "unat first_row + unat rows \<le> unat n"
  shows "whole_rows D first_row rows t = None \<or> whole_rows D first_row rows t = Some (rows_of t cols first_row rows)"
    and "\<not> isl (host_new D [rows, cols] (tdata (rows_of t cols first_row rows))) \<Longrightarrow>
      whole_rows D first_row rows t = Some (rows_of t cols first_row rows)"
proof -
  note range = row_range [OF t le]
  have "get_range (tdata t) (first_row * cols) ((first_row + rows) * cols) = Some (tdata (rows_of t cols first_row rows))"
    using range by (simp add: get_range_def rows_of_def word_le_nat_alt add_mult_distrib)
  then have w: "whole_rows D first_row rows t =
      (case host_new D [rows, cols] (tdata (rows_of t cols first_row rows)) of Inl _ \<Rightarrow> None | Inr t \<Rightarrow> Some t)"
    using t by (simp add: whole_rows_def rectangular_def Let_def)
  have new: "t' = rows_of t cols first_row rows"
    if "host_new D [rows, cols] (tdata (rows_of t cols first_row rows)) = Inr t'" for t'
    using H that by (auto simp: host_checked_def rows_of_def)
  show "whole_rows D first_row rows t = None \<or> whole_rows D first_row rows t = Some (rows_of t cols first_row rows)"
    using w new by (auto split: sum.split)
  assume "\<not> isl (host_new D [rows, cols] (tdata (rows_of t cols first_row rows)))"
  then show "whole_rows D first_row rows t = Some (rows_of t cols first_row rows)"
    using w new by (auto split: sum.split)
qed

lemma capture_download: "capture k = None \<Longrightarrow> capture (snd (download_rows D b first_row rows k)) = None"
  using keepsD [OF keeps_download_rows [of "\<lambda>_. True" D b first_row rows] prod.collapse [symmetric], of k]
  by (simp add: frame_le_def capture_le_def)

text \<open>An error that is only renamed changes nothing.\<close>

lemma refines_materializing_put:
  "refines V (\<lambda>x. x) (andthen (materializing what m) (\<lambda>b. modify (g b))) f x =
   refines V (\<lambda>x. x) (andthen m (\<lambda>b. modify (g b))) f x"
  by (simp add: refines_def andthen_def materializing_def map_err_def modify_def split: prod.split sum.split)

text \<open>C7. The executor's storage refines a map from names to host tensors. With a device memory
  that keeps its documented contract, each tensor operation that succeeds is an update of that map:
  a write, a weight write (compact or not) and an admitted write put the tensor, a zeroed write puts
  zeros, a copy puts the source's tensor under the target's name, a release drops one. One that
  fails, wherever the driver fails in it, leaves the map as it was. A read returns the tensor of the
  map or nothing, and the tensor for sure when the driver's reads succeed outside a capture.\<close>
theorem tensor_store_refinement:
  assumes "device_memory D V" "host_checked D" "resident V x" "length (tdata t) < 2 ^ 64"
  shows "refines V (\<lambda>x. x) (write_tensor D name t) (\<lambda>S. S(name \<mapsto> t)) x \<and>
    refines V (\<lambda>x. x) (write_weight_tensor D name t) (\<lambda>S. S(name \<mapsto> t)) x \<and>
    refines V (\<lambda>x. x) (write_zeroed_tensor D name sh)
      (\<lambda>S. S(name \<mapsto> \<lparr>tshape = sh, tdata = replicate (unat (shape_len sh)) 0\<rparr>)) x \<and>
    refines V fst (write_tensor_admitted D M name t cls owner) (\<lambda>S. S(name \<mapsto> t)) (x, mem) \<and>
    refines V fst (copy_tensor_admitted D M source name cls owner) (\<lambda>S. S(name := S source)) (x, mem) \<and>
    (case release_tensor name x of (was, y) \<Rightarrow> resident V y \<and> was = (tensors V x name \<noteq> None) \<and>
       tensors V y = (tensors V x)(name := None)) \<and>
    (case read_tensor D name x of (found, y) \<Rightarrow> resident V y \<and> tensors V y = tensors V x \<and>
       (found = None \<or> found = tensors V x name) \<and>
       (\<forall>t. tensors V x name = Some t \<longrightarrow> readable D (kernels x) t \<longrightarrow> found = Some t))"
proof -
  note put = refines_put [OF _ assms(3)]
  have zero: "refines V (\<lambda>x. x) (write_zeroed_tensor D name sh)
      (\<lambda>S. S(name \<mapsto> \<lparr>tshape = sh, tdata = replicate (unat (shape_len sh)) 0\<rparr>)) x"
    unfolding write_zeroed_tensor_def refines_materializing_put by (rule put [OF yields_zeros [OF assms(1)]])
  have dropped: "case release_tensor name x of (was, y) \<Rightarrow> resident V y \<and> was = (tensors V x name \<noteq> None) \<and>
      tensors V y = (tensors V x)(name := None)"
    using drop_tensor [OF assms(3), of name] residentD [OF assms(3), of name]
    by (cases "storage x name") (auto simp: release_tensor_def tensors_def)
  show ?thesis
    unfolding write_tensor_def write_weight_tensor_def
    by (intro conjI) (rule put yields_upload yields_upload_weight zero dropped refines_write_admitted
        refines_copy_admitted read_tensor_cases assms)+
qed

text \<open>C15. Reading rows of a tensor reads those rows, whichever way it goes: from the buffer itself, or,
  when the buffer is compact, from the whole tensor that is downloaded and sliced. For a range inside
  the tensor the two routes agree, nothing is changed, and the rows are returned for sure when the
  driver's reads succeed outside a capture.\<close>
theorem read_tensor_rows_exact:
  assumes M: "device_memory D V" and H: "host_checked D" and x: "resident V x"
    and t: "tensors V x name = Some t" "rectangular t n cols" and le: "unat first_row + unat rows \<le> unat n"
  shows "case read_tensor_rows D name first_row rows x of (found, y) \<Rightarrow>
    resident V y \<and> tensors V y = tensors V x \<and>
    (found = None \<or> found = Some (rows_of t cols first_row rows)) \<and>
    (readable D (kernels x) t \<and> readable D (kernels x) (rows_of t cols first_row rows) \<longrightarrow>
       found = Some (rows_of t cols first_row rows))"
proof -
  obtain b where b: "storage x name = Some b" using t(1) by (auto simp: tensors_def split: option.splits)
  have h: "holds V (device (kernels x)) b t" using residentD [OF x b] t(1) by auto
  obtain r y where r: "kern (download_rows D b first_row rows) x = (r, y)" by fastforce
  note y = kern_fetches [OF fetches_download_rows [OF M H h t(2) le] r]
  have y': "resident V y" "tensors V y = tensors V x" using same_tensors [OF x, of y] y by simp_all
  consider "isl r" | "r = Inr (Some (rows_of t cols first_row rows))" | "r = Inr None" "is_compact b"
    using y by (cases r) (auto split: if_splits)
  then show ?thesis
  proof cases
    case 1
    then show ?thesis using b r y y' by (cases r) (auto simp: read_tensor_rows_def)
  next
    case 2
    then show ?thesis using b r y' by (simp add: read_tensor_rows_def)
  next
    case 3
    obtain q z where q: "kern (download D b) y = (q, z)" by fastforce
    have "holds V (device (kernels y)) b t" by (rule holds_intact [OF _ h]) (use y in simp)
    note z = kern_fetches [OF fetches_download [OF M H this] q]
    have z': "resident V z" "tensors V z = tensors V x" using same_tensors [OF y'(1), of z] y'(2) z by simp_all
    have "kernels y = snd (download_rows D b first_row rows (kernels x))" using r by (auto simp: kern_def inside_def split: prod.splits)
    then have ok: "readable D (kernels x) t \<Longrightarrow> readable D (kernels y) t"
      using capture_download by (auto simp: readable_def)
    note w = whole_rows_of [OF H t(2) le]
    show ?thesis
    proof (cases q)
      case (Inl e)
      then show ?thesis using b r q 3 z z' ok by (auto simp: read_tensor_rows_def)
    next
      case (Inr t')
      then have "read_tensor_rows D name first_row rows x = (whole_rows D first_row rows t, z)"
        using b r q 3 z by (simp add: read_tensor_rows_def)
      then show ?thesis using w z' by (auto simp: readable_def rows_of_def)
    qed
  qed
qed

section \<open>Concrete cases\<close>

definition empty_store :: "heap executor" where
  "empty_store = new_executor (new_kernels \<lparr>h_f32 = (\<lambda>_. None), h_u16 = (\<lambda>_. None), h_next = 1\<rparr> False) ''cuda:0'' ''p''"

definition demo_tensor :: host_tensor where
  "demo_tensor = \<lparr>tshape = [2, 2], tdata = [10, 20, 30, 40]\<rparr>"

definition one_tensor :: "heap executor" where
  "one_tensor = snd (write_tensor heap_device ''a'' demo_tensor empty_store)"

lemma host_checked_heap: "host_checked heap_device"
  by (auto simp: host_checked_def heap_device_def sim_host_def wf_host_def shape_len_def split: if_splits)

lemma reads_succeed_heap: "reads_succeed heap_device"
  by (simp add: reads_succeed_def heap_device_def ret_def)

lemmas heap_run = one_tensor_def write_tensor_def empty_store_def new_executor_def new_kernels_def kern_def inside_def
  upload_def andthen_def forbid_in_capture_def drv_def map_err_def heap_device_def heap_alloc_f32_def may_alloc_def
  count_upload_def modify_def ret_def demo_tensor_def set_storage_def

lemma one_tensor_facts:
  "resident heap_view empty_store" "fst (write_tensor heap_device ''a'' demo_tensor empty_store) = Inr ()"
  "readable heap_device (kernels one_tensor) demo_tensor"
  "readable heap_device (kernels one_tensor) (rows_of demo_tensor 2 1 1)"
proof -
  show "resident heap_view empty_store" by (simp add: resident_def empty_store_def new_executor_def)
  show "fst (write_tensor heap_device ''a'' demo_tensor empty_store) = Inr ()" by (simp add: heap_run)
  have c: "capture (kernels one_tensor) = None" by (simp add: heap_run)
  then show "readable heap_device (kernels one_tensor) demo_tensor"
    "readable heap_device (kernels one_tensor) (rows_of demo_tensor 2 1 1)"
    using reads_succeed_heap
    by (simp_all add: readable_def rows_of_def heap_device_def sim_host_def demo_tensor_def)
qed

lemma one_tensor_put:
  assumes "refines heap_view (\<lambda>x. x) (write_tensor heap_device ''a'' demo_tensor) (\<lambda>S. S(''a'' \<mapsto> demo_tensor)) empty_store"
  shows "resident heap_view one_tensor" "tensors heap_view one_tensor = [''a'' \<mapsto> demo_tensor]"
proof -
  have run: "write_tensor heap_device ''a'' demo_tensor empty_store = (Inr (), one_tensor)"
    using one_tensor_facts(2) unfolding one_tensor_def by (rule run_eq)
  have "tensors heap_view empty_store = (\<lambda>_. None)"
    by (simp add: tensors_def empty_store_def new_executor_def fun_eq_iff)
  then show "resident heap_view one_tensor" "tensors heap_view one_tensor = [''a'' \<mapsto> demo_tensor]"
    using assms by (simp_all add: refines_def run)
qed

lemma demo_tensor_small: "length (tdata demo_tensor) < 2 ^ 64"
  by (simp add: demo_tensor_def)

theorem tensor_store_refinement_witness:
  "tensors heap_view one_tensor = [''a'' \<mapsto> demo_tensor] \<and>
   fst (read_tensor heap_device ''a'' one_tensor) = Some demo_tensor"
proof -
  note store = tensor_store_refinement [OF heap_device_memory host_checked_heap _ demo_tensor_small,
      where name = "''a''" and sh = "[]" and M = demo_memory and cls = "''t''" and owner = "''t''" and source = "''a''"
        and mem = "[]"]
  note put = one_tensor_put [OF store [OF one_tensor_facts(1), THEN conjunct1]]
  show ?thesis using store [OF put(1)] put(2) one_tensor_facts(3) by (auto split: prod.splits)
qed

theorem read_tensor_rows_exact_witness:
  "fst (read_tensor_rows heap_device ''a'' 1 1 one_tensor) = Some \<lparr>tshape = [1, 2], tdata = [30, 40]\<rparr>"
proof -
  have "refines heap_view (\<lambda>x. x) (write_tensor heap_device ''a'' demo_tensor) (\<lambda>S. S(''a'' \<mapsto> demo_tensor)) empty_store"
    unfolding write_tensor_def
    by (rule refines_put [OF yields_upload [OF heap_device_memory demo_tensor_small] one_tensor_facts(1)])
  note put = one_tensor_put [OF this]
  have x: "tensors heap_view one_tensor ''a'' = Some demo_tensor" using put(2) by simp
  have "rectangular demo_tensor 2 2" "unat (1 :: u64) + unat (1 :: u64) \<le> unat (2 :: u64)"
    by (simp_all add: rectangular_def demo_tensor_def)
  from read_tensor_rows_exact [OF heap_device_memory host_checked_heap put(1) x this] one_tensor_facts(3,4)
  show ?thesis by (auto simp: rows_of_def demo_tensor_def split: prod.splits)
qed

text \<open>
  Outside the tensor nothing is promised: the fallback computes its range in wrapping \<open>u64\<close>
  arithmetic, and a first row of \<open>2 ^ 63\<close> of a tensor with two columns reads row zero.
\<close>

lemma whole_rows_wraps:
  "whole_rows heap_device 0x8000000000000000 1 demo_tensor = Some \<lparr>tshape = [1, 2], tdata = [10, 20]\<rparr>"
  by (simp add: whole_rows_def get_range_def demo_tensor_def heap_device_def sim_host_def)

end
