(* ===== verification/Simulated_Compute.thy ===== *)
theory Simulated_Compute
  imports Kernel_Results Tensor_Store
begin

text \<open>
  The Device with memory of \<open>Simulated_Memory\<close>, with launches that run the modelled threads one
  after the other and copies between allocations: an instance of everything the elementwise
  Operators rely on, and a dispatch on it.
\<close>

definition heap_blocks :: "heap \<Rightarrow> memory \<Rightarrow> nat \<Rightarrow> f32 list option" where
  "heap_blocks h m k = (case look (h_f32 h) (address_of k) of Some _ \<Rightarrow> m (address_of k) | None \<Rightarrow> h_f32 h k)"

definition all_threads :: "launch_config \<Rightarrow> (nat \<times> nat) list" where
  "all_threads cfg = List.product [0..<unat (fst (grid_dim cfg))] [0..<unat (fst (block_dim cfg))]"

definition heap_launch :: "device_float \<Rightarrow> launch \<Rightarrow> (heap, cu_result, unit) exec" where
  "heap_launch F L = (\<lambda>h. case device_thread F (look (h_u16 h)) (function_name L) (kargs L) of
     None \<Rightarrow> (Inr (), h)
   | Some f \<Rightarrow>
       (case run_threads f (map (thread_index (config L)) (all_threads (config L))) (look (h_f32 h)) of
          None \<Rightarrow> (Inl (CUDA_OTHER 1), h)
        | Some m \<Rightarrow> (Inr (), h\<lparr>h_f32 := heap_blocks h m\<rparr>)))"

definition heap_move :: "cuda_slice \<Rightarrow> u64 \<Rightarrow> (heap, cu_result, unit) exec" where
  "heap_move s a = (\<lambda>h. case (look (h_f32 h) (ptr s), small (h_f32 h (block_of a))) of
       (Some xs, Some ys) \<Rightarrow>
         (let i = offset_of a div 4 in
          if i + length xs \<le> length ys
          then (Inr (), h\<lparr>h_f32 := (h_f32 h)(block_of a \<mapsto> take i ys @ xs @ drop (i + length xs) ys)\<rparr>)
          else (Inl (CUDA_OTHER 1), h))
     | _ \<Rightarrow> (Inl (CUDA_OTHER 1), h))"

definition one_block_each :: "u32 \<Rightarrow> launch_config" where
  "one_block_each n = \<lparr>grid_dim = (n, 1, 1), block_dim = (1, 1, 1), shared_mem_bytes = 0\<rparr>"

definition compute_device :: "device_float \<Rightarrow> heap external" where
  "compute_device F = heap_device\<lparr>cu_launch := heap_launch F, cu_memcpy_dtod := heap_move, for_num_elems := one_block_each\<rparr>"

section \<open>It keeps the contracts\<close>

lemma compute_device_memory: "device_memory (compute_device F) heap_view"
  using heap_device_memory by (simp add: device_memory_def compute_device_def)

lemma compute_host_checked: "host_checked (compute_device F)"
  using host_checked_heap by (simp add: host_checked_def compute_device_def)

text \<open>A thread keeps every allocation and its length.\<close>

definition same_sizes :: "memory \<Rightarrow> memory \<Rightarrow> bool" where
  "same_sizes h h' \<longleftrightarrow> (\<forall>p. map_option length (h' p) = map_option length (h p))"

lemma same_sizes_refl [simp]: "same_sizes h h"
  by (simp add: same_sizes_def)

lemma mem_store_sizes: "mem_store h p i v = Some h' \<Longrightarrow> same_sizes h h'"
  by (auto simp: mem_store_def same_sizes_def split: option.splits if_splits)

lemma bind_sizes: "(\<And>v. f v = Some h' \<Longrightarrow> same_sizes h h') \<Longrightarrow> Option.bind r f = Some h' \<Longrightarrow> same_sizes h h'"
  by (cases r) simp_all

lemma two_stores_sizes:
  assumes "Option.bind (mem_store h p i v) (\<lambda>h. mem_store h p j w) = Some h'"
  shows "same_sizes h h'"
proof -
  obtain h1 where "mem_store h p i v = Some h1" "mem_store h1 p j w = Some h'"
    using assms by (auto simp: bind_eq_Some_conv)
  from this [THEN mem_store_sizes] show ?thesis by (simp add: same_sizes_def)
qed

lemma rope_sizes:
  assumes "rope_kernel F a out rows cols half base scale dim off heads split bands i h = Some h'"
  shows "same_sizes h h'"
proof (cases "rows * (heads * half) \<le> i")
  case False
  show ?thesis using assms unfolding rope_kernel_def Let_def if_not_P [OF False]
    by (elim bind_sizes [rotated, where r = "mem_load h a p" for p]) (rule two_stores_sizes)
qed (use assms in \<open>simp add: rope_kernel_def Let_def\<close>)

lemma thread_sizes:
  assumes "device_thread F g name args = Some f" "f i h = Some h'"
  shows "same_sizes h h'"
proof -
  have k: "add_kernel F a b out n i h = Some h' \<Longrightarrow> same_sizes h h'"
    "mul_kernel F a b out n i h = Some h' \<Longrightarrow> same_sizes h h'"
    "silu_mul_kernel F a b out n i h = Some h' \<Longrightarrow> same_sizes h h'"
    "silu_kernel F a out n i h = Some h' \<Longrightarrow> same_sizes h h'"
    "bias_add_kernel F a b out c n i h = Some h' \<Longrightarrow> same_sizes h h'"
    "kv_write_kernel a b n w off i h = Some h' \<Longrightarrow> same_sizes h h'"
    "matmul_kernel F g a b out m kk n ars ais bis bcs b16 i h = Some h' \<Longrightarrow> same_sizes h h'"
    for a b out n c w off m kk ars ais bis bcs b16
    unfolding add_kernel_def mul_kernel_def silu_mul_kernel_def silu_kernel_def bias_add_kernel_def
      kv_write_kernel_def matmul_kernel_def Let_def
    by (auto split: if_splits elim!: bind_sizes [rotated] dest: mem_store_sizes)
  show ?thesis using assms
    by (auto simp: device_thread_def rope_thread_def k rope_sizes split: list.splits karg.splits if_splits)
qed

lemma run_sizes:
  assumes "device_thread F g name args = Some f"
  shows "run_threads f order h = Some h' \<Longrightarrow> same_sizes h h'"
proof (induction order arbitrary: h)
  case Nil
  then show ?case by (simp add: run_threads_def same_sizes_def)
next
  case (Cons i order)
  then obtain h1 where "f i h = Some h1" "run_threads f order h1 = Some h'"
    by (auto simp: run_threads_Cons bind_eq_Some_conv)
  then show ?case using thread_sizes [OF assms] Cons.IH by (fastforce simp: same_sizes_def)
qed

lemma address_of_block: "offset_of p = 0 \<Longrightarrow> address_of (block_of p) = p"
  by (simp add: address_of_def block_of_def offset_of_def mod_0_imp_dvd)

lemma look_heap_blocks:
  assumes "same_sizes (look (h_f32 h)) m"
  shows "look (heap_blocks h m) = m"
proof
  fix p
  have s: "map_option length (m p) = map_option length (look (h_f32 h) p)" using assms by (simp add: same_sizes_def)
  show "look (heap_blocks h m) p = m p"
  proof (cases "look (h_f32 h) p")
    case None
    then show ?thesis using s address_of_block [of p] by (auto simp: look_def heap_blocks_def split: if_splits)
  next
    case (Some xs)
    note x = look_Some [OF Some]
    obtain ys where ys: "m p = Some ys" "length ys = length xs" using s Some by auto
    have "heap_blocks h m (block_of p) = Some ys"
      using Some ys(1) address_of_block [of p] x by (simp add: heap_blocks_def)
    then show ?thesis using x ys by (simp add: look_def small_def)
  qed
qed

lemma heap_launches: "launches heap_view (\<lambda>_. True) F (heap_launch F L) L"
  unfolding launches_def
proof (intro allI impI)
  fix f and d :: heap
  assume "device_thread F (u16_at heap_view d) (function_name L) (kargs L) = Some f"
    and one: "snd (grid_dim (config L)) = (1, 1)" "snd (block_dim (config L)) = (1, 1)"
  then have f: "device_thread F (look (h_u16 d)) (function_name L) (kargs L) = Some f" by (simp add: heap_view_def)
  let ?order = "all_threads (config L)"
  have order: "schedule (config L) ?order"
    using one by (auto simp: schedule_def all_threads_def distinct_product)
  show "case heap_launch F L d of (r, d') \<Rightarrow> u16_at heap_view d' = u16_at heap_view d \<and>
      (case r of Inl _ \<Rightarrow> f32_at heap_view d' = f32_at heap_view d
       | Inr _ \<Rightarrow> \<exists>order. schedule (config L) order \<and> (\<forall>h. run_threads f (map (thread_index (config L)) order)
           (f32_at heap_view d) = Some h \<longrightarrow> f32_at heap_view d' = h))"
  proof (cases "run_threads f (map (thread_index (config L)) ?order) (look (h_f32 d))")
    case None
    then show ?thesis using f by (simp add: heap_launch_def)
  next
    case (Some m)
    have "look (heap_blocks d m) = m" by (rule look_heap_blocks [OF run_sizes [OF f Some]])
    then show ?thesis using f Some order by (auto simp: heap_launch_def heap_view_def)
  qed
qed

lemma heap_move_law: "copies heap_view (\<lambda>_. True) (heap_move s (q + of_nat (4 * i))) s q i"
  unfolding copies_def
proof (intro allI impI)
  fix d :: heap and xs ys
  assume xs: "f32_at heap_view d (ptr s) = Some xs" and ys: "f32_at heap_view d q = Some ys" "i + length xs \<le> length ys"
  from ys have q: "offset_of q = 0" "small (h_f32 d (block_of q)) = Some ys" "length ys < 1073741824" "q \<noteq> 0"
    using look_Some [of "h_f32 d" q ys] by (simp_all add: heap_view_def)
  have a: "block_of (q + of_nat (4 * i)) = block_of q" "offset_of (q + of_nat (4 * i)) = 4 * i"
    using block_shift [OF q(1), of "4 * i"] ys(2) q(3) by simp_all
  let ?new = "take i ys @ xs @ drop (i + length xs) ys"
  have run: "heap_move s (q + of_nat (4 * i)) d = (Inr (), d\<lparr>h_f32 := (h_f32 d)(block_of q \<mapsto> ?new)\<rparr>)"
    unfolding heap_move_def a using q(2) ys(2) xs by (simp add: Let_def heap_view_def)
  have at: "look ((h_f32 d)(block_of q \<mapsto> ?new)) q = Some ?new" using q ys(2) by (simp add: look_def small_def)
  have others: "look ((h_f32 d)(block_of q \<mapsto> ?new)) p = look (h_f32 d) p" if "p \<noteq> q" for p
    using block_inj [of p q] q(1) that by (auto simp: look_def)
  show "case heap_move s (q + of_nat (4 * i)) d of (r, d') \<Rightarrow> u16_at heap_view d' = u16_at heap_view d \<and>
      (\<forall>p. p \<noteq> q \<longrightarrow> f32_at heap_view d' p = f32_at heap_view d p) \<and> (r = Inr () \<longrightarrow> f32_at heap_view d' q = Some ?new)"
    unfolding run using at others by (simp add: heap_view_def)
qed

lemma compute_device_computes: "device_computes (compute_device F) heap_view (\<lambda>_. True) F"
proof -
  have any: "alloc_any heap_view (cu_alloc (compute_device F) F32 n) (unat n)" for n
    using heap_allocs(1) [of "replicate (unat n) 0"]
    by (auto simp: alloc_any_def alloc_f32_def compute_device_def heap_device_def split: prod.splits)
      (metis length_replicate)
  have "u16_at heap_view d 0 = None" for d by (simp add: heap_view_def look_def)
  then show ?thesis
    unfolding device_computes_def using any heap_launches heap_move_law
    by (simp add: compute_device_def stays_def covers_def one_block_each_def)
      (simp add: heap_device_def only_reads_def ret_def)
qed

section \<open>Evaluation\<close>

text \<open>The same in bits and integers, for evaluation.\<close>

lemma block_of_code [code]: "block_of p = unat (drop_bit 32 p)"
  by (simp add: block_of_def drop_bit_eq_div unat_div)

lemma offset_of_code [code]: "offset_of p = unat (take_bit 32 p)"
  by (simp add: offset_of_def take_bit_eq_mod unat_mod)

lemma address_of_code [code]: "address_of k = push_bit 32 (of_nat k)"
  by (simp add: address_of_def push_bit_eq_mult)

lemma small_code [code]:
  "small r = (case r of None \<Rightarrow> None | Some xs \<Rightarrow> if int (length xs) < 1073741824 then Some xs else None)"
  by (simp add: small_def split: option.split)

lemma may_alloc_code [code]:
  "may_alloc m k xs \<longleftrightarrow> 0 < k \<and> int k < 2147483648 \<and> m k = None \<and> int (length xs) < 1073741824"
  by (auto simp: may_alloc_def)

end
