(* ===== verification/Matmul_Results.thy ===== *)
theory Matmul_Results
  imports Kernel_Results
begin

text \<open>
  The product of two matrices by \<open>matmul_kernel\<close>, one thread per element: what its threads leave
  in memory is the product of the tensors, added up in the kernel's order, also when the right matrix
  is compact.
\<close>

section \<open>Products of tensors\<close>

text \<open>The entry of a matrix, or of its transpose, and a row times a column in ascending order.\<close>

definition entry :: "bool \<Rightarrow> nat \<Rightarrow> f32 list \<Rightarrow> nat \<Rightarrow> nat \<Rightarrow> f32" where
  "entry flip cols xs r c = xs ! (if flip then c * cols + r else r * cols + c)"

definition dot :: "device_float \<Rightarrow> (nat \<Rightarrow> f32) \<Rightarrow> (nat \<Rightarrow> f32) \<Rightarrow> nat \<Rightarrow> f32" where
  "dot F x y n = foldl (\<lambda>acc i. f_mac F acc (x i) (y i)) 0 [0..<n]"

definition product_of :: "device_float \<Rightarrow> bool \<Rightarrow> bool \<Rightarrow> u64 \<Rightarrow> u64 \<Rightarrow> f32 list \<Rightarrow> f32 list \<Rightarrow> u64 \<Rightarrow> u64 \<Rightarrow> u64 \<Rightarrow> host_tensor" where
  "product_of F flip_a flip_b a_cols b_cols xs ys m k n = \<lparr>tshape = [m, n],
     tdata = map (\<lambda>j. dot F (entry flip_a (unat a_cols) xs (j div unat n))
       (\<lambda>i. entry flip_b (unat b_cols) ys i (j mod unat n)) (unat k)) [0..<unat m * unat n]\<rparr>"

definition tensor_matmul :: "device_float \<Rightarrow> bool \<Rightarrow> bool \<Rightarrow> host_tensor \<Rightarrow> host_tensor \<Rightarrow> host_tensor option" where
  "tensor_matmul F flip_a flip_b a b = (case (tshape a, tshape b) of
     ([a_rows, a_cols], [b_rows, b_cols]) \<Rightarrow>
       (let (m, k) = (if flip_a then (a_cols, a_rows) else (a_rows, a_cols));
            (k2, n) = (if flip_b then (b_cols, b_rows) else (b_rows, b_cols))
        in if k = k2 then Some (product_of F flip_a flip_b a_cols b_cols (tdata a) (tdata b) m k n) else None)
   | _ \<Rightarrow> None)"

section \<open>One thread\<close>

lemma matmul_sum_dot:
  assumes "\<And>i. i < unat k \<Longrightarrow> av (of_nat i) = Some (x i)" "\<And>i. i < unat k \<Longrightarrow> bv (of_nat i) = Some (y i)"
  shows "matmul_sum F av bv k = Some (dot F x y (unat k))"
proof -
  have "foldl (\<lambda>r inner. Option.bind r (\<lambda>acc. Option.bind (av (of_nat inner)) (\<lambda>x.
      Option.bind (bv (of_nat inner)) (\<lambda>y. Some (f_mac F acc x y))))) (Some 0) [0..<n] = Some (dot F x y n)"
    if "n \<le> unat k" for n
    using that
  proof (induction n)
    case 0
    then show ?case by (simp add: dot_def)
  next
    case (Suc n)
    then show ?case using assms [of n] by (simp add: dot_def)
  qed
  then show ?thesis by (simp add: matmul_sum_def)
qed

lemma strided:
  fixes x s y :: u64
  assumes "unat x * unat s + unat y < 2 ^ 64"
  shows "unat (x * s + y) = unat x * unat s + unat y" "unat (y + x * s) = unat x * unat s + unat y"
proof -
  show "unat (x * s + y) = unat x * unat s + unat y"
    using assms unat_mult_u64 [of x s] unat_add_u64 [of "x * s" y] by simp
  then show "unat (y + x * s) = unat x * unat s + unat y" by (simp only: add.commute)
qed

lemma matrix_index: "r < R \<Longrightarrow> c < C \<Longrightarrow> r * C + c < R * (C :: nat)"
proof -
  assume "r < R" "c < C"
  then have "r * C + c < Suc r * C" by simp
  also have "\<dots> \<le> R * C" using \<open>r < R\<close> by (intro mult_le_mono1) simp
  finally show ?thesis .
qed

text \<open>An entry is where the kernel reads it.\<close>

lemma entry_load:
  fixes r i rows cols :: u64
  assumes load: "\<And>j. unat j < length xs \<Longrightarrow> load j = Some (xs ! unat j)"
    and size: "unat rows * unat cols = length xs" "length xs < 2 ^ 64"
    and at: "unat r < unat (if flip then cols else rows)" "unat i < unat (if flip then rows else cols)"
  shows "load (r * (if flip then 1 else cols) + i * (if flip then cols else 1)) = Some (entry flip (unat cols) xs (unat r) (unat i))"
proof (cases flip)
  case True
  then have lt: "unat i * unat cols + unat r < length xs" using matrix_index [of "unat i" "unat rows" "unat r" "unat cols"] at size by simp
  then have "unat (r + i * cols) = unat i * unat cols + unat r" using strided(2) [of i cols r] size(2) by simp
  then show ?thesis using load [of "r + i * cols"] lt True by (simp add: entry_def)
next
  case False
  then have lt: "unat r * unat cols + unat i < length xs" using matrix_index [of "unat r" "unat rows" "unat i" "unat cols"] at size by simp
  then have "unat (r * cols + i) = unat r * unat cols + unat i" using strided(1) [of r cols i] size(2) by simp
  then show ?thesis using load [of "r * cols + i"] lt False by (simp add: entry_def)
qed

text \<open>The right matrix is read from whichever allocation holds it.\<close>

lemma null_law: "device_computes D V X F \<Longrightarrow> X d \<Longrightarrow> u16_at V d 0 = None"
  by (simp add: device_computes_def)

lemma weight_feeds:
  assumes C: "device_computes D V X F" "X (device k)" and b: "feeds V k b t"
    and g: "u16_at V (device k) \<subseteq>\<^sub>m g"
    and h: "\<And>p. f32_at V (device k) p \<noteq> None \<Longrightarrow> p \<notin> offers k \<Longrightarrow> h p = f32_at V (device k) p"
    and j: "unat j < length (tdata t)"
  shows "weight_load h g (ptr (buf_slice b)) (bf16_address b) j = Some (tdata t ! unat j)"
proof (cases "bf16 b")
  case None
  then show ?thesis using feeds_plain(1,2) [OF b None] h [of "ptr (buf_slice b)"] j
    by (simp add: weight_load_def bf16_address_def mem_load_def)
next
  case (Some s)
  then obtain bs where bs: "u16_at V (device k) (ptr s) = Some bs" "tdata t = map bf16_to_f32 bs"
    using b by (auto simp: feeds_def holds_def content_def)
  then have "ptr s \<noteq> 0" using null_law [OF C] by auto
  moreover have "g (ptr s) = Some bs" using bs(1) g by (metis map_le_def domI)
  ultimately show ?thesis using Some bs(2) j by (simp add: weight_load_def bf16_address_def half_load_def)
qed

section \<open>The Kernel\<close>

lemma matmul_threads:
  assumes C: "device_computes D V X F" "X (device k)" and a: "feeds V k a ta" "bf16 a = None" and b: "feeds V k b tb"
    and ta: "rectangular ta (if flip then kk else m) cols" "cols = (if flip then m else kk)"
    and tb: "rectangular tb n kk" and small: "unat m * unat n < 2 ^ 64"
    and g: "u16_at V (device k) \<subseteq>\<^sub>m g"
    and h: "\<And>p. f32_at V (device k) p \<noteq> None \<Longrightarrow> p \<notin> offers k \<Longrightarrow> p \<noteq> out \<and> h p = f32_at V (device k) p"
  shows "pointwise (m * n) out id
    (\<lambda>idx. dot F (entry flip (unat cols) (tdata ta) (unat idx div unat n))
      (\<lambda>i. entry True (unat kk) (tdata tb) i (unat idx mod unat n)) (unat kk)) h
    (matmul_kernel F g (ptr (buf_slice a)) (ptr (buf_slice b)) out m kk n (if flip then 1 else cols)
      (if flip then cols else 1) 1 kk (bf16_address b))"
  unfolding pointwise_def
proof (intro allI)
  fix idx and ys :: "f32 list"
  let ?h = "h(out \<mapsto> ys)"
  let ?av = "\<lambda>inner. mem_load ?h (ptr (buf_slice a)) (idx div n * (if flip then 1 else cols) + inner * (if flip then cols else 1))"
  let ?bv = "\<lambda>inner. weight_load ?h g (ptr (buf_slice b)) (bf16_address b) (inner * 1 + idx mod n * kk)"
  let ?val = "dot F (entry flip (unat cols) (tdata ta) (unat idx div unat n))
      (\<lambda>i. entry True (unat kk) (tdata tb) i (unat idx mod unat n)) (unat kk)"
  have h': "?h p = f32_at V (device k) p" if "f32_at V (device k) p \<noteq> None" "p \<notin> offers k" for p
    using h [OF that] by simp
  have mn: "unat (m * n) = unat m * unat n" using unat_mult_u64 [of m n] small by simp
  have sum: "matmul_sum F ?av ?bv kk = Some ?val" if idx: "idx < m * n"
  proof (rule matmul_sum_dot)
    have lt: "unat idx < unat m * unat n" using idx mn by (simp add: word_less_nat_alt)
    then have n: "0 < unat n" by (metis gr_zeroI mult_0_right not_less0)
    have at: "unat (idx div n) < unat m" "unat (idx mod n) < unat n"
      using lt n by (simp_all add: unat_div unat_mod less_mult_imp_div_less)
    fix i assume i: "i < unat kk"
    have load: "mem_load ?h (ptr (buf_slice a)) j = Some (tdata ta ! unat j)" if "unat j < length (tdata ta)" for j
      using feeds_plain(1,2) [OF a] h' [of "ptr (buf_slice a)"] that by (simp add: mem_load_def)
    show "?av (of_nat i) = Some (entry flip (unat cols) (tdata ta) (unat idx div unat n) i)"
      using entry_load [of "tdata ta" "mem_load ?h (ptr (buf_slice a))" "if flip then kk else m" cols "idx div n" flip "of_nat i", OF load]
        ta at(1) i unat_index [OF i] by (auto simp: rectangular_def unat_div)
    note b' = weight_feeds [OF C b g h']
    show "?bv (of_nat i) = Some (entry True (unat kk) (tdata tb) i (unat idx mod unat n))"
      using entry_load [of "tdata tb" "weight_load ?h g (ptr (buf_slice b)) (bf16_address b)" n kk "of_nat i" True "idx mod n", OF b']
        tb at(2) i unat_index [OF i] by (simp add: rectangular_def unat_mod)
  qed
  have "idx div n * n + idx mod n = idx" by (rule div_mult_mod_eq)
  then show "matmul_kernel F g (ptr (buf_slice a)) (ptr (buf_slice b)) out m kk n (if flip then 1 else cols)
      (if flip then cols else 1) 1 kk (bf16_address b) idx ?h =
    (if idx < m * n then mem_store ?h out (id idx) ?val else Some ?h)"
    using sum by (auto simp: matmul_kernel_def Let_def)
qed

lemma andthen_ret: "andthen (ret x) f = f x"
  by (simp add: andthen_def ret_def fun_eq_iff)

text \<open>The output, the launch and its result.\<close>

definition product_launch :: "'d external \<Rightarrow> matmul_dims \<Rightarrow> device_buffer \<Rightarrow> device_buffer \<Rightarrow> ('d, device_buffer) kernel_op" where
  "product_launch D d a b = andthen (alloc_output D (dim_m d * dim_n d)) (\<lambda>out.
     matmul_plain D d a b (bf16_address b) out None)"

lemma keeps_product_launch: "keeps (frame_le (\<lambda>_. True)) (product_launch D d a b)"
  unfolding product_launch_def matmul_plain_def Let_def option.case
  by (rule kernel_keeps keeps_alloc_output keeps_launch_elems recorded_any)+

lemma computes_product:
  assumes k: "ready D V X F k" and a: "feeds V k a ta" "bf16 a = None" and b: "feeds V k b tb"
    and ta: "rectangular ta (if flip then kk else m) cols" "cols = (if flip then m else kk)"
    and tb: "rectangular tb n kk" and small: "unat m * unat n < 2 ^ 32"
    and d: "d = \<lparr>dim_m = m, dim_k = kk, dim_n = n, a_row_stride = (if flip then 1 else cols),
      a_inner_stride = (if flip then cols else 1), b_inner_stride = 1, b_col_stride = kk\<rparr>"
  shows "computes V X (product_launch D d a b)
    (Some (product_of F flip True cols kk (tdata ta) (tdata tb) m kk n)) k"
proof -
  have mn: "unat (m * n) = unat m * unat n" using unat_mult_u64 [of m n] small by simp
  then have n: "unat (m * n) < 2 ^ 32" using small by simp
  have s64: "unat m * unat n < 2 ^ 64" using small by simp
  note threads = matmul_threads [OF readyD(1,2) [OF k] a b ta tb s64]
  let ?val = "\<lambda>idx :: u64. dot F (entry flip (unat cols) (tdata ta) (unat idx div unat n))
      (\<lambda>i. entry True (unat kk) (tdata tb) i (unat idx mod unat n)) (unat kk)"
  have eq: "map (\<lambda>j. ?val (of_nat j)) [0..<unat (m * n)] = map (\<lambda>j. dot F (entry flip (unat cols) (tdata ta) (j div unat n))
      (\<lambda>i. entry True (unat kk) (tdata tb) i (j mod unat n)) (unat kk)) [0..<unat (m * n)]"
    by (rule map_cong [OF refl]) (simp add: unat_index)
  have t: "product_of F flip True cols kk (tdata ta) (tdata tb) m kk n =
      \<lparr>tshape = [m, n], tdata = map (\<lambda>j. ?val (of_nat j)) [0..<unat (m * n)]\<rparr>"
    unfolding eq unfolding mn by (simp add: product_of_def)
  have run: "product_launch D d a b = andthen (alloc_output D (m * n)) (\<lambda>out. andthen (launch_elems D ''matmul_kernel''
      [APtr (ptr (buf_slice a)), APtr (ptr (buf_slice b)), APtr (ptr out), AU64 m, AU64 kk, AU64 n,
        AU64 (if flip then 1 else cols), AU64 (if flip then cols else 1), AU64 1, AU64 kk, APtr (bf16_address b)] (m * n))
      (\<lambda>_. ret (plain out [m, n])))"
    by (simp add: product_launch_def matmul_plain_def d)
  show ?thesis
    unfolding t run
    by (rule computes_threads [OF readyD [OF k] n, where args = "\<lambda>out. [APtr (ptr (buf_slice a)), APtr (ptr (buf_slice b)),
        APtr out, AU64 m, AU64 kk, AU64 n, AU64 (if flip then 1 else cols), AU64 (if flip then cols else 1), AU64 1,
        AU64 kk, APtr (bf16_address b)]", OF device_threads(7) threads])
qed

text \<open>A product, and what is added to it: a row to every row, or a whole matrix.\<close>

fun plus_addend :: "device_float \<Rightarrow> host_tensor option \<Rightarrow> host_tensor option \<Rightarrow> host_tensor option" where
  "plus_addend F None t = t"
| "plus_addend F (Some c) t = Option.bind t (\<lambda>t. tensor_add F t c)"

definition feeds_addend :: "'d view \<Rightarrow> 'd kernels \<Rightarrow> device_buffer \<Rightarrow> matmul_addend option \<Rightarrow> host_tensor option \<Rightarrow> bool" where
  "feeds_addend V k b addend tc \<longleftrightarrow> (case (addend, tc) of
     (None, None) \<Rightarrow> True | (Some _, Some c) \<Rightarrow> feeds V k (addend_buffer b addend) c | _ \<Rightarrow> False)"

lemma computes_matmul_with:
  assumes k: "ready D V X F k" and a: "feeds V k a ta" and b: "feeds V k b tb" and c: "feeds_addend V k b addend tc"
    and ta: "rectangular ta rows cols" and tb: "rectangular tb n kk" and route: "kk \<noteq> 1"
    and small: "unat (if flip then cols else rows) * unat n < 2 ^ 32"
  shows "computes V X (matmul_with_addend D a b addend flip True)
    (plus_addend F tc (tensor_matmul F flip True ta tb)) k"
proof -
  let ?m = "if flip then cols else rows" and ?k = "if flip then rows else cols"
  let ?d = "\<lparr>dim_m = ?m, dim_k = ?k, dim_n = n, a_row_stride = (if flip then 1 else cols),
      a_inner_stride = (if flip then cols else 1), b_inner_stride = 1, b_col_stride = kk\<rparr>"
  let ?t = "product_of F flip True cols kk (tdata ta) (tdata tb) ?m kk n"
  have sh: "shape a = [rows, cols]" "shape b = [n, kk]" "tshape ta = [rows, cols]" "tshape tb = [n, kk]"
    using a b ta tb by (simp_all add: feeds_def holds_def rectangular_def)
  have dims: "matmul_dims_of a b flip True =
      (if ?k \<noteq> kk then Inl (shape_error ''matmul inner dimension mismatch'') else Inr ?d)"
    using sh by (auto simp: matmul_dims_of_def rows_cols_buf_def)
  show ?thesis
    unfolding matmul_with_addend_def dims
  proof (rule computes_lift [OF k], rule computes_lift [OF k], rule computes_lift [OF k], rule computes_lift [OF k])
    fix d and u v w :: unit
    assume d: "(if ?k \<noteq> kk then Inl (shape_error ''matmul inner dimension mismatch'') else Inr ?d) = Inr d"
      and "require_f32 [a] ''the a of a matmul'' = Inr v"
    then have kk: "?k = kk" "d = ?d" and p: "bf16 a = None" by (simp_all split: if_splits)
    have at: "rectangular ta (if flip then kk else ?m) cols" "cols = (if flip then ?m else kk)"
      using ta kk(1) by (auto split: if_splits)
    have launch: "computes V X (product_launch D d a b) (Some ?t) k"
      by (rule computes_product [OF k a p b at tb small]) (simp add: kk)
    have t: "tensor_matmul F flip True ta tb = Some ?t"
      using sh(3,4) kk(1) by (auto simp: tensor_matmul_def Let_def split: if_splits)
    have paths: "matmul_tcp D d a b16 out x y flip True = ret False" "matmul_tc D d a b16 out x y = ret False" for b16 out x y
      using route kk(2) by (simp_all add: matmul_tcp_def matmul_tc_def)
    have body: "computes V X (andthen (alloc_output D (dim_m d * dim_n d)) (\<lambda>out. matmul_plain D d a b (bf16_address b) out addend))
        (plus_addend F tc (Some ?t)) k"
    proof (cases addend)
      case None
      then have tc: "tc = None" using c by (simp add: feeds_addend_def split: option.splits)
      show ?thesis using launch unfolding None tc plus_addend.simps product_launch_def .
    next
      case (Some x)
      then obtain u where tc: "tc = Some u" "feeds V k (addend_buffer b addend) u"
        using c by (auto simp: feeds_addend_def split: option.splits)
      have eq: "andthen (alloc_output D (dim_m d * dim_n d)) (\<lambda>out. matmul_plain D d a b (bf16_address b) out addend) =
          andthen (product_launch D d a b) (\<lambda>product. add D product (addend_buffer b addend))"
        by (simp add: product_launch_def matmul_plain_def Some andthen_assoc andthen_ret Let_def)
      have len: "length (tdata ?t) = unat ?m * unat n" by (simp add: product_of_def)
      have wf: "wf_host ?t" by (simp add: wf_host_def product_of_def shape_len_def)
      have "computes V X (andthen (product_launch D d a b) (\<lambda>product. add D product (addend_buffer b addend)))
          (tensor_add F ?t u) k"
      proof (rule computes_compose [OF k launch keeps_product_launch wf])
        fix p k1
        assume k1: "ready D V X F k1" "feeds V k1 p ?t" "\<And>c u. feeds V k c u \<Longrightarrow> feeds V k1 c u"
        show "computes V X (add D p (addend_buffer b addend)) (tensor_add F ?t u) k1"
          by (rule computes_add [OF k1(1,2) k1(3) [OF tc(2)]]) (unfold len, rule small)
      qed (rule keeps_elementwise(2) [OF recorded_any])
      then show ?thesis unfolding eq using tc(1) by simp
    qed
    show "computes V X
      (let b16 = bf16_address b; result = [dim_m d, dim_n d] in
       andthen (alloc_output D (dim_m d * dim_n d)) (\<lambda>out.
       andthen (matmul_tcp D d a b16 out (addend_buffer a addend) (addend_mode addend) flip True) (\<lambda>tcp.
       (if tcp then ret (plain out result)
        else
          andthen (matmul_tc D d a b16 out (addend_buffer a addend) (addend_mode addend)) (\<lambda>tc.
          (if tc then ret (plain out result)
           else if b_col_stride d = 1 \<and> dim_m d \<le> MATMUL_SPLIT_K_MAX_ROWS then
             andthen (matmul_split_k D d a b b16 out addend) (\<lambda>_. ret (plain out result))
           else matmul_plain D d a b b16 out addend)))))) (plus_addend F tc (tensor_matmul F flip True ta tb)) k"
      unfolding paths Let_def andthen_ret t using body route kk by simp
  qed
qed

lemma computes_matmuls:
  assumes "ready D V X F k" "feeds V k a ta" "feeds V k b tb"
    and "rectangular ta rows cols" "rectangular tb n kk" "kk \<noteq> 1"
    and "unat (if flip then cols else rows) * unat n < 2 ^ 32"
  shows "computes V X (matmul D a b flip True) (tensor_matmul F flip True ta tb) k"
    and "feeds V k c tc \<Longrightarrow> computes V X (matmul_bias D a b c flip True) (plus_addend F (Some tc) (tensor_matmul F flip True ta tb)) k"
    and "feeds V k c tc \<Longrightarrow> computes V X (matmul_residual D a b c flip True) (plus_addend F (Some tc) (tensor_matmul F flip True ta tb)) k"
  using computes_matmul_with [OF assms(1-3) _ assms(4-7), of None None]
    computes_matmul_with [OF assms(1-3) _ assms(4-7), of "Some (Row c)" "Some tc"]
    computes_matmul_with [OF assms(1-3) _ assms(4-7), of "Some (Full c)" "Some tc"]
  by (simp_all add: feeds_addend_def matmul_def matmul_bias_def matmul_residual_def)

section \<open>Two products and their gate\<close>

definition gated_tensor :: "device_float \<Rightarrow> bool \<Rightarrow> bool \<Rightarrow> host_tensor \<Rightarrow> host_tensor \<Rightarrow> host_tensor \<Rightarrow> host_tensor option" where
  "gated_tensor F flip_a flip_b a gate up = Option.bind (tensor_matmul F flip_a flip_b a gate) (\<lambda>g.
     Option.bind (tensor_matmul F flip_a flip_b a up) (pointwise_tensor (\<lambda>x y. f_mul F (f_silu F x) y) g))"

lemma rectangular_like:
  assumes b: "feeds V k b t" and like: "tshape t = tshape t'" and t': "rectangular t' n c"
  shows "rectangular t n c"
proof -
  have len: "unat (buffer_len b) = length (tdata t)" "wf_host t" using b by (simp_all add: feeds_def holds_def)
  then have l: "length (tdata t) < 2 ^ 64" using unat_lt_u64 [of "buffer_len b"] by simp
  have sh: "tshape t = [n, c]" and nc: "unat n * unat c < 2 ^ 64" using t' like by (auto simp: rectangular_def)
  have "(of_nat (length (tdata t)) :: u64) = n * c" using len(2) sh by (simp add: wf_host_def)
  then have "unat (of_nat (length (tdata t)) :: u64) = unat n * unat c" using unat_mult_u64 [of n c] nc by simp
  then show ?thesis using sh l by (simp add: rectangular_def unat_of_nat take_bit_nat_eq_self_iff)
qed

lemma product_wf:
  assumes "tensor_matmul F flip True ta tb = Some t" "rectangular ta rows cols" "rectangular tb n kk"
    "unat (if flip then cols else rows) * unat n < 2 ^ 32"
  shows "wf_host t" "length (tdata t) < 2 ^ 32"
proof -
  obtain k where t: "t = product_of F flip True cols kk (tdata ta) (tdata tb) (if flip then cols else rows) k n"
    using assms(1-3) by (auto simp: tensor_matmul_def rectangular_def Let_def split: if_splits)
  show "wf_host t" unfolding t wf_host_def by (simp add: product_of_def)
  show "length (tdata t) < 2 ^ 32" unfolding t using assms(4) by (simp add: product_of_def)
qed

lemma computes_gated:
  assumes k: "ready D V X F k" and f: "feeds V k a ta" "feeds V k gate tg" "feeds V k up tu"
    and ta: "rectangular ta rows cols" and tg: "rectangular tg n kk" and route: "kk \<noteq> 1"
    and small: "unat (if flip then cols else rows) * unat n < 2 ^ 32"
  shows "computes V X (gated_matmul D a gate up flip True) (gated_tensor F flip True ta tg tu) k"
  unfolding gated_matmul_def
proof (rule computes_ensure [OF k])
  assume "shape gate = shape up"
  then have "tshape tu = tshape tg" using f(2,3) by (simp add: feeds_def holds_def)
  then have tu: "rectangular tu n kk" by (rule rectangular_like [OF f(3) _ tg])
  note keeps_m = keeps_matmuls(1) [OF recorded_any] and keeps_s = keeps_elementwise(5) [OF recorded_any]
  have second: "computes V X (andthen (matmul D a up flip True) (silu_mul D p))
      (Option.bind (tensor_matmul F flip True ta tu) (pointwise_tensor (\<lambda>x y. f_mul F (f_silu F x) y) g)) k1"
    if k1: "ready D V X F k1" "feeds V k1 p g" "\<And>c u. feeds V k c u \<Longrightarrow> feeds V k1 c u"
      and g: "length (tdata g) < 2 ^ 32" for p g k1
  proof (rule computes_bind [OF k1(1) computes_matmuls(1) [OF k1(1) k1(3) [OF f(1)] k1(3) [OF f(3)] ta tu route small] keeps_m])
    fix q v k2
    assume "ready D V X F k2" "feeds V k2 q v" "\<And>c u. feeds V k1 c u \<Longrightarrow> feeds V k2 c u"
    then show "computes V X (silu_mul D p q) (pointwise_tensor (\<lambda>x y. f_mul F (f_silu F x) y) g v) k2"
      using computes_silu_mul k1(2) g by blast
  qed (use product_wf(1) ta tu small keeps_s in blast)+
  have "computes V X (andthen (matmul D a gate flip True) (\<lambda>p. andthen (matmul D a up flip True) (silu_mul D p)))
      (gated_tensor F flip True ta tg tu) k"
    unfolding gated_tensor_def
  proof (rule computes_bind [OF k computes_matmuls(1) [OF k f(1,2) ta tg route small] keeps_m])
    fix p g k1
    assume g: "tensor_matmul F flip True ta tg = Some g" and k1: "ready D V X F k1" "feeds V k1 p g"
      "\<And>c u. feeds V k c u \<Longrightarrow> feeds V k1 c u"
    show "computes V X (andthen (matmul D a up flip True) (silu_mul D p))
      (Option.bind (tensor_matmul F flip True ta tu) (pointwise_tensor (\<lambda>x y. f_mul F (f_silu F x) y) g)) k1"
      by (rule second [OF k1 product_wf(2) [OF g ta tg small]])
  next
    show "keeps (frame_le (\<lambda>_. True)) (andthen (matmul D a up flip True) (silu_mul D p))" for p
      by (rule kf.keeps_andthen keeps_m keeps_s)+
  qed (use product_wf(1) ta tg small in blast)
  then show "computes V X
     (andthen (lift (rows_cols_buf a)) (\<lambda>(a_rows, a_cols).
      andthen (lift (rows_cols_buf gate)) (\<lambda>(b_rows, b_cols).
      (let (m, k) = (if flip then (a_cols, a_rows) else (a_rows, a_cols)) in
       if True \<or> m > MATMUL_SPLIT_K_MAX_ROWS \<or> k \<noteq> b_rows then
         andthen (matmul D a gate flip True) (\<lambda>gate_out.
         andthen (matmul D a up flip True) (\<lambda>up_out.
         silu_mul D gate_out up_out))
       else
         (let (a_row, a_inner) = (if flip then (1, a_cols) else (a_cols, 1))
          in gated_matmul_fused D
               \<lparr>dim_m = m, dim_k = k, dim_n = b_cols, a_row_stride = a_row, a_inner_stride = a_inner,
                b_inner_stride = b_cols, b_col_stride = 1\<rparr> a gate up flip)))))
     (gated_tensor F flip True ta tg tu) k"
    by (auto simp: Let_def split: prod.split intro!: computes_lift [OF k])
qed

end
