(* ===== verification/Dispatch_Errors.thy ===== *)
theory Dispatch_Errors
  imports Advertisements Simulated_Executor
begin

text \<open>
  The errors a dispatch can report, and that the Kernels the Provider advertises are
  exactly those it dispatches.
\<close>

section \<open>The errors of a computation\<close>

definition throws :: "('s, 'e, 'a) exec \<Rightarrow> ('e \<Rightarrow> bool) \<Rightarrow> bool" where
  "throws m E \<longleftrightarrow> (\<forall>s e t. m s = (Inl e, t) \<longrightarrow> E e)"

lemma throwsD: "throws m E \<Longrightarrow> m s = (Inl e, t) \<Longrightarrow> E e"
  by (auto simp: throws_def)

lemma throws_basic: "throws (ret x) E" "throws (gets f) E" "throws (modify g) E"
  by (simp_all add: throws_def exec_defs)

lemma throws_throw: "E e \<Longrightarrow> throws (throw e) E"
  by (simp add: throws_def throw_def)

lemma throws_lift: "(\<And>e. r = Inl e \<Longrightarrow> E e) \<Longrightarrow> throws (lift r) E"
  by (simp add: throws_def lift_def)

lemma throws_ensure: "E e \<Longrightarrow> throws (ensure b e) E"
  by (simp add: ensure_def throws_basic throws_throw)

lemma throws_andthen: "throws m E \<Longrightarrow> (\<And>x. throws (f x) E) \<Longrightarrow> throws (andthen m f) E"
  by (fastforce simp: throws_def andthen_def split: prod.splits sum.splits)

lemma throws_map_err: "(\<And>e. E (f e)) \<Longrightarrow> throws (map_err f m) E"
  by (auto simp: throws_def map_err_def split: prod.splits sum.splits)

lemma throws_if: "(b \<Longrightarrow> throws m E) \<Longrightarrow> (\<not> b \<Longrightarrow> throws n E) \<Longrightarrow> throws (if b then m else n) E"
  by simp

lemma throws_option:
  "(x = None \<Longrightarrow> throws m E) \<Longrightarrow> (\<And>y. x = Some y \<Longrightarrow> throws (f y) E) \<Longrightarrow>
   throws (case x of None \<Rightarrow> m | Some y \<Rightarrow> f y) E"
  by (cases x) simp_all

lemma throws_list:
  "(x = [] \<Longrightarrow> throws m E) \<Longrightarrow> (\<And>y ys. x = y # ys \<Longrightarrow> throws (f y ys) E) \<Longrightarrow>
   throws (case x of [] \<Rightarrow> m | y # ys \<Rightarrow> f y ys) E"
  by (cases x) simp_all

lemma throws_Let: "throws (f x) E \<Longrightarrow> throws (let y = x in f y) E"
  by simp

lemmas throws_rules = throws_basic throws_throw throws_lift throws_ensure throws_andthen throws_map_err
  throws_option throws_list throws_Let

section \<open>Kernel not found\<close>

abbreviation found :: "kernel_error \<Rightarrow> bool" where
  "found e \<equiv> (\<forall>name. e \<noteq> KernelNotFound name)"

lemma found_into: "found (into_kernel_error e)"
  by (simp add: into_kernel_error_def split: cuda_error_code.split)

lemma throws_kernel_call: "throws (kernel_call m) found"
  unfolding kernel_call_def by (rule throws_map_err found_into)+

lemma input_resource_id_found: "input_resource_id call i = Inl e \<Longrightarrow> found e"
  by (auto simp: input_resource_id_def split: option.splits)

lemma required_integer_found: "required_integer attrs key = Inl e \<Longrightarrow> found e"
  by (auto simp: required_integer_def split: option.splits)

lemma attribute_errors_found:
  "require_f32_accumulation attrs = Inl e \<Longrightarrow> found e"
  "half_dtype_from_descriptor dt = Inl e \<Longrightarrow> found e"
  "rope_position_offset attrs = Inl e \<Longrightarrow> found e"
  "rope_rotation_pairing attrs = Inl e \<Longrightarrow> found e"
  "check_mask_kind attrs c = Inl e \<Longrightarrow> found e"
  "(case rt_banded R attrs of Inl a \<Rightarrow> Inl (KernelAttributeUnsupported a) | Inr f \<Rightarrow> Inr f) = Inl e \<Longrightarrow> found e"
  by (auto simp: require_f32_accumulation_def half_dtype_from_descriptor_def rope_position_offset_def
      rope_rotation_pairing_def check_mask_kind_def
      split: option.splits attribute.splits if_splits dtype_descriptor.splits compute_dtype.splits sum.splits)

lemmas found_errors = input_resource_id_found required_integer_found attribute_errors_found

lemma throws_get_input: "throws (get_input call i) found"
  unfolding get_input_def by (rule throws_rules | (erule found_errors) | simp)+

lemmas found_rules = throws_get_input throws_kernel_call throws_rules

lemma throws_dispatches:
  "throws (dispatch_matmul D call) found" "throws (dispatch_rope D R call) found"
  "throws (dispatch_attention D call) found" "throws (dispatch_half D call) found"
  unfolding dispatch_matmul_def dispatch_rope_def dispatch_attention_def dispatch_half_def
  by (rule found_rules throws_if | erule found_errors | simp)+

lemma throws_expand: "throws (expand_inputs D name i ins) found"
  by (induction ins arbitrary: i) (simp_all, (rule found_rules throws_if | simp)+)

lemma throws_kv_write_back: "throws (kv_write_back D a b off store) found"
  using throwsD [OF throws_kernel_call]
  by (fastforce simp: throws_def kv_write_back_def split: prod.splits option.splits)

lemma throws_run_kv_write: "throws (run_kv_write D call) found"
  unfolding run_kv_write_def kv_store_def
  by (rule found_rules throws_if throws_kv_write_back | erule found_errors | simp)+

text \<open>The names the dispatch knows are the advertised ones, \<open>kv-write\<close> going its own way.\<close>

lemma throws_run_kernel:
  assumes "kernel_name call \<in> set advertised_names" "kernel_name call \<noteq> ''kv-write''"
  shows "throws (run_kernel D R call) found"
  unfolding run_kernel_def Let_def
  by (rule throws_dispatches found_rules throws_if | use assms in \<open>simp add: advertised_names_def\<close>)+

lemma run_kernel_unknown:
  assumes "kernel_name call \<notin> set advertised_names"
  shows "run_kernel D R call x = (Inl (KernelNotFound (kernel_name call)), x)"
  using assms by (simp add: run_kernel_def advertised_names_def Let_def throw_def)

lemma throws_run_offered:
  assumes "throws (run_kernel D R call) found"
  shows "throws (run_offered D R call) found"
proof -
  have "throws (run_invocation_with_offer D R call) found"
    unfolding run_invocation_with_offer_def store_output_def
    by (rule assms throws_rules | simp)+
  then show ?thesis by (auto simp: throws_def run_offered_def Let_def split: prod.splits sum.splits)
qed

lemma throws_run_invocation:
  assumes "kernel_name call \<in> set advertised_names"
  shows "throws (run_invocation D R call) found"
  unfolding run_invocation_def run_invocation_uncaptured_def expand_unsupported_compact_inputs_def
  by (rule throws_andthen throws_expand throws_if throws_run_kv_write throws_run_offered
      throws_run_kernel throws_basic assms | assumption)+

lemma returns_run_invocation: "returns (run_invocation D R call) (\<lambda>r. \<exists>u. result_outcome r = Succeeded u)"
proof -
  have offer: "returns (run_invocation_with_offer D R call) (\<lambda>r. \<exists>u. result_outcome r = Succeeded u)"
    unfolding run_invocation_with_offer_def by (rule returns_intros | simp add: result_success_def)+
  have "returns (run_offered D R call) (\<lambda>r. \<exists>u. result_outcome r = Succeeded u)"
    using returnsD [OF offer] by (fastforce simp: returns_def run_offered_def Let_def split: prod.splits sum.splits)
  moreover have "returns (run_kv_write D call) (\<lambda>r. \<exists>u. result_outcome r = Succeeded u)"
    unfolding run_kv_write_def by (rule returns_intros | simp add: result_success_def)+
  ultimately have "returns (run_invocation_uncaptured D R call) (\<lambda>r. \<exists>u. result_outcome r = Succeeded u)"
    unfolding run_invocation_uncaptured_def by (intro returns_then returns_if)
  then show ?thesis
    unfolding run_invocation_def by (rule returns_andthen) (rule returns_intros | assumption)+
qed

text \<open>C20. The Kernels advertised for a Device are the Kernels the executor dispatches. Their names are
  distinct, each is advertised on that Device and under that Provider only; an invocation of an
  advertised Kernel that the Runtime's validation does not reject as unknown never fails as an
  unknown Kernel; and a Kernel that is not advertised is refused before it does anything.\<close>
theorem advertised_kernels_are_dispatched:
  assumes "rt_validate R call \<noteq> Inl (KernelNotFound n)"
    and "ads = cuda_kernel_advertisements banded dev provider"
  shows "distinct (map (\<lambda>ad. kid_name (ad_id ad)) ads) \<and>
    (\<forall>ad \<in> set ads. ad_devices ad = {dev} \<and> kid_provider (ad_id ad) = provider) \<and>
    (if kernel_name call \<in> (\<lambda>ad. kid_name (ad_id ad)) ` set ads
     then result_outcome (fst (execute_invocation D R call x)) \<noteq> Failed (KernelNotFound n)
     else run_kernel D R call x = (Inl (KernelNotFound (kernel_name call)), x))"
proof -
  have names: "map (\<lambda>ad. kid_name (ad_id ad)) ads = advertised_names" using assms(2) advertised_names by simp
  have "result_outcome (fst (execute_invocation D R call x)) \<noteq> Failed (KernelNotFound n)"
    if "kernel_name call \<in> set advertised_names"
  proof -
    have "throws (andthen (lift (rt_validate R call)) (\<lambda>_. run_invocation D R call)) (\<lambda>e. e \<noteq> KernelNotFound n)"
      by (rule throws_andthen throws_lift)+
        (use assms(1) in simp, use throws_run_invocation [OF that, of D R] in \<open>simp add: throws_def; blast\<close>)
    moreover have "returns (andthen (lift (rt_validate R call)) (\<lambda>_. run_invocation D R call))
        (\<lambda>r. \<exists>u. result_outcome r = Succeeded u)"
      by (rule returns_then returns_run_invocation)+
    moreover obtain r y where "andthen (lift (rt_validate R call)) (\<lambda>_. run_invocation D R call)
        (observe DispatchStarted call x) = (r, y)" by fastforce
    ultimately show ?thesis
      by (cases r) (auto simp: execute_invocation_def Let_def result_failure_def dest: throwsD returnsD)
  qed
  moreover have "distinct advertised_names" by (simp add: advertised_names_def)
  moreover have "(\<lambda>ad. kid_name (ad_id ad)) ` set ads = set advertised_names" using names by (metis list.set_map)
  ultimately show ?thesis using names assms(2) advertised_binding run_kernel_unknown by auto
qed

theorem advertised_kernels_are_dispatched_witness:
  "result_outcome (fst (execute_invocation sim demo_runtime (demo_call ''matmul'' ''c'') demo_executor)) \<noteq>
     Failed (KernelNotFound ''matmul'') \<and>
   run_kernel sim demo_runtime (demo_call ''gelu'' ''c'') demo_executor =
     (Inl (KernelNotFound ''gelu''), demo_executor)"
proof -
  have known: "''matmul'' \<in> set advertised_names" "''gelu'' \<notin> set advertised_names"
    by (simp_all add: advertised_names_def)
  have names: "(\<lambda>ad. kid_name (ad_id ad)) ` set (cuda_kernel_advertisements b d p) = set advertised_names"
    for b d p by (metis advertised_names list.set_map)
  have valid: "rt_validate demo_runtime call \<noteq> Inl (KernelNotFound n)" for call n
    by (simp add: demo_runtime_def)
  have call: "kernel_name (demo_call name out) = name" for name out by (simp add: demo_call_def)
  show ?thesis
    using advertised_kernels_are_dispatched [OF valid refl, where call = "demo_call ''matmul'' ''c''" and n = "''matmul''"]
      advertised_kernels_are_dispatched [OF valid refl, where call = "demo_call ''gelu'' ''c''" and n = "''gelu''"]
    by (metis names known call)
qed

end
