(* ===== verification/Dispatch_Storage.thy ===== *)
theory Dispatch_Storage
  imports Executor_System Dispatch_Errors
begin

text \<open>
  What a dispatch leaves of the executor's storage: only the invocation's first output changes,
  a compact input may be expanded in place, and a KV store written in place is there again
  whatever happened to the write.
\<close>

section \<open>The resources a dispatch touches\<close>

text \<open>\<open>y\<close> is \<open>x\<close> expanded to \<open>f32\<close> values.\<close>

definition expanded :: "device_buffer option \<Rightarrow> device_buffer option \<Rightarrow> bool" where
  "expanded b b' \<longleftrightarrow> (case (b, b') of
     (Some b, Some b') \<Rightarrow> is_compact b \<and> \<not> is_compact b' \<and> shape b' = shape b | _ \<Rightarrow> False)"

definition touches :: "string set \<Rightarrow> string set \<Rightarrow> 'd executor \<Rightarrow> 'd executor \<Rightarrow> bool" where
  "touches ins outs x y \<longleftrightarrow> (\<forall>name. name \<notin> outs \<longrightarrow>
     storage y name = storage x name \<or> name \<in> ins \<and> expanded (storage x name) (storage y name))"

lemma expanded_once: "expanded a b \<Longrightarrow> expanded b c \<Longrightarrow> False"
  by (auto simp: expanded_def split: option.splits)

lemma touches_trans: "touches ins outs x y \<Longrightarrow> touches ins outs y z \<Longrightarrow> touches ins outs x z"
  unfolding touches_def by (metis expanded_once)

interpretation tf: frame "touches ins outs" for ins outs
  by unfold_locales (simp add: touches_def, rule touches_trans)

lemma touches_same: "storage y = storage x \<Longrightarrow> touches ins outs x y"
  by (simp add: touches_def)

lemma touches_mono: "touches ins outs x y \<Longrightarrow> ins \<subseteq> ins' \<Longrightarrow> outs \<subseteq> outs' \<Longrightarrow> touches ins' outs' x y"
  by (auto simp: touches_def)

lemma touches_out: "name \<in> outs \<Longrightarrow> touches ins outs x (set_storage name b x)"
  "name \<in> outs \<Longrightarrow> touches ins outs x (drop_storage name x)"
  by (auto simp: touches_def set_storage_def drop_storage_def)

section \<open>Kernel calls leave the storage alone\<close>

lemma ok_kernel_call: "keeps only_kernels (kernel_call m)"
  unfolding kernel_call_def by (rule ok.keeps_map_err keeps_kern)+

lemma ok_get_input: "keeps only_kernels (get_input call i)"
  unfolding get_input_def by (rule ok.keeps_basic keeps_option)+

lemmas ok_rules = ok.keeps_basic ok_kernel_call ok_get_input keeps_if keeps_option keeps_prod keeps_Let

lemma ok_run_kernel: "keeps only_kernels (run_kernel D R call)"
  unfolding run_kernel_def dispatch_matmul_def dispatch_rope_def dispatch_attention_def dispatch_half_def
  by (rule ok_rules)+

lemma only_kernels_touches: "only_kernels x y \<Longrightarrow> touches ins outs x y"
  by (simp add: touches_same only_kernels_fields)

lemma touches_kernel_call: "keeps (touches ins outs) (kernel_call m)"
  using ok_kernel_call only_kernels_touches unfolding keeps_def by blast

lemma touches_modify: "(\<And>x. touches ins outs x (f x)) \<Longrightarrow> keeps (touches ins outs) (modify f)"
  by (simp add: keeps_def modify_def)

lemmas touch_rules = tf.keeps_basic touches_kernel_call touches_modify touches_out keeps_if keeps_option
  keeps_prod keeps_list keeps_Let

section \<open>Expanding the inputs\<close>

lemma returns_expand_shape:
  "host_checked D \<Longrightarrow> returns (expand D b) (\<lambda>e. shape e = shape b \<and> \<not> is_compact e)"
proof -
  assume H: "host_checked D"
  have new: "returns (lift (host_tensor_new D sh data)) (\<lambda>t. tshape t = sh)" for sh data
    using host_tensor_newD [OF H] by (fastforce simp: returns_def lift_def)
  have d: "returns (download D b) (\<lambda>t. tshape t = shape b)"
    unfolding download_def by (rule returns_intros new)+
  have u: "returns (upload D t) (\<lambda>e. shape e = tshape t \<and> \<not> is_compact e)" for t
    unfolding upload_def by (rule returns_intros | simp add: is_compact_def)+
  show ?thesis unfolding expand_def by (rule returns_andthen [OF d]) (use u in \<open>simp add: returns_def\<close>)
qed

lemma touches_andthen_at:
  assumes "touches ins outs x (snd (m x))" "\<And>v. keeps (touches ins outs) (f v)"
  shows "touches ins outs x (snd (andthen m f x))"
proof -
  obtain r y where m: "m x = (r, y)" by fastforce
  show ?thesis
  proof (cases r)
    case (Inl e)
    then show ?thesis using assms(1) m by (simp add: andthen_def)
  next
    case (Inr v)
    have "touches ins outs y (snd (f v y))" using assms(2) by (simp add: keeps_def)
    then show ?thesis using assms(1) m Inr tf.trans by (fastforce simp: andthen_def)
  qed
qed

lemma touches_expand_inputs:
  assumes H: "host_checked D"
  shows "rid ` set ins \<subseteq> names \<Longrightarrow> keeps (touches names outs) (expand_inputs D name i ins)"
proof (induction ins arbitrary: i)
  case Nil
  then show ?case by (simp add: tf.keeps_ret)
next
  case (Cons r ins)
  have step: "touches names outs x (snd ((case storage x (rid r) of
        None \<Rightarrow> ret ()
      | Some b \<Rightarrow> if reads_compact name i \<or> \<not> is_compact b then ret ()
          else andthen (kernel_call (expand D b)) (\<lambda>e. modify (set_storage (rid r) e))) x))" for x :: "'a executor"
  proof (cases "storage x (rid r)")
    case None
    then show ?thesis by (simp add: ret_def tf.refl)
  next
    case (Some b)
    obtain q y where e: "kernel_call (expand D b) x = (q, y)" by fastforce
    have y: "storage y = storage x" using only_kernels_fields(1) [OF keepsD [OF ok_kernel_call e]] .
    show ?thesis
    proof (cases "reads_compact name i \<or> \<not> is_compact b")
      case True
      then show ?thesis using Some by (simp add: ret_def tf.refl)
    next
      case False
      have q: "shape v = shape b \<and> \<not> is_compact v" if "q = Inr v" for v
        using returnsD [OF returns_expand_shape [OF H, of b]] e that
        by (auto simp: kernel_call_def map_err_def kern_def inside_def split: prod.splits sum.splits)
      show ?thesis using Some False e y q Cons.prems
        by (cases q) (auto simp: andthen_def modify_def touches_def set_storage_def expanded_def)
    qed
  qed
  show ?case unfolding expand_inputs.simps
    by (rule tf.keeps_gets_then touches_andthen_at step Cons.IH)+ (use Cons.prems in auto)
qed

section \<open>The dispatch\<close>

definition first_output :: "invocation \<Rightarrow> string set" where
  "first_output call = (case outputs call of [] \<Rightarrow> {} | out # _ \<Rightarrow> {rid out})"

definition input_names :: "invocation \<Rightarrow> string set" where
  "input_names call = rid ` set (inputs call)"

lemma touches_run_kernel: "keeps (touches ins outs) (run_kernel D R call)"
  using ok_run_kernel only_kernels_touches unfolding keeps_def by blast

lemma touches_store_output: "keeps (touches ins (first_output call)) (store_output call 0 b)"
proof (cases "outputs call")
  case Nil
  then show ?thesis by (simp add: store_output_def nth_opt_def tf.keeps_throw)
next
  case (Cons out rest)
  then show ?thesis unfolding store_output_def nth_opt_def
    by (simp, intro touch_rules) (simp add: first_output_def)
qed

lemma touches_with_offer: "keeps (touches ins (first_output call)) (run_invocation_with_offer D R call)"
  unfolding run_invocation_with_offer_def by (rule touch_rules touches_run_kernel touches_store_output)+

lemma touches_kv_write: "keeps (touches ins (first_output call)) (run_kv_write D call)"
proof (cases "outputs call")
  case Nil
  then show ?thesis unfolding run_kv_write_def by (simp, intro touch_rules)
next
  case (Cons out rest)
  then have o: "rid out \<in> first_output call" by (simp add: first_output_def)
  have "keeps (touches ins (first_output call)) (kv_write_back D rows (rid out) off store)" for rows off store
    unfolding keeps_def
  proof
    fix x :: "'a executor"
    show "touches ins (first_output call) x (snd (kv_write_back D rows (rid out) off store x))"
    proof (cases "storage x rows")
      case None
      then show ?thesis by (simp add: kv_write_back_def touches_out o)
    next
      case (Some b)
      obtain r y where w: "kernel_call (kv_write D store b off) x = (r, y)" by fastforce
      from keepsD [OF touches_kernel_call w] show ?thesis
        using Some w tf.trans touches_out(1) [OF o] by (fastforce simp: kv_write_back_def)
    qed
  qed
  moreover have "keeps (touches ins (first_output call)) (kv_store D s (rid out))" for s
    unfolding kv_store_def by (rule touch_rules | use o in simp)+
  ultimately show ?thesis unfolding run_kv_write_def Cons list.case by - (rule touch_rules | assumption)+
qed

lemma touches_run_offered: "keeps (touches ins (first_output call)) (run_offered D R call)"
  unfolding keeps_def
proof
  fix x :: "'a executor"
  let ?prev = "previous_output call x"
  obtain r y where run: "run_invocation_with_offer D R call (take_offer ?prev x) = (r, y)" by fastforce
  have prev: "fst p \<in> first_output call" if "?prev = Some p" for p
    using that by (auto simp: previous_output_def first_output_def split: list.splits if_splits option.splits)
  have taken: "touches ins (first_output call) x (take_offer ?prev x)"
    using prev by (auto simp: take_offer_def Let_def touches_def drop_storage_def split: option.splits)
  have put: "touches ins (first_output call) z (restore_offer ?prev z)" for z
    using prev by (auto simp: restore_offer_def reclaim_def touches_def set_storage_def split: option.splits)
  have clear: "touches ins (first_output call) z (clear_offer z)" for z
    by (simp add: clear_offer_def touches_same)
  from tf.trans [OF taken keepsD [OF touches_with_offer run]] have y: "touches ins (first_output call) x y" .
  show "touches ins (first_output call) x (snd (run_offered D R call x))"
    using run tf.trans [OF y clear] tf.trans [OF tf.trans [OF y put] clear]
    by (simp add: run_offered_def Let_def split: sum.split)
qed

lemma touches_uncaptured:
  "host_checked D \<Longrightarrow> keeps (touches (input_names call) (first_output call)) (run_invocation_uncaptured D R call)"
  unfolding run_invocation_uncaptured_def expand_unsupported_compact_inputs_def
  by (rule tf.keeps_andthen keeps_if touches_expand_inputs touches_kv_write touches_run_offered |
      simp add: input_names_def)+

text \<open>What a dispatch does beyond its Kernel leaves the storage alone.\<close>

lemma execute_storage:
  assumes "execute_invocation D R call x = (r, y)"
  shows "storage y = storage x \<and> kernels y = kernels x \<and> (\<exists>e. result_outcome r = Failed e) \<or>
    (\<exists>z w q. run_invocation_uncaptured D R call z = (q, w) \<and> storage z = storage x \<and> kernels z = kernels x \<and>
      storage y = storage w \<and> kernels y = kernels w \<and>
      (if isl q then \<exists>e. result_outcome r = Failed e else \<exists>u. result_outcome r = Succeeded u))"
proof (cases "deadline_millis call = Some 0 \<or> isl (rt_validate R call)")
  case True
  have "storage y = storage x \<and> kernels y = kernels x \<and> (\<exists>e. result_outcome r = Failed e)"
  proof (cases "deadline_millis call = Some 0")
    case True
    then show ?thesis using assms by (auto simp: execute_invocation_def Let_def observe_def result_failure_def)
  next
    case False
    with True obtain e where "rt_validate R call = Inl e" by (auto simp: isl_def)
    then show ?thesis using assms False
      by (auto simp: execute_invocation_def Let_def andthen_def lift_def observe_def result_failure_def)
  qed
  then show ?thesis ..
next
  case False
  then obtain u where v: "rt_validate R call = Inr u" by (cases "rt_validate R call") auto
  let ?z = "observe DispatchStarted call x"
  obtain q w where run: "run_invocation_uncaptured D R call ?z = (q, w)" by fastforce
  have z: "storage ?z = storage x" "kernels ?z = kernels x" by (simp_all add: observe_def Let_def)
  have all: "andthen (lift (rt_validate R call)) (\<lambda>_. run_invocation D R call) ?z =
      (case q of Inl e \<Rightarrow> (Inl e, w) | Inr v \<Rightarrow> (Inr v, record_captured_resources call w))"
    by (simp add: v andthen_def lift_def run_invocation_def run modify_def ret_def split: sum.split)
  have "storage y = storage w \<and> kernels y = kernels w \<and>
      (if isl q then \<exists>e. result_outcome r = Failed e else \<exists>u. result_outcome r = Succeeded u)"
  proof (cases q)
    case (Inl e)
    then show ?thesis
      using assms False all by (auto simp: execute_invocation_def Let_def observe_def result_failure_def)
  next
    case (Inr v)
    then have r: "r = v" "storage y = storage w" "kernels y = kernels w"
      using assms False all by (auto simp: execute_invocation_def Let_def observe_def record_captured_resources_def)
    have "run_invocation D R call ?z = (Inr v, record_captured_resources call w)"
      using run Inr by (simp add: run_invocation_def andthen_def modify_def ret_def)
    then have "\<exists>u. result_outcome v = Succeeded u" by (rule returnsD [OF returns_run_invocation])
    then show ?thesis using Inr r by auto
  qed
  with run z show ?thesis by blast
qed

section \<open>The output of a failed dispatch\<close>

text \<open>When the Kernel fails, the output's buffer is put back, or it was taken by the Kernel.\<close>

lemma restored_output:
  assumes run: "run_offered D R call x = (Inl e, y)" and out: "outputs call = out # rest"
  shows "storage y (rid out) = storage x (rid out) \<or> storage y (rid out) = None"
proof -
  let ?prev = "previous_output call x"
  obtain q z where w: "run_invocation_with_offer D R call (take_offer ?prev x) = (q, z)" by fastforce
  have q: "q = Inl e" and y: "y = clear_offer (restore_offer ?prev z)"
    using run w by (auto simp: run_offered_def Let_def split: sum.splits)
  have store: "store_output call 0 b s = (Inr out, set_storage (rid out) b s)" for b s
    by (simp add: store_output_def out nth_opt_def andthen_def modify_def ret_def)
  have "run_kernel D R call (take_offer ?prev x) = (Inl e, z)"
    using w q by (auto simp: store run_invocation_with_offer_def andthen_def ret_def split: prod.splits sum.splits)
  from keepsD [OF ok_run_kernel this] have z: "storage z = storage (take_offer ?prev x)"
    by (rule only_kernels_fields(1))
  have offer: "offer_le (offered_output (kernels (take_offer ?prev x))) (offered_output (kernels z))"
    using keepsD [OF keeps_run_with_offer [OF recorded_any] w] by (simp add: exec_frame_def frame_le_def)
  show ?thesis
  proof (cases ?prev)
    case None
    then show ?thesis using y z by (simp add: restore_offer_def clear_offer_def take_offer_def)
  next
    case (Some p)
    then obtain b where p: "p = (rid out, b)" "storage x (rid out) = Some b" "\<not> is_compact b"
      by (auto simp: previous_output_def out split: if_splits option.splits)
    then have b: "plain (buf_slice b) (shape b) = b" by (simp add: is_compact_def)
    show ?thesis using offer y z p b
      by (auto simp: Some restore_offer_def reclaim_def clear_offer_def take_offer_def offer_le_def offer_output_def
          drop_storage_def set_storage_def split: option.splits)
  qed
qed

section \<open>The KV store written in place\<close>

lemma kv_write_puts_back:
  assumes run: "run_kv_write D call x = (q, y)" and ins: "inputs call = store # ins"
    and out: "outputs call = out # rest" and same: "rid out = rid store" and b: "storage x (rid store) = Some b"
  shows "storage y (rid store) = Some b"
proof -
  have id: "input_resource_id call 0 = Inr (rid store)" by (simp add: input_resource_id_def ins nth_opt_def)
  have taken: "kv_store D (rid store) (rid store) x = (Inr (Some b), drop_storage (rid store) x)"
    using b by (simp add: kv_store_def andthen_def gets_def modify_def ret_def)
  have kept: "storage z' (rid store) = Some c" if "kv_write_back D rows (rid store) off c z = (r, z')"
    for rows off c z r z'
    using that by (auto simp: kv_write_back_def set_storage_def split: prod.splits)
  show ?thesis
  proof (cases "required_integer (attributes call) ''row_offset''")
    case (Inl e)
    then show ?thesis using run b by (simp add: run_kv_write_def id andthen_def lift_def)
  next
    case off: (Inr off)
    show ?thesis
    proof (cases "input_resource_id call 1")
      case (Inl e)
      then show ?thesis using run b off by (simp add: run_kv_write_def id andthen_def lift_def)
    next
      case (Inr rows)
      obtain r z where w: "kv_write_back D rows (rid store) off b (drop_storage (rid store) x) = (r, z)"
        by fastforce
      have "z = y" using run Inr off w
        by (auto simp: run_kv_write_def id out same taken andthen_def lift_def ret_def split: sum.splits)
      then show ?thesis using kept [OF w] by simp
    qed
  qed
qed

text \<open>C10. A dispatch changes only what it is asked to. Whatever it returns, every resource that is
  neither the invocation's first output nor one of its inputs keeps its buffer, and an input that is
  not the output keeps its buffer unless that was compact, when it may be replaced by its expansion
  of the same shape. When the dispatch of a Kernel fails, the output it was to overwrite is as it
  was, or expanded, or gone because the Kernel had taken its buffer: never a wrong or partial one.\<close>
theorem dispatch_touches_only:
  assumes "host_checked D" "execute_invocation D R call x = (r, y)"
  shows "(\<forall>name. name \<notin> first_output call \<longrightarrow> storage y name = storage x name \<or>
      name \<in> input_names call \<and> expanded (storage x name) (storage y name)) \<and>
    (\<forall>out rest e. outputs call = out # rest \<and> kernel_name call \<noteq> ''kv-write'' \<and> result_outcome r = Failed e \<longrightarrow>
      storage y (rid out) = storage x (rid out) \<or> storage y (rid out) = None \<or>
      expanded (storage x (rid out)) (storage y (rid out)))"
proof (cases "storage y = storage x")
  case False
  with execute_storage [OF assms(2)] obtain z w q where run: "run_invocation_uncaptured D R call z = (q, w)"
    and st: "storage z = storage x" "storage y = storage w" and failed: "if isl q then \<exists>e. result_outcome r = Failed e else \<exists>u. result_outcome r = Succeeded u"
    by blast
  from keepsD [OF touches_uncaptured [OF assms(1)] run] st
  have only: "touches (input_names call) (first_output call) x y" by (simp add: touches_def)
  have first_kept: "storage y (rid out) = storage x (rid out) \<or> storage y (rid out) = None \<or>
      expanded (storage x (rid out)) (storage y (rid out))"
    if hyps: "outputs call = out # rest" "kernel_name call \<noteq> ''kv-write''" "result_outcome r = Failed e" for out rest e
  proof -
    obtain p u where exp: "expand_inputs D (kernel_name call) 0 (inputs call) z = (p, u)" by fastforce
    have "touches (input_names call) {} z u"
      using keepsD [OF touches_expand_inputs [OF assms(1)] exp] by (simp add: input_names_def)
    then have u: "storage u (rid out) = storage x (rid out) \<or> expanded (storage x (rid out)) (storage u (rid out))"
      using st(1) by (auto simp: touches_def)
    show ?thesis
    proof (cases p)
      case (Inl a)
      then have "w = u" using run exp
        by (simp add: run_invocation_uncaptured_def expand_unsupported_compact_inputs_def andthen_def)
      then show ?thesis using u st(2) by auto
    next
      case (Inr a)
      then have "run_offered D R call u = (q, w)" using run exp hyps(2)
        by (simp add: run_invocation_uncaptured_def expand_unsupported_compact_inputs_def andthen_def)
      moreover obtain f where "q = Inl f" using failed hyps(3) by (cases q) auto
      ultimately have "storage w (rid out) = storage u (rid out) \<or> storage w (rid out) = None"
        by (simp add: restored_output [OF _ hyps(1)])
      then show ?thesis using u st(2) by auto
    qed
  qed
  show ?thesis using only first_kept unfolding touches_def by blast
qed simp

text \<open>C13. A KV store survives its own writes. A \<open>kv-write\<close> whose output is its store takes the store out
  of the storage while it runs; whatever happens to the write (a bad offset, missing rows, a row
  range past the store, a launch the driver refuses) the same buffer is in the storage again after
  it, so no history is lost and captured addresses stay valid.\<close>
theorem kv_store_survives:
  assumes "host_checked D" "execute_invocation D R call x = (r, y)" "kernel_name call = ''kv-write''"
    and "inputs call = store # ins" "outputs call = out # rest" "rid out = rid store"
    and "storage x (rid store) = Some b" "\<not> is_compact b"
  shows "storage y (rid store) = Some b"
proof (cases "storage y = storage x")
  case True
  then show ?thesis using assms(7) by simp
next
  case False
  with execute_storage [OF assms(2)] obtain z w q where run: "run_invocation_uncaptured D R call z = (q, w)"
    and st: "storage z = storage x" "storage y = storage w"
    by blast
  obtain p u where exp: "expand_inputs D (kernel_name call) 0 (inputs call) z = (p, u)" by fastforce
  have "touches (input_names call) {} z u"
    using keepsD [OF touches_expand_inputs [OF assms(1)] exp] by (simp add: input_names_def)
  then have u: "storage u (rid store) = Some b"
    unfolding touches_def st(1) by (drule_tac spec [of _ "rid store"]) (simp add: assms(7,8) expanded_def split: option.splits)
  show ?thesis
  proof (cases p)
    case (Inl a)
    then have "w = u" using run exp
      by (simp add: run_invocation_uncaptured_def expand_unsupported_compact_inputs_def andthen_def)
    then show ?thesis using u st(2) by simp
  next
    case (Inr a)
    then have "run_kv_write D call u = (q, w)" using run exp assms(3)
      by (simp add: run_invocation_uncaptured_def expand_unsupported_compact_inputs_def andthen_def)
    from kv_write_puts_back [OF this assms(4-6) u] show ?thesis using st(2) by simp
  qed
qed

section \<open>Concrete cases\<close>

theorem dispatch_touches_only_witness:
  "\<exists>r y. execute_invocation sim demo_runtime (demo_call ''add'' ''c'') demo_executor = (r, y) \<and>
    storage y ''z'' = None \<and> storage y ''a'' = Some (demo_buffer 512)"
proof -
  let ?call = "demo_call ''add'' ''c''"
  obtain r y where run: "execute_invocation sim demo_runtime ?call demo_executor = (r, y)" by fastforce
  have names: "first_output ?call = {''c''}" "''z'' \<notin> input_names ?call"
    by (simp_all add: first_output_def input_names_def demo_call_def demo_resource_def)
  have b: "storage demo_executor ''a'' = Some (demo_buffer 512)" "storage demo_executor ''z'' = None"
    by (simp_all add: demo_executor_def)
  have plain: "\<not> is_compact (demo_buffer 512)" by (simp add: demo_buffer_def is_compact_def)
  show ?thesis
    using dispatch_touches_only [OF host_checked_sim run, THEN conjunct1, rule_format, of "''z''"]
      dispatch_touches_only [OF host_checked_sim run, THEN conjunct1, rule_format, of "''a''"]
      run names b plain by (auto simp: expanded_def split: option.splits)
qed

text \<open>Row 1 of a store of one row: the write is refused.\<close>

definition demo_kv_write :: invocation where
  "demo_kv_write = (demo_call ''kv-write'' ''a'')\<lparr>attributes := [''row_offset'' \<mapsto> IntegerAttr 1]\<rparr>"

theorem kv_store_survives_witness:
  "\<exists>r y. execute_invocation sim demo_runtime demo_kv_write demo_executor = (r, y) \<and>
    storage y ''a'' = Some (demo_buffer 512)"
proof -
  obtain r y where run: "execute_invocation sim demo_runtime demo_kv_write demo_executor = (r, y)" by fastforce
  have call: "kernel_name demo_kv_write = ''kv-write''"
    "inputs demo_kv_write = demo_resource ''a'' # [demo_resource ''b'']"
    "outputs demo_kv_write = demo_resource ''a'' # []"
    by (simp_all add: demo_kv_write_def demo_call_def)
  have "storage y (rid (demo_resource ''a'')) = Some (demo_buffer 512)"
    by (rule kv_store_survives [OF host_checked_sim run call])
      (simp_all add: demo_executor_def demo_resource_def demo_buffer_def is_compact_def)
  then show ?thesis using run by (simp add: demo_resource_def)
qed

end
