(* ===== verification/Operator_Results.thy ===== *)
theory Operator_Results
  imports Simulated_Compute Matmul_Results Dispatch_Storage
begin

text \<open>
  What a dispatched elementwise Operator or matrix product means: the executor's storage, read as a map from names to
  host tensors, is updated at the output with the Operator's tensor, whatever the dispatch did
  to buffers, offers and compact inputs on the way.
\<close>

section \<open>The Operators on the store\<close>

definition operand :: "invocation \<Rightarrow> nat \<Rightarrow> (string \<Rightarrow> host_tensor option) \<Rightarrow> host_tensor option" where
  "operand call i S = Option.bind (nth_opt (inputs call) i) (\<lambda>r. S (rid r))"

definition binary_operator :: "device_float \<Rightarrow> string \<Rightarrow> host_tensor \<Rightarrow> host_tensor \<Rightarrow> host_tensor option" where
  "binary_operator F name a b =
     (if name = ''add'' \<or> name = ''residual-add'' then tensor_add F a b
      else if name = ''mul'' then pointwise_tensor (f_mul F) a b
      else if name = ''silu-mul'' then pointwise_tensor (\<lambda>x y. f_mul F (f_silu F x) y) a b
      else if name = ''concat'' then tensor_concat a b
      else None)"

text \<open>A product, also with a bias row or a residual added to it, and two gated ones.\<close>

definition products :: "string list" where
  "products = [''matmul'', ''matmul-bias'', ''matmul-residual'', ''gated-matmul'']"

definition operator_tensor :: "device_float \<Rightarrow> invocation \<Rightarrow> (string \<Rightarrow> host_tensor option) \<Rightarrow> host_tensor option" where
  "operator_tensor F call S =
     (if kernel_name call = ''silu'' then map_option (tensor_silu F) (operand call 0 S)
      else if kernel_name call \<in> set products then Option.bind (operand call 0 S) (\<lambda>a. Option.bind (operand call 1 S) (\<lambda>b.
        let flip_a = attribute_bool (attributes call) ''transpose_a'' False;
            flip_b = attribute_bool (attributes call) ''transpose_b'' False;
            product = tensor_matmul F flip_a flip_b a b
        in if kernel_name call = ''matmul'' then product
           else Option.bind (operand call 2 S) (\<lambda>c.
             if kernel_name call = ''gated-matmul'' then gated_tensor F flip_a flip_b a b c
             else plus_addend F (Some c) product)))
      else Option.bind (operand call 0 S) (\<lambda>a. Option.bind (operand call 1 S) (\<lambda>b.
        binary_operator F (kernel_name call) a b)))"

definition elementwise :: "string list" where
  "elementwise = [''add'', ''residual-add'', ''mul'', ''silu'', ''silu-mul'', ''concat'']"

text \<open>
  A product that \<open>matmul_kernel\<close> computes whatever the Device and the storage: the right matrix is
  transposed and has more than one column, and the product is below \<open>2 ^ 32\<close> elements.
\<close>

definition plain_matmul :: "invocation \<Rightarrow> (string \<Rightarrow> host_tensor option) \<Rightarrow> bool" where
  "plain_matmul call S \<longleftrightarrow> kernel_name call \<in> set products \<and> attribute_bool (attributes call) ''transpose_b'' False \<and>
     (\<forall>a b. operand call 0 S = Some a \<longrightarrow> operand call 1 S = Some b \<longrightarrow>
       (\<exists>rows cols n k. rectangular a rows cols \<and> rectangular b n k \<and> k \<noteq> 1 \<and>
         unat (if attribute_bool (attributes call) ''transpose_a'' False then cols else rows) * unat n < 2 ^ 32))"

definition computable :: "invocation \<Rightarrow> (string \<Rightarrow> host_tensor option) \<Rightarrow> bool" where
  "computable call S \<longleftrightarrow> kernel_name call \<in> set elementwise \<or> plain_matmul call S"

section \<open>Executors whose buffers do not share memory\<close>

definition separate :: "'d executor \<Rightarrow> bool" where
  "separate x \<longleftrightarrow> (\<forall>n m b c. n \<noteq> m \<longrightarrow> storage x n = Some b \<longrightarrow> storage x m = Some c \<longrightarrow>
     bf16 b = None \<longrightarrow> bf16 c = None \<longrightarrow> ptr (buf_slice b) \<noteq> ptr (buf_slice c))"

text \<open>The states between dispatches: outside a capture, with nothing offered.\<close>

definition steady :: "'d view \<Rightarrow> ('d \<Rightarrow> bool) \<Rightarrow> 'd executor \<Rightarrow> bool" where
  "steady V X x \<longleftrightarrow> resident V x \<and> separate x \<and> X (device (kernels x)) \<and> offered_output (kernels x) = None"

lemma steadyD:
  "steady V X x \<Longrightarrow> resident V x" "steady V X x \<Longrightarrow> separate x"
  "steady V X x \<Longrightarrow> X (device (kernels x))" "steady V X x \<Longrightarrow> offered_output (kernels x) = None"
  by (simp_all add: steady_def)

lemma holds_wf: "holds V d b t \<Longrightarrow> wf_buffer b \<Longrightarrow> wf_host t"
proof -
  assume "holds V d b t" "wf_buffer b"
  then have "unat (buffer_len b) = length (tdata t)" "buffer_len b = shape_len (tshape t)"
    by (simp_all add: holds_def wf_buffer_def)
  moreover have "of_nat (unat (buffer_len b)) = buffer_len b" by simp
  ultimately show "wf_host t" by (simp only: wf_host_def)
qed

text \<open>
  A step from \<open>x\<close> to \<open>z\<close> that leaves the buffers of all other names alone and spares them,
  and puts a buffer under \<open>name\<close>, or none.
\<close>

definition replaces :: "'d view \<Rightarrow> u64 set \<Rightarrow> string \<Rightarrow> 'd executor \<Rightarrow> 'd executor \<Rightarrow> bool" where
  "replaces V P name x z \<longleftrightarrow> spared V P (device (kernels x)) (device (kernels z)) \<and>
     (\<forall>n. n \<noteq> name \<longrightarrow> storage z n = storage x n) \<and>
     (\<forall>n b. n \<noteq> name \<longrightarrow> storage x n = Some b \<longrightarrow> bf16 b = None \<longrightarrow> ptr (buf_slice b) \<notin> P)"

lemma replaces_holds:
  assumes "resident V x" "replaces V P name x z" "n \<noteq> name" "storage z n = Some b"
  shows "\<exists>t. holds V (device (kernels z)) b t \<and> tensors V x n = Some t"
proof -
  have b: "storage x n = Some b" using assms by (simp add: replaces_def)
  obtain t where "holds V (device (kernels x)) b t" "tensors V x n = Some t"
    using residentD [OF assms(1) b] by blast
  moreover have "bf16 b = None \<longrightarrow> ptr (buf_slice b) \<notin> P" "spared V P (device (kernels x)) (device (kernels z))"
    using assms(2,3) b unfolding replaces_def by (auto simp only:)
  ultimately have "holds V (device (kernels z)) b t" by (auto intro: holds_spared)
  then show ?thesis using \<open>tensors V x n = Some t\<close> by (intro exI conjI)
qed

lemma replaces_others:
  assumes "resident V x" "replaces V P name x z" "n \<noteq> name"
  shows "tensors V z n = tensors V x n"
proof (cases "storage z n")
  case None
  then show ?thesis using assms(2,3) by (simp add: replaces_def tensors_def)
next
  case (Some b)
  then show ?thesis using replaces_holds [OF assms Some] tensors_holds [OF Some] by auto
qed

lemma replaced_drop:
  assumes "resident V x" "separate x" "replaces V P name x z" "storage z name = None"
  shows "resident V z" "separate z" "tensors V z = (tensors V x)(name := None)"
proof -
  show "resident V z" unfolding resident_def
    using replaces_holds [OF assms(1,3)] assms(4) by (metis option.distinct(1))
  show "separate z" using assms(2-4) unfolding separate_def replaces_def by (metis option.distinct(1))
  show "tensors V z = (tensors V x)(name := None)"
    using replaces_others [OF assms(1,3)] assms(4) by (auto simp: fun_eq_iff tensors_def [of _ z])
qed

lemma replaced_put:
  assumes "resident V x" "separate x" "replaces V P name x z" "storage z name = Some b"
    and t: "holds V (device (kernels z)) b t" and p: "bf16 b = None \<Longrightarrow>
      ptr (buf_slice b) \<in> P \<or> f32_at V (device (kernels x)) (ptr (buf_slice b)) = None"
  shows "resident V z" "separate z" "tensors V z = (tensors V x)(name \<mapsto> t)"
proof -
  show "resident V z" unfolding resident_def
    using replaces_holds [OF assms(1,3)] assms(4) t by (metis option.inject)
  have "ptr (buf_slice c) \<noteq> ptr (buf_slice b)"
    if c: "n \<noteq> name" "storage x n = Some c" "bf16 c = None" "bf16 b = None" for n c
  proof -
    obtain u where "f32_at V (device (kernels x)) (ptr (buf_slice c)) = Some u"
      using residentD [OF assms(1) c(2)] c(3) by (auto simp: holds_def content_def)
    moreover have "ptr (buf_slice c) \<notin> P" using assms(3) c unfolding replaces_def by blast
    ultimately show ?thesis using p [OF c(4)] by auto
  qed
  note new = this
  have st: "storage z n = storage x n" if "n \<noteq> name" for n using assms(3) that by (simp add: replaces_def)
  show "separate z" unfolding separate_def
  proof (intro allI impI)
    fix n m c e
    assume "n \<noteq> m" "storage z n = Some c" "storage z m = Some e" "bf16 c = None" "bf16 e = None"
    then show "ptr (buf_slice c) \<noteq> ptr (buf_slice e)"
      using new [of n c] new [of m e] st [of n] st [of m] assms(2,4) unfolding separate_def
      by (metis option.inject)
  qed
  show "tensors V z = (tensors V x)(name \<mapsto> t)"
    using replaces_others [OF assms(1,3)] tensors_holds [OF assms(4) t] by (auto simp: fun_eq_iff)
qed

section \<open>Kernel calls on the executor\<close>

lemma kernel_call_result:
  assumes "computes V X m t (kernels x)" "kernel_call m x = (r, y)"
  shows "storage y = storage x \<and> (case r of Inl _ \<Rightarrow> gave_up V X (kernels x) (kernels y)
     | Inr b \<Rightarrow> gives V X t (kernels x) b (kernels y))"
proof -
  obtain q k where m: "m (kernels x) = (q, k)" by fastforce
  show ?thesis
  proof (cases q)
    case (Inl e)
    then have "r = Inl (into_kernel_error e)" "y = x\<lparr>kernels := k\<rparr>"
      using assms(2) m by (auto simp: kernel_call_def map_err_def kern_def inside_def)
    then show ?thesis using assms(1) m Inl by (simp add: computes_def pre_def)
  next
    case (Inr b)
    then have "r = Inr b" "y = x\<lparr>kernels := k\<rparr>"
      using assms(2) m by (auto simp: kernel_call_def map_err_def kern_def inside_def)
    then show ?thesis using assms(1) m Inr by (simp add: computes_def pre_def)
  qed
qed

lemma get_input_cases:
  assumes "get_input call i x = (r, y)"
  shows "y = x" "r = Inr b \<Longrightarrow> \<exists>q \<in> set (inputs call). nth_opt (inputs call) i = Some q \<and> storage x (rid q) = Some b"
proof -
  show "y = x" using keepsD [OF ok_get_input assms] assms
    by (auto simp: get_input_def andthen_def lift_def gets_def ret_def throw_def split: sum.splits option.splits)
  assume "r = Inr b"
  then show "\<exists>q \<in> set (inputs call). nth_opt (inputs call) i = Some q \<and> storage x (rid q) = Some b"
    using assms by (auto simp: get_input_def input_resource_id_def andthen_def lift_def gets_def ret_def throw_def
        nth_opt_def split: sum.splits option.splits if_splits)
qed

text \<open>The inputs of an invocation hold the tensors of \<open>S\<close>, and none of them is the offer.\<close>

definition feeding :: "'d view \<Rightarrow> (string \<Rightarrow> host_tensor option) \<Rightarrow> invocation \<Rightarrow> 'd executor \<Rightarrow> bool" where
  "feeding V S call y \<longleftrightarrow> (\<forall>r \<in> set (inputs call). \<forall>b. storage y (rid r) = Some b \<longrightarrow>
     (\<exists>t. feeds V (kernels y) b t \<and> S (rid r) = Some t \<and> length (tdata t) < 2 ^ 32))"

definition ends_with :: "'d view \<Rightarrow> ('d \<Rightarrow> bool) \<Rightarrow> host_tensor option \<Rightarrow> 'd executor \<Rightarrow>
    kernel_error + device_buffer \<Rightarrow> 'd executor \<Rightarrow> bool" where
  "ends_with V X t y q z \<longleftrightarrow> storage z = storage y \<and> (case q of
     Inl _ \<Rightarrow> gave_up V X (kernels y) (kernels z) | Inr b \<Rightarrow> gives V X t (kernels y) b (kernels z))"

lemma input_then:
  assumes k: "ready D V X F (kernels y)" and fd: "feeding V S call y"
    and f: "\<And>b t. feeds V (kernels y) b t \<Longrightarrow> operand call i S = Some t \<Longrightarrow> length (tdata t) < 2 ^ 32 \<Longrightarrow>
        f b y = (q, z) \<Longrightarrow> ends_with V X (g t) y q z"
    and run: "andthen (get_input call i) f y = (q, z)"
  shows "ends_with V X (Option.bind (operand call i S) g) y q z"
proof -
  obtain p w where get: "get_input call i y = (p, w)" by fastforce
  note w = get_input_cases(1) [OF get]
  show ?thesis
  proof (cases p)
    case (Inl e)
    then have "q = Inl e" "z = y" using run get w by (simp_all add: andthen_def)
    then show ?thesis using readyD(2) [OF k] by (simp add: ends_with_def gave_up_intact)
  next
    case (Inr b)
    obtain r where r: "r \<in> set (inputs call)" "nth_opt (inputs call) i = Some r" "storage y (rid r) = Some b"
      using get_input_cases(2) [OF get Inr] by blast
    then obtain t where t: "feeds V (kernels y) b t" "S (rid r) = Some t" "length (tdata t) < 2 ^ 32"
      using fd unfolding feeding_def by blast
    have "f b y = (q, z)" using run get w Inr by (simp add: andthen_def)
    moreover have o: "operand call i S = Some t" using r(2) t(2) by (simp add: operand_def)
    ultimately show ?thesis using f [OF t(1) o t(3)] by simp
  qed
qed

lemma kernel_call_ends:
  "computes V X m t (kernels y) \<Longrightarrow> kernel_call m y = (q, z) \<Longrightarrow> ends_with V X t y q z"
  using kernel_call_result [of V X m t y q z] by (simp add: ends_with_def)

lemma unary_ends:
  assumes k: "ready D V X F (kernels y)" and "feeding V S call y"
    and f: "\<And>a ta. feeds V (kernels y) a ta \<Longrightarrow> length (tdata ta) < 2 ^ 32 \<Longrightarrow>
        computes V X (f a) (Some (g ta)) (kernels y)"
    and run: "andthen (get_input call 0) (\<lambda>a. kernel_call (f a)) y = (q, z)"
  shows "ends_with V X (map_option g (operand call 0 S)) y q z"
proof -
  have "ends_with V X (Option.bind (operand call 0 S) (\<lambda>ta. Some (g ta))) y q z"
    by (rule input_then [OF assms(1,2) _ run]) (rule kernel_call_ends [OF f])
  then show ?thesis by (simp add: map_conv_bind_option comp_def)
qed

lemma lift_ends:
  assumes k: "ready D V X F (kernels y)" and f: "\<And>u. r = Inr u \<Longrightarrow> m u y = (q, z) \<Longrightarrow> ends_with V X t y q z"
    and run: "andthen (lift r) m y = (q, z)"
  shows "ends_with V X t y q z"
proof (cases r)
  case (Inl e)
  then show ?thesis using run readyD(2) [OF k] by (auto simp: andthen_def lift_def ends_with_def gave_up_intact)
next
  case (Inr u)
  then show ?thesis using f [OF Inr] run by (simp add: andthen_def lift_def)
qed

lemma binary_ends:
  assumes k: "ready D V X F (kernels y)" and "feeding V S call y"
    and f: "\<And>a b ta tb. feeds V (kernels y) a ta \<Longrightarrow> feeds V (kernels y) b tb \<Longrightarrow>
        operand call 0 S = Some ta \<Longrightarrow> operand call 1 S = Some tb \<Longrightarrow>
        length (tdata ta) < 2 ^ 32 \<Longrightarrow> length (tdata tb) < 2 ^ 32 \<Longrightarrow> f a b y = (q, z) \<Longrightarrow> ends_with V X (g ta tb) y q z"
    and run: "andthen (get_input call 0) (\<lambda>a. andthen (get_input call 1) (f a)) y = (q, z)"
  shows "ends_with V X (Option.bind (operand call 0 S) (\<lambda>ta. Option.bind (operand call 1 S) (g ta))) y q z"
proof (rule input_then [OF assms(1,2) _ run])
  fix a ta
  assume a: "feeds V (kernels y) a ta" "operand call 0 S = Some ta" "length (tdata ta) < 2 ^ 32"
    and rest: "andthen (get_input call 1) (f a) y = (q, z)"
  show "ends_with V X (Option.bind (operand call 1 S) (g ta)) y q z"
    by (rule input_then [OF assms(1,2) _ rest]) (rule f [OF a(1) _ a(2) _ a(3)])
qed

lemma ternary_ends:
  assumes k: "ready D V X F (kernels y)" and fd: "feeding V S call y"
    and f: "\<And>a b c ta tb tc. feeds V (kernels y) a ta \<Longrightarrow> feeds V (kernels y) b tb \<Longrightarrow> feeds V (kernels y) c tc \<Longrightarrow>
        operand call 0 S = Some ta \<Longrightarrow> operand call 1 S = Some tb \<Longrightarrow> f a b c y = (q, z) \<Longrightarrow>
        ends_with V X (g ta tb tc) y q z"
    and run: "andthen (get_input call 0) (\<lambda>a. andthen (get_input call 1) (\<lambda>b. andthen (get_input call 2) (f a b))) y = (q, z)"
  shows "ends_with V X (Option.bind (operand call 0 S) (\<lambda>ta. Option.bind (operand call 1 S) (\<lambda>tb.
    Option.bind (operand call 2 S) (g ta tb)))) y q z"
proof (rule binary_ends [OF k fd _ run])
  fix a b ta tb
  assume ab: "feeds V (kernels y) a ta" "feeds V (kernels y) b tb" "operand call 0 S = Some ta" "operand call 1 S = Some tb"
    and rest: "andthen (get_input call 2) (f a b) y = (q, z)"
  show "ends_with V X (Option.bind (operand call 2 S) (g ta tb)) y q z"
    by (rule input_then [OF k fd _ rest]) (rule f [OF ab(1,2) _ ab(3,4)])
qed

lemma matmul_ends:
  assumes k: "ready D V X F (kernels y)" and fd: "feeding V S call y"
    and plain: "plain_matmul call S" and run: "run_kernel D R call y = (q, z)"
  shows "ends_with V X (operator_tensor F call S) y q z"
proof -
  let ?flip = "attribute_bool (attributes call) ''transpose_a'' False"
    and ?tb = "attribute_bool (attributes call) ''transpose_b'' False"
    and ?acc = "lift (require_f32_accumulation (attributes call))"
  have tb: "?tb" using plain by (simp add: plain_matmul_def)
  have dims: "\<exists>rows cols n c. rectangular t rows cols \<and> rectangular u n c \<and> c \<noteq> 1 \<and>
      unat (if ?flip then cols else rows) * unat n < 2 ^ 32"
    if "operand call 0 S = Some t" "operand call 1 S = Some u" for t u
    using plain that unfolding plain_matmul_def by blast
  have addend: "ends_with V X (operator_tensor F call S) y q z"
    if name: "kernel_name call \<in> set products" "kernel_name call \<noteq> ''matmul''" "kernel_name call \<noteq> ''gated-matmul''"
      and r: "andthen (get_input call 0) (\<lambda>a. andthen (get_input call 1) (\<lambda>b. andthen (get_input call 2) (\<lambda>c.
        andthen ?acc (\<lambda>_. kernel_call (op a b c ?flip ?tb))))) y = (q, z)"
      and op: "op = matmul_bias D \<or> op = matmul_residual D" for op
  proof -
    have "ends_with V X (Option.bind (operand call 0 S) (\<lambda>t. Option.bind (operand call 1 S) (\<lambda>u.
        Option.bind (operand call 2 S) (\<lambda>v. plus_addend F (Some v) (tensor_matmul F ?flip True t u))))) y q z"
    proof (rule ternary_ends [OF k fd _ r])
      fix a b c t u v
      assume f: "feeds V (kernels y) a t" "feeds V (kernels y) b u" "feeds V (kernels y) c v"
        and o: "operand call 0 S = Some t" "operand call 1 S = Some u"
        and rest: "andthen ?acc (\<lambda>_. kernel_call (op a b c ?flip ?tb)) y = (q, z)"
      obtain rows cols n e where "rectangular t rows cols" "rectangular u n e" "e \<noteq> 1"
        "unat (if ?flip then cols else rows) * unat n < 2 ^ 32" using dims [OF o] by blast
      note computes = computes_matmuls(2,3) [OF k f(1,2) this f(3)]
      show "ends_with V X (plus_addend F (Some v) (tensor_matmul F ?flip True t u)) y q z"
        by (rule lift_ends [OF k _ rest]) (use kernel_call_ends [OF computes(1)] kernel_call_ends [OF computes(2)] op tb in auto)
    qed
    moreover have "kernel_name call \<noteq> ''silu''" using name(1) by (auto simp: products_def)
    ultimately show ?thesis using name tb by (simp add: operator_tensor_def Let_def)
  qed
  have gated: ?thesis if name: "kernel_name call = ''gated-matmul''"
  proof -
    have "andthen ?acc (\<lambda>_. andthen (get_input call 0) (\<lambda>a. andthen (get_input call 1) (\<lambda>b. andthen (get_input call 2) (\<lambda>c.
        kernel_call (gated_matmul D a b c ?flip ?tb))))) y = (q, z)"
      using run name by (simp add: run_kernel_def dispatch_matmul_def Let_def)
    then have "ends_with V X (Option.bind (operand call 0 S) (\<lambda>t. Option.bind (operand call 1 S) (\<lambda>u.
        Option.bind (operand call 2 S) (gated_tensor F ?flip True t u)))) y q z"
    proof (rule lift_ends [OF k, rotated])
      assume r: "andthen (get_input call 0) (\<lambda>a. andthen (get_input call 1) (\<lambda>b. andthen (get_input call 2) (\<lambda>c.
        kernel_call (gated_matmul D a b c ?flip ?tb)))) y = (q, z)"
      show "ends_with V X (Option.bind (operand call 0 S) (\<lambda>t. Option.bind (operand call 1 S) (\<lambda>u.
        Option.bind (operand call 2 S) (gated_tensor F ?flip True t u)))) y q z"
      proof (rule ternary_ends [OF k fd _ r])
        fix a b c t u v
        assume f: "feeds V (kernels y) a t" "feeds V (kernels y) b u" "feeds V (kernels y) c v"
          and o: "operand call 0 S = Some t" "operand call 1 S = Some u"
          and rest: "kernel_call (gated_matmul D a b c ?flip ?tb) y = (q, z)"
        obtain rows cols n e where "rectangular t rows cols" "rectangular u n e" "e \<noteq> 1"
          "unat (if ?flip then cols else rows) * unat n < 2 ^ 32" using dims [OF o] by blast
        from kernel_call_ends [OF computes_gated [OF k f this]] rest
        show "ends_with V X (gated_tensor F ?flip True t u v) y q z" using tb by simp
      qed
    qed
    then show ?thesis using name tb by (simp add: operator_tensor_def products_def Let_def)
  qed
  show ?thesis
  proof (cases "kernel_name call = ''matmul''")
    case True
    have r: "andthen (get_input call 0) (\<lambda>a. andthen (get_input call 1) (\<lambda>b. andthen ?acc
        (\<lambda>_. kernel_call (matmul D a b ?flip ?tb)))) y = (q, z)"
      using run True by (simp add: run_kernel_def dispatch_matmul_def Let_def)
    have "ends_with V X (Option.bind (operand call 0 S) (\<lambda>t. Option.bind (operand call 1 S) (tensor_matmul F ?flip True t))) y q z"
    proof (rule binary_ends [OF k fd _ r])
      fix a b t u
      assume f: "feeds V (kernels y) a t" "feeds V (kernels y) b u"
        and o: "operand call 0 S = Some t" "operand call 1 S = Some u"
        and rest: "andthen ?acc (\<lambda>_. kernel_call (matmul D a b ?flip ?tb)) y = (q, z)"
      obtain rows cols n e where "rectangular t rows cols" "rectangular u n e" "e \<noteq> 1"
        "unat (if ?flip then cols else rows) * unat n < 2 ^ 32" using dims [OF o] by blast
      note computes = computes_matmuls(1) [OF k f(1,2) this]
      show "ends_with V X (tensor_matmul F ?flip True t u) y q z"
        by (rule lift_ends [OF k _ rest]) (use kernel_call_ends [OF computes] tb in simp)
    qed
    then show ?thesis using True tb by (simp add: operator_tensor_def products_def)
  next
    case False
    have name: "kernel_name call \<in> set products" using plain by (simp add: plain_matmul_def)
    then consider "kernel_name call = ''gated-matmul''" | "kernel_name call = ''matmul-bias''" | "kernel_name call = ''matmul-residual''"
      using False by (auto simp: products_def)
    then show ?thesis
    proof cases
      case 1
      then show ?thesis by (rule gated)
    next
      case 2
      then show ?thesis using addend [OF name False, of "matmul_bias D"] run
        by (simp add: run_kernel_def dispatch_matmul_def Let_def)
    next
      case 3
      then show ?thesis using addend [OF name False, of "matmul_residual D"] run
        by (simp add: run_kernel_def dispatch_matmul_def Let_def)
    qed
  qed
qed

lemma run_kernel_ends:
  assumes k: "ready D V X F (kernels y)" and fd: "feeding V S call y"
    and name: "computable call S" and run: "run_kernel D R call y = (q, z)"
  shows "ends_with V X (operator_tensor F call S) y q z"
proof (cases "plain_matmul call S")
  case True
  then show ?thesis by (rule matmul_ends [OF k fd _ run])
next
  case False
  have binary: ?thesis if "kernel_name call \<noteq> ''silu''" "kernel_name call \<notin> set products"
      "run_kernel D R call = andthen (get_input call 0) (\<lambda>a. andthen (get_input call 1) (\<lambda>b. kernel_call (f a b)))"
      and f: "\<And>a b ta tb. feeds V (kernels y) a ta \<Longrightarrow> feeds V (kernels y) b tb \<Longrightarrow> length (tdata ta) < 2 ^ 32 \<Longrightarrow>
        length (tdata tb) < 2 ^ 32 \<Longrightarrow> computes V X (f a b) (binary_operator F (kernel_name call) ta tb) (kernels y)" for f
    using binary_ends [OF k fd kernel_call_ends [OF f] run [unfolded that(3)]] that(1,2) by (simp add: operator_tensor_def)
  note ops = computes_add [OF k] computes_residual_add [OF k] computes_mul [OF k] computes_silu_mul [OF k]
    computes_concat [OF k]
  consider "kernel_name call = ''silu''" | "kernel_name call = ''add''" | "kernel_name call = ''residual-add''" |
    "kernel_name call = ''mul''" | "kernel_name call = ''silu-mul''" | "kernel_name call = ''concat''"
    using name False by (auto simp: computable_def elementwise_def)
  then show ?thesis
  proof cases
    case 1
    have "andthen (get_input call 0) (\<lambda>a. kernel_call (silu D a)) y = (q, z)"
      using run 1 by (simp add: run_kernel_def)
    from unary_ends [OF k fd computes_silu [OF k] this] show ?thesis using 1 by (simp add: operator_tensor_def)
  next
    case 2
    show ?thesis by (rule binary [of "add D"]) (use 2 ops in \<open>simp_all add: run_kernel_def binary_operator_def products_def\<close>)
  next
    case 3
    show ?thesis by (rule binary [of "residual_add D"]) (use 3 ops in \<open>simp_all add: run_kernel_def binary_operator_def products_def\<close>)
  next
    case 4
    show ?thesis by (rule binary [of "mul D"]) (use 4 ops in \<open>simp_all add: run_kernel_def binary_operator_def products_def\<close>)
  next
    case 5
    show ?thesis by (rule binary [of "silu_mul D"]) (use 5 ops in \<open>simp_all add: run_kernel_def binary_operator_def products_def\<close>)
  next
    case 6
    show ?thesis by (rule binary [of "concat_rows D"]) (use 6 ops in \<open>simp_all add: run_kernel_def binary_operator_def products_def\<close>)
  qed
qed

section \<open>Expanding the inputs changes no tensor\<close>

lemma steady_intact:
  assumes "steady V X x" "storage y = storage x" "intact V (device (kernels x)) (device (kernels y))"
    "X (device (kernels y))" "offered_output (kernels y) = None"
  shows "steady V X y \<and> tensors V y = tensors V x"
  using same_tensors [OF steadyD(1) [OF assms(1)] assms(3,2)] assms by (simp add: steady_def separate_def)

lemma expand_one:
  assumes M: "device_memory D V" and H: "host_checked D" and C: "device_computes D V X F"
    and x: "steady V X x" and b: "storage x name = Some b" and run: "kernel_call (expand D b) x = (r, y)"
  shows "case r of Inl _ \<Rightarrow> steady V X y \<and> tensors V y = tensors V x
    | Inr e \<Rightarrow> steady V X (set_storage name e y) \<and> tensors V (set_storage name e y) = tensors V x"
proof -
  obtain t where t: "holds V (device (kernels x)) b t" "tensors V x name = Some t"
    using residentD [OF steadyD(1) [OF x] b] by blast
  note k = kernel_call_result [OF computes_expand [OF M H C steadyD(3) [OF x] t(1) steadyD(4) [OF x]] run]
  have none: "offers (kernels x) = {}" using steadyD(4) [OF x] by (simp add: offers_def)
  have o: "offered_output (kernels y) = None"
    using keepsD [OF keeps_kernel_call [OF keeps_expand [of "\<lambda>_. True" D b]] run] steadyD(4) [OF x]
    by (auto simp: exec_frame_def frame_le_def offer_le_def)
  show ?thesis
  proof (cases r)
    case (Inl e)
    then show ?thesis using steady_intact [OF x, of y] k o none by (simp add: gave_up_def spared_none)
  next
    case (Inr e)
    let ?z = "set_storage name e y"
    have g: "gives V X (Some t) (kernels x) e (kernels y)" "storage y = storage x" using k Inr by simp_all
    then have "replaces V {} name x ?z" using none by (simp add: replaces_def gives_def)
    note put = replaced_put [OF steadyD(1,2) [OF x] this, of e t]
    have "steady V X ?z" "tensors V ?z = (tensors V x)(name \<mapsto> t)"
      using put g none o by (simp_all add: steady_def gives_def new_place_def)
    then show ?thesis using Inr t(2) by (simp add: fun_upd_idem)
  qed
qed

lemma expand_inputs_steady:
  assumes M: "device_memory D V" and H: "host_checked D" and C: "device_computes D V X F"
  shows "steady V X x \<Longrightarrow> expand_inputs D name i ins x = (q, y) \<Longrightarrow> steady V X y \<and> tensors V y = tensors V x"
proof (induction ins arbitrary: i x)
  case Nil
  then show ?case by (simp add: ret_def)
next
  case (Cons r ins)
  have step: "expand_inputs D name i (r # ins) x =
      (case storage x (rid r) of None \<Rightarrow> expand_inputs D name (Suc i) ins x
       | Some b \<Rightarrow> if reads_compact name i \<or> \<not> is_compact b then expand_inputs D name (Suc i) ins x
           else (case kernel_call (expand D b) x of (Inl e, z) \<Rightarrow> (Inl e, z)
             | (Inr v, z) \<Rightarrow> expand_inputs D name (Suc i) ins (set_storage (rid r) v z)))"
    by (simp add: andthen_def gets_def ret_def modify_def split: option.split prod.split sum.split)
  consider (skip) "expand_inputs D name i (r # ins) x = expand_inputs D name (Suc i) ins x" |
    (expand) b where "storage x (rid r) = Some b" "expand_inputs D name i (r # ins) x =
      (case kernel_call (expand D b) x of (Inl e, z) \<Rightarrow> (Inl e, z)
       | (Inr v, z) \<Rightarrow> expand_inputs D name (Suc i) ins (set_storage (rid r) v z))"
    using step by (cases "storage x (rid r)") (auto split: if_splits)
  then show ?case
  proof cases
    case skip
    then show ?thesis using Cons by simp
  next
    case (expand b)
    obtain p z where k: "kernel_call (expand D b) x = (p, z)" by fastforce
    note one = expand_one [OF M H C Cons.prems(1) expand(1) k]
    show ?thesis
    proof (cases p)
      case (Inl e)
      then show ?thesis using one expand(2) k Cons.prems(2) by simp
    next
      case (Inr v)
      then show ?thesis using one expand(2) k Cons.prems(2) Cons.IH [of "set_storage (rid r) v z" "Suc i"] by simp
    qed
  qed
qed

section \<open>The offered output\<close>

definition small_inputs :: "'d view \<Rightarrow> invocation \<Rightarrow> 'd executor \<Rightarrow> bool" where
  "small_inputs V call x \<longleftrightarrow> (\<forall>r \<in> set (inputs call). \<forall>t. tensors V x (rid r) = Some t \<longrightarrow> length (tdata t) < 2 ^ 32)"

lemma feeding_from:
  assumes x: "resident V x" "wf_store x" "small_inputs V call x" and d: "device (kernels y) = device (kernels x)"
    and st: "\<And>r b. r \<in> set (inputs call) \<Longrightarrow> storage y (rid r) = Some b \<Longrightarrow> storage x (rid r) = Some b \<and>
      (bf16 b = None \<longrightarrow> ptr (buf_slice b) \<notin> offers (kernels y))"
  shows "feeding V (tensors V x) call y"
  unfolding feeding_def
proof (intro ballI allI impI)
  fix r b assume r: "r \<in> set (inputs call)" "storage y (rid r) = Some b"
  from st [OF this] have b: "storage x (rid r) = Some b" "bf16 b = None \<longrightarrow> ptr (buf_slice b) \<notin> offers (kernels y)"
    by simp_all
  obtain t where t: "holds V (device (kernels x)) b t" "tensors V x (rid r) = Some t"
    using residentD [OF x(1) b(1)] by blast
  have "wf_host t" by (rule holds_wf [OF t(1) wf_storeD [OF x(2) b(1)]])
  moreover have "length (tdata t) < 2 ^ 32" using x(3) r(1) t(2) by (simp add: small_inputs_def)
  ultimately show "\<exists>t. feeds V (kernels y) b t \<and> tensors V x (rid r) = Some t \<and> length (tdata t) < 2 ^ 32"
    using t b(2) d by (auto simp: feeds_def)
qed

text \<open>Nothing is offered.\<close>

lemma not_offered:
  assumes C: "device_computes D V X F" and x: "steady V X x" and "previous_output call x = None"
  shows "take_offer (previous_output call x) x = x" "ready D V X F (kernels x)" "offers (kernels x) = {}"
  using assms by (simp_all add: take_offer_def offer_output_def steady_def ready_def offer_backed_def offers_def)

text \<open>The first output's buffer is offered.\<close>

lemma offered:
  assumes C: "device_computes D V X F" and x: "steady V X x" and o: "previous_output call x = Some (name, b)"
  defines "y \<equiv> take_offer (previous_output call x) x"
  shows "\<exists>out rest. outputs call = out # rest \<and> name = rid out" "storage x name = Some b" "bf16 b = None"
    "storage y = (storage x)(name := None)" "device (kernels y) = device (kernels x)"
    "offered_output (kernels y) = Some (buf_slice b)" "offers (kernels y) = {ptr (buf_slice b)}"
    "ready D V X F (kernels y)"
    "\<And>n c. n \<noteq> name \<Longrightarrow> storage x n = Some c \<Longrightarrow> bf16 c = None \<Longrightarrow> ptr (buf_slice c) \<notin> offers (kernels y)"
proof -
  show b: "storage x name = Some b" "bf16 b = None" "\<exists>out rest. outputs call = out # rest \<and> name = rid out"
    using o by (auto simp: previous_output_def is_compact_def split: list.splits if_splits option.splits)
  show y: "storage y = (storage x)(name := None)" "device (kernels y) = device (kernels x)"
    "offered_output (kernels y) = Some (buf_slice b)"
    by (simp_all add: y_def o take_offer_def Let_def offer_output_def)
  then show p: "offers (kernels y) = {ptr (buf_slice b)}" by (simp add: offers_def)
  obtain t where "holds V (device (kernels x)) b t" using residentD [OF steadyD(1) [OF x] b(1)] by blast
  then have "offer_backed V (kernels y)" using y(2,3) b(2)
    by (simp add: offer_backed_def holds_def content_def buffer_len_def)
  then show "ready D V X F (kernels y)" using C steadyD(3) [OF x] y(2) by (simp add: ready_def)
  show "ptr (buf_slice c) \<notin> offers (kernels y)" if "n \<noteq> name" "storage x n = Some c" "bf16 c = None" for n c
    using steadyD(2) [OF x] that b unfolding separate_def p by blast
qed

lemma store_output_run:
  "store_output call 0 b s = (case outputs call of
     [] \<Rightarrow> (Inl (KernelExecutionFailed ''missing output at index''), s)
   | out # rest \<Rightarrow> (Inr out, set_storage (rid out) b s))"
  by (simp add: store_output_def nth_opt_def throw_def andthen_def modify_def ret_def split: list.split)

text \<open>
  What a dispatch leaves: on success the output holds the Operator's tensor; on failure the store
  is as it was, or without the output.
\<close>

definition dispatched :: "'d view \<Rightarrow> ('d \<Rightarrow> bool) \<Rightarrow> host_tensor option \<Rightarrow> invocation \<Rightarrow> 'd executor \<Rightarrow> bool \<Rightarrow> 'd executor \<Rightarrow> bool" where
  "dispatched V X t call x failed y \<longleftrightarrow> steady V X y \<and>
     (if failed then tensors V y = tensors V x \<or>
        (\<exists>out rest. outputs call = out # rest \<and> tensors V y = (tensors V x)(rid out := None))
      else \<exists>out rest u. outputs call = out # rest \<and> t = Some u \<and> tensors V y = (tensors V x)(rid out \<mapsto> u))"

lemma clear_offer_fields [simp]:
  "storage (clear_offer x) = storage x" "device (kernels (clear_offer x)) = device (kernels x)"
  "offered_output (kernels (clear_offer x)) = None"
  by (simp_all add: clear_offer_def drop_offer_def)

lemma dispatched_success:
  assumes x: "steady V X x" and out: "outputs call = out # rest"
    and st: "\<And>n. n \<noteq> rid out \<Longrightarrow> storage z n = storage x n" and dv: "device k = device (kernels x)"
    and P: "\<And>n c. n \<noteq> rid out \<Longrightarrow> storage x n = Some c \<Longrightarrow> bf16 c = None \<Longrightarrow> ptr (buf_slice c) \<notin> offers k"
    and g: "gives V X t k b (kernels z)"
  shows "dispatched V X t call x False (clear_offer (set_storage (rid out) b z))"
proof -
  let ?y = "clear_offer (set_storage (rid out) b z)"
  obtain u where u: "t = Some u" "holds V (device (kernels z)) b u" using g by (cases t) (auto simp: gives_def)
  have "replaces V (offers k) (rid out) x ?y"
    unfolding replaces_def using g st P dv by (auto simp: gives_def)
  moreover have "ptr (buf_slice b) \<in> offers k \<or> f32_at V (device (kernels x)) (ptr (buf_slice b)) = None"
    using g dv by (auto simp: gives_def new_place_def)
  ultimately have put: "resident V ?y" "separate ?y" "tensors V ?y = (tensors V x)(rid out \<mapsto> u)"
    using replaced_put [OF steadyD(1,2) [OF x], of "offers k" "rid out" ?y b u] u by simp_all
  then have "steady V X ?y" using g by (simp add: steady_def gives_def)
  then show ?thesis using put(3) out u(1) by (simp add: dispatched_def)
qed

text \<open>\<open>run_offered\<close> by what its Kernel does.\<close>

lemma run_offered_cases:
  assumes run: "run_offered D R call x = (q, y)" and k: "run_kernel D R call (take_offer (previous_output call x) x) = (p, z)"
  shows "case p of
      Inl e \<Rightarrow> q = Inl e \<and> y = clear_offer (restore_offer (previous_output call x) z)
    | Inr b \<Rightarrow> (case outputs call of
        [] \<Rightarrow> isl q \<and> y = clear_offer (restore_offer (previous_output call x) z)
      | out # rest \<Rightarrow> \<not> isl q \<and> y = clear_offer (set_storage (rid out) b z))"
  using run k
  by (auto simp: run_offered_def Let_def run_invocation_with_offer_def andthen_def store_output_run ret_def
      split: sum.splits list.splits)

lemma dispatched_unchanged:
  "steady V X y \<Longrightarrow> tensors V y = tensors V x \<Longrightarrow> dispatched V X t call x True y"
  by (simp add: dispatched_def)

text \<open>
  The invocation's Kernel, run at any moment of the dispatch from \<open>x\<close>, has the result \<open>t\<close>.
\<close>

definition kernel_means :: "'d external \<Rightarrow> runtime \<Rightarrow> 'd view \<Rightarrow> ('d \<Rightarrow> bool) \<Rightarrow> device_float \<Rightarrow> host_tensor option \<Rightarrow>
    invocation \<Rightarrow> 'd executor \<Rightarrow> bool" where
  "kernel_means D R V X F t call x \<longleftrightarrow> (\<forall>y q z. ready D V X F (kernels y) \<longrightarrow>
     capture_le (capture (kernels x)) (capture (kernels y)) \<longrightarrow> feeding V (tensors V x) call y \<longrightarrow>
     run_kernel D R call y = (q, z) \<longrightarrow> ends_with V X t y q z)"

lemma kernel_meansD:
  assumes "kernel_means D R V X F t call x" "ready D V X F (kernels y)" "feeding V (tensors V x) call y"
    "run_kernel D R call y = (q, z)" "capture_le (capture (kernels x)) (capture (kernels y))"
  shows "ends_with V X t y q z"
  using assms unfolding kernel_means_def by blast

lemma kernel_means_later:
  assumes "kernel_means D R V X F t call x" "tensors V u = tensors V x"
    "capture_le (capture (kernels x)) (capture (kernels u))"
  shows "kernel_means D R V X F t call u"
  using assms capture_le_trans [OF assms(3)] unfolding kernel_means_def by auto

lemma operator_means: "computable call (tensors V x) \<Longrightarrow> kernel_means D R V X F (operator_tensor F call (tensors V x)) call x"
  unfolding kernel_means_def using run_kernel_ends by blast

lemma run_offered_plain:
  assumes C: "device_computes D V X F" and x: "steady V X x" "wf_store x" "small_inputs V call x"
    and means: "kernel_means D R V X F t call x" and o: "previous_output call x = None"
    and run: "run_offered D R call x = (q, y)"
  shows "dispatched V X t call x (isl q) y"
proof -
  note no = not_offered [OF C x(1) o]
  obtain p z where k: "run_kernel D R call x = (p, z)" by fastforce
  note cases = run_offered_cases [OF run, unfolded no(1), OF k, unfolded o]
  have "feeding V (tensors V x) call x"
    by (rule feeding_from [OF steadyD(1) [OF x(1)] x(2,3)]) (simp_all add: no(3))
  note ends = kernel_meansD [OF means no(2) this k capture_le_refl]
  have same: "dispatched V X t call x True (clear_offer z)"
    if "storage z = storage x" "spared V {} (device (kernels x)) (device (kernels z))" "X (device (kernels z))"
    using steady_intact [OF x(1), of "clear_offer z"] that by (intro dispatched_unchanged) (simp_all add: spared_none)
  show ?thesis
  proof (cases p)
    case (Inl e)
    then show ?thesis using cases ends same no(3) by (simp add: ends_with_def gave_up_def restore_offer_def)
  next
    case (Inr b)
    have g: "storage z = storage x" "gives V X t (kernels x) b (kernels z)"
      using ends Inr by (simp_all add: ends_with_def)
    show ?thesis
    proof (cases "outputs call")
      case Nil
      then show ?thesis using cases Inr g same no(3) by (simp add: gives_def restore_offer_def)
    next
      case (Cons out rest)
      have "dispatched V X t call x False (clear_offer (set_storage (rid out) b z))"
        by (rule dispatched_success [OF x(1) Cons _ refl _ g(2)]) (simp_all add: g(1) no(3))
      then show ?thesis using cases Inr Cons by simp
    qed
  qed
qed

lemma run_offered_reuse:
  assumes C: "device_computes D V X F" and x: "steady V X x" "wf_store x" "small_inputs V call x"
    and means: "kernel_means D R V X F t call x" and o: "previous_output call x = Some (n, b0)"
    and run: "run_offered D R call x = (q, y)"
  shows "dispatched V X t call x (isl q) y"
proof -
  let ?w = "take_offer (previous_output call x) x"
  note w = offered [OF C x(1) o]
  obtain out rest where out: "outputs call = out # rest" "n = rid out" using w(1) by blast
  obtain p z where k: "run_kernel D R call ?w = (p, z)" by fastforce
  note cases = run_offered_cases [OF run k]
  have apart: "rid r \<noteq> n" if "r \<in> set (inputs call)" for r
    using o that out by (auto simp: previous_output_def list_ex_iff split: if_splits option.splits)
  have "feeding V (tensors V x) call ?w"
    by (rule feeding_from [OF steadyD(1) [OF x(1)] x(2,3) w(5)]) (use w(4,9) apart in auto)
  have "capture_le (capture (kernels x)) (capture (kernels ?w))"
    by (simp add: o take_offer_def Let_def offer_output_def capture_le_refl)
  note ends = kernel_meansD [OF means w(8) \<open>feeding _ _ _ _\<close> k this]
  have st: "storage z = (storage x)(n := None)" using ends w(4) by (simp add: ends_with_def)
  show ?thesis
  proof (cases p)
    case (Inr b)
    then have g: "gives V X t (kernels ?w) b (kernels z)"
      using ends by (simp add: ends_with_def)
    have "dispatched V X t call x False (clear_offer (set_storage (rid out) b z))"
      by (rule dispatched_success [OF x(1) out(1) _ w(5) _ g]) (use st w(9) out(2) in auto)
    then show ?thesis using cases Inr out(1) by simp
  next
    case (Inl e)
    then have q: "isl q" and y: "y = clear_offer (restore_offer (Some (n, b0)) z)" using cases o by simp_all
    have g: "X (device (kernels z))" "spared V (offers (kernels ?w)) (device (kernels x)) (device (kernels z))"
      "offered_output (kernels z) \<noteq> None \<Longrightarrow> intact V (device (kernels x)) (device (kernels z))"
      using ends Inl w(5) by (simp_all add: ends_with_def gave_up_def)
    have le: "offer_le (offered_output (kernels ?w)) (offered_output (kernels z))"
      using keepsD [OF keeps_run_kernel [OF recorded_any] k] by (simp add: exec_frame_def frame_le_def)
    show ?thesis
    proof (cases "offered_output (kernels z)")
      case None
      then have yst: "storage y = (storage x)(n := None)" "device (kernels y) = device (kernels z)"
        "offered_output (kernels y) = None"
        using y st by (simp_all add: restore_offer_def reclaim_def)
      then have "replaces V (offers (kernels ?w)) n x y" using g(2) w(9) by (simp add: replaces_def)
      note lost = replaced_drop [OF steadyD(1,2) [OF x(1)] this]
      have "steady V X y" "tensors V y = (tensors V x)(n := None)" using lost yst g(1) by (simp_all add: steady_def)
      then show ?thesis using q out by (simp add: dispatched_def)
    next
      case (Some s)
      then have s: "s = buf_slice b0" using le w(6) by (simp add: offer_le_def)
      have b0: "plain (buf_slice b0) (shape b0) = b0" using w(3) by simp
      have yst: "storage y = (storage x)(n \<mapsto> b0)" "device (kernels y) = device (kernels z)"
        "offered_output (kernels y) = None"
        using y st Some s b0 by (simp_all add: restore_offer_def reclaim_def)
      then have "storage y = storage x" using w(2) by (simp add: fun_upd_idem)
      from steady_intact [OF x(1) this] show ?thesis
        using g yst Some q by (simp add: dispatched_unchanged)
    qed
  qed
qed

lemma run_uncaptured_dispatched:
  assumes M: "device_memory D V" and H: "host_checked D" and C: "device_computes D V X F"
    and x: "steady V X x" "wf_store x" "small_inputs V call x" and kv: "kernel_name call \<noteq> ''kv-write''"
    and means: "kernel_means D R V X F t call x" and run: "run_invocation_uncaptured D R call x = (q, y)"
  shows "dispatched V X t call x (isl q) y"
proof -
  obtain p u where ex: "expand_inputs D (kernel_name call) 0 (inputs call) x = (p, u)" by fastforce
  from expand_inputs_steady [OF M H C x(1) ex] have u: "steady V X u" "tensors V u = tensors V x" by simp_all
  show ?thesis
  proof (cases p)
    case (Inl e)
    then have "q = Inl e" "y = u" using run ex
      by (simp_all add: run_invocation_uncaptured_def expand_unsupported_compact_inputs_def andthen_def)
    then show ?thesis using u by (simp add: dispatched_unchanged)
  next
    case (Inr a)
    then have off: "run_offered D R call u = (q, y)" using run ex kv
      by (simp add: run_invocation_uncaptured_def expand_unsupported_compact_inputs_def andthen_def)
    have wu: "wf_store u" using tripleD [OF triple_expand_inputs [OF H] x(2) ex] by blast
    have su: "small_inputs V call u" using x(3) u(2) by (simp add: small_inputs_def)
    have "capture_le (capture (kernels x)) (capture (kernels u))"
      using keepsD [OF keeps_expand_inputs [of "\<lambda>_. True"] ex] by (simp add: exec_frame_def frame_le_def)
    note cu = kernel_means_later [OF means u(2) this]
    have "dispatched V X t call u (isl q) y"
      using run_offered_plain [OF C u(1) wu su cu _ off] run_offered_reuse [OF C u(1) wu su cu _ off]
      by (cases "previous_output call u") auto
    then show ?thesis unfolding dispatched_def u(2) .
  qed
qed

lemma same_steady:
  fixes x y :: "'d executor"
  assumes "storage y = storage x" "kernels y = kernels x"
  shows "tensors V y = tensors V x" "steady V X y \<longleftrightarrow> steady V X x" "wf_store y \<longleftrightarrow> wf_store x"
    "small_inputs V call y \<longleftrightarrow> small_inputs V call x"
proof -
  show t: "tensors V y = tensors V x" by (rule ext) (simp add: assms tensors_cong [of y x])
  show "steady V X y \<longleftrightarrow> steady V X x" "wf_store y \<longleftrightarrow> wf_store x"
    "small_inputs V call y \<longleftrightarrow> small_inputs V call x"
    using assms t by (simp_all add: steady_def separate_def resident_def wf_store_def small_inputs_def)
qed

text \<open>The whole dispatch does to the store what the invocation does, whose fate its result tells.\<close>

lemma dispatch_runs:
  fixes x :: "'d executor"
  assumes run: "execute_invocation D R call x = (r, y)"
    and unchanged: "P True x"
    and cong: "\<And>b u w :: 'd executor. storage u = storage w \<Longrightarrow> kernels u = kernels w \<Longrightarrow> P b w \<Longrightarrow> P b u"
    and step: "\<And>z w q. storage z = storage x \<Longrightarrow> kernels z = kernels x \<Longrightarrow>
      run_invocation_uncaptured D R call z = (q, w) \<Longrightarrow> P (isl q) w"
  shows "P (case result_outcome r of Succeeded _ \<Rightarrow> False | Failed _ \<Rightarrow> True) y"
  using execute_storage [OF run]
proof (elim disjE conjE exE)
  fix e assume "storage y = storage x" "kernels y = kernels x" "result_outcome r = Failed e"
  then show ?thesis using cong [OF _ _ unchanged, of y] by simp
next
  fix z w q
  assume "run_invocation_uncaptured D R call z = (q, w)" "storage z = storage x" "kernels z = kernels x"
    and y: "storage y = storage w" "kernels y = kernels w"
    and res: "if isl q then \<exists>e. result_outcome r = Failed e else \<exists>u. result_outcome r = Succeeded u"
  then have "P (isl q) y" using step cong [OF y] by simp
  then show ?thesis using res by (cases "isl q") auto
qed

lemma dispatched_cong:
  assumes "storage u = storage w" "kernels u = kernels w" "dispatched V X t call x b w"
  shows "dispatched V X t call x b u"
  using assms(3) unfolding dispatched_def same_steady(1,2) [OF assms(1,2)] .

lemma means_dispatched:
  assumes M: "device_memory D V" and H: "host_checked D" and C: "device_computes D V X F"
    and x: "steady V X x" "wf_store x" "small_inputs V call x" and kv: "kernel_name call \<noteq> ''kv-write''"
    and means: "kernel_means D R V X F t call x" and run: "execute_invocation D R call x = (r, y)"
  shows "dispatched V X t call x (case result_outcome r of Succeeded _ \<Rightarrow> False | Failed _ \<Rightarrow> True) y"
proof (rule dispatch_runs [OF run, where P = "dispatched V X t call x"])
  show "dispatched V X t call x True x"
    by (rule dispatched_unchanged [OF x(1) refl])
next
  fix z w q
  assume z: "storage z = storage x" "kernels z = kernels x" and "run_invocation_uncaptured D R call z = (q, w)"
  from run_uncaptured_dispatched [OF M H C _ _ _ kv _ this(3), of t] kernel_means_later [OF means, of z]
  have "dispatched V X t call z (isl q) w" using x same_steady [OF z] z(2) by (simp add: capture_le_refl)
  then show "dispatched V X t call x (isl q) w"
    unfolding dispatched_def same_steady(1) [OF z] .
qed (rule dispatched_cong)

lemma operator_dispatched:
  assumes M: "device_memory D V" and H: "host_checked D" and C: "device_computes D V X F"
    and x: "steady V X x" "wf_store x" "small_inputs V call x" and name: "computable call (tensors V x)"
    and run: "execute_invocation D R call x = (r, y)"
  shows "dispatched V X (operator_tensor F call (tensors V x)) call x
    (case result_outcome r of Succeeded _ \<Rightarrow> False | Failed _ \<Rightarrow> True) y"
proof (rule means_dispatched [OF M H C x _ operator_means [OF name] run])
  show "kernel_name call \<noteq> ''kv-write''"
    using name by (auto simp: computable_def elementwise_def plain_matmul_def products_def)
qed

text \<open>C3. A dispatched elementwise Operator computes its tensor. With a device that runs launches
  thread by thread, in any order, and keeps its memory's contract, dispatching an \<open>add\<close> (of equal
  shapes or of a row to every row), \<open>residual-add\<close>, \<open>mul\<close>, \<open>silu\<close>, \<open>silu-mul\<close> or \<open>concat\<close> of tensors
  below \<open>2 ^ 32\<close> elements puts exactly the Operator's tensor of the inputs' tensors under the output's
  name and changes no other tensor, also when inputs are compact, when the output reuses the
  buffer it overwrites, and when it is itself an input. A dispatch that fails leaves the tensors as
  they were, or without the output; either way the buffers stay apart and the next dispatch may run.\<close>
theorem elementwise_dispatch_computes:
  assumes M: "device_memory D V" and H: "host_checked D" and C: "device_computes D V X F"
    and x: "steady V X x" "wf_store x" "small_inputs V call x" and name: "kernel_name call \<in> set elementwise"
    and run: "execute_invocation D R call x = (r, y)"
  shows "steady V X y \<and> wf_store y \<and>
    (case result_outcome r of
       Succeeded _ \<Rightarrow> \<exists>out rest t. outputs call = out # rest \<and> operator_tensor F call (tensors V x) = Some t \<and>
         tensors V y = (tensors V x)(rid out \<mapsto> t)
     | Failed _ \<Rightarrow> tensors V y = tensors V x \<or>
         (\<exists>out rest. outputs call = out # rest \<and> tensors V y = (tensors V x)(rid out := None)))"
proof -
  have "wf_store y" using wf_execute_invocation [OF H x(2), of R call] run by simp
  moreover have "computable call (tensors V x)" using name by (simp add: computable_def)
  ultimately show ?thesis using operator_dispatched [OF M H C x _ run]
    by (auto simp: dispatched_def split: outcome.splits)
qed

text \<open>C2. A dispatched product with a transposed right matrix, the layout of a model's linear layers,
  computes that product, with the bias row or residual that \<open>matmul-bias\<close> and \<open>matmul-residual\<close> add to it,
  or the two products of \<open>gated-matmul\<close> and their gate \<open>silu(x gate) * (x up)\<close>.
  Whatever the right matrix is stored as, \<open>f32\<close> or compact, each element of the output is its row
  times its column, added up in ascending order from zero as the kernel does, and no other tensor
  changes; the left matrix may be transposed too, and the output may reuse the buffer it
  overwrites. A failure leaves the tensors as they were, or without the output.\<close>
theorem matmul_dispatch_computes:
  assumes M: "device_memory D V" and H: "host_checked D" and C: "device_computes D V X F"
    and x: "steady V X x" "wf_store x" "small_inputs V call x" and plain: "plain_matmul call (tensors V x)"
    and run: "execute_invocation D R call x = (r, y)"
  shows "steady V X y \<and> wf_store y \<and>
    (case result_outcome r of
       Succeeded _ \<Rightarrow> \<exists>out rest a b t u. outputs call = out # rest \<and>
         operand call 0 (tensors V x) = Some a \<and> operand call 1 (tensors V x) = Some b \<and>
         tensor_matmul F (attribute_bool (attributes call) ''transpose_a'' False) True a b = Some t \<and>
         (if kernel_name call = ''matmul'' then u = t
          else \<exists>c. operand call 2 (tensors V x) = Some c \<and>
            (if kernel_name call = ''gated-matmul''
             then \<exists>w. tensor_matmul F (attribute_bool (attributes call) ''transpose_a'' False) True a c = Some w \<and>
               pointwise_tensor (\<lambda>x y. f_mul F (f_silu F x) y) t w = Some u
             else tensor_add F t c = Some u)) \<and>
         tensors V y = (tensors V x)(rid out \<mapsto> u)
     | Failed _ \<Rightarrow> tensors V y = tensors V x \<or>
         (\<exists>out rest. outputs call = out # rest \<and> tensors V y = (tensors V x)(rid out := None)))"
proof -
  have "wf_store y" using wf_execute_invocation [OF H x(2), of R call] run by simp
  moreover have "computable call (tensors V x)" using plain by (simp add: computable_def)
  moreover have "kernel_name call \<in> set products" "attribute_bool (attributes call) ''transpose_b'' False"
    using plain by (simp_all add: plain_matmul_def)
  moreover have "kernel_name call \<noteq> ''silu''" using \<open>kernel_name call \<in> set products\<close> by (auto simp: products_def)
  ultimately show ?thesis using operator_dispatched [OF M H C x _ run]
    by (cases "kernel_name call = ''matmul''"; cases "kernel_name call = ''gated-matmul''")
      (auto simp: dispatched_def operator_tensor_def gated_tensor_def bind_eq_Some_conv Let_def split: outcome.splits)
qed

section \<open>A dispatch\<close>

text \<open>Integers stand for the numbers, and an angle that is not zero for a quarter turn.\<close>

definition demo_float :: device_float where
  "demo_float = \<lparr>f_add = (+), f_mul = (*), f_div = (\<lambda>a b. a), f_exp = (\<lambda>a. a), f_mac = (\<lambda>acc a b. acc + a * b),
     f_sub = (-), f_less = (<), f_of_u64 = ucast, f_pow = (\<lambda>a b. 1), f_sin = (\<lambda>t. if t = 0 then 0 else 1),
     f_cos = (\<lambda>t. if t = 0 then 1 else 0), f_mul_sub = (\<lambda>a c b s. a * c - b * s),
     f_mul_add = (\<lambda>a s b c. a * s + b * c)\<rparr>"

definition two_tensors :: "heap executor" where
  "two_tensors = (new_executor (new_kernels
     \<lparr>h_f32 = [1 \<mapsto> [1, 2, 3, 4], 2 \<mapsto> [10, 20]], h_u16 = (\<lambda>_. None), h_next = 3\<rparr> False) ''cuda:0'' ''p'')
     \<lparr>storage := [''a'' \<mapsto> plain \<lparr>ptr = address_of 1, slen = 4\<rparr> [2, 2], ''b'' \<mapsto> plain \<lparr>ptr = address_of 2, slen = 2\<rparr> [1, 2]]\<rparr>"

lemma two_tensors_steady:
  "steady heap_view (\<lambda>_. True) two_tensors" "wf_store two_tensors"
  "small_inputs heap_view (demo_call ''add'' ''c'') two_tensors"
  "tensors heap_view two_tensors = [''a'' \<mapsto> \<lparr>tshape = [2, 2], tdata = [1, 2, 3, 4]\<rparr>, ''b'' \<mapsto> \<lparr>tshape = [1, 2], tdata = [10, 20]\<rparr>]"
proof -
  have "address_of 1 \<noteq> 0" "address_of 2 \<noteq> 0" by (simp_all add: address_of_def)
  then have look: "look (h_f32 (device (kernels two_tensors))) (address_of 1) = Some [1, 2, 3, 4]"
    "look (h_f32 (device (kernels two_tensors))) (address_of 2) = Some [10, 20]"
    by (simp_all add: look_def block_addr small_def two_tensors_def new_executor_def new_kernels_def)
  show t: "tensors heap_view two_tensors = [''a'' \<mapsto> \<lparr>tshape = [2, 2], tdata = [1, 2, 3, 4]\<rparr>, ''b'' \<mapsto> \<lparr>tshape = [1, 2], tdata = [10, 20]\<rparr>]"
    using look by (auto simp: tensors_def fun_eq_iff two_tensors_def content_def heap_view_def split: option.split)
  have "address_of 1 \<noteq> address_of 2" using block_addr(1) [of 1] block_addr(1) [of 2] by auto
  moreover have "holds heap_view (device (kernels two_tensors)) (plain \<lparr>ptr = address_of 1, slen = 4\<rparr> [2, 2])
        \<lparr>tshape = [2, 2], tdata = [1, 2, 3, 4]\<rparr>"
      "holds heap_view (device (kernels two_tensors)) (plain \<lparr>ptr = address_of 2, slen = 2\<rparr> [1, 2])
        \<lparr>tshape = [1, 2], tdata = [10, 20]\<rparr>"
    using look by (simp_all add: holds_def content_def heap_view_def buffer_len_def)
  then have "resident heap_view two_tensors" unfolding resident_def by (auto simp: two_tensors_def split: if_splits)
  ultimately show "steady heap_view (\<lambda>_. True) two_tensors"
    by (auto simp: steady_def separate_def two_tensors_def new_executor_def new_kernels_def split: if_splits)
  show "wf_store two_tensors" by (auto simp: wf_store_def two_tensors_def shape_len_def split: if_splits)
  show "small_inputs heap_view (demo_call ''add'' ''c'') two_tensors"
    by (auto simp: small_inputs_def t demo_call_def demo_resource_def)
qed

lemma demo_add_runs:
  "result_outcome (fst (execute_invocation (compute_device demo_float) demo_runtime (demo_call ''add'' ''c'') two_tensors)) =
    Succeeded [demo_resource ''c'']"
  by code_simp

theorem elementwise_dispatch_computes_witness:
  "tensors heap_view (snd (execute_invocation (compute_device demo_float) demo_runtime (demo_call ''add'' ''c'') two_tensors)) ''c'' =
    Some \<lparr>tshape = [2, 2], tdata = [11, 22, 13, 24]\<rparr>"
proof -
  let ?call = "demo_call ''add'' ''c''"
  obtain r y where run: "execute_invocation (compute_device demo_float) demo_runtime ?call two_tensors = (r, y)" by fastforce
  have name: "kernel_name ?call \<in> set elementwise" by (simp add: elementwise_def demo_call_def)
  have rows: "add_row (+) [1, 2, 3, 4] [10, 20 :: f32] = [11, 22, 13, 24]" by code_simp
  have t: "operator_tensor demo_float ?call (tensors heap_view two_tensors) =
      Some \<lparr>tshape = [2, 2], tdata = [11, 22, 13, 24]\<rparr>"
    unfolding two_tensors_steady(4) using rows
    by (simp add: operator_tensor_def products_def operand_def nth_opt_def demo_call_def demo_resource_def binary_operator_def
        tensor_add_def demo_float_def)
  show ?thesis
    using elementwise_dispatch_computes [OF compute_device_memory compute_host_checked compute_device_computes
        two_tensors_steady(1-3) name run] demo_add_runs run t
    by (auto simp: demo_call_def demo_resource_def)
qed


definition demo_matmul :: invocation where
  "demo_matmul = (demo_call ''matmul'' ''c'')\<lparr>attributes := [''transpose_b'' \<mapsto> BooleanAttr True]\<rparr>"

lemma demo_matmul_runs:
  "result_outcome (fst (execute_invocation (compute_device demo_float) demo_runtime demo_matmul two_tensors)) =
    Succeeded [demo_resource ''c'']"
  by code_simp

theorem matmul_dispatch_computes_witness:
  "tensors heap_view (snd (execute_invocation (compute_device demo_float) demo_runtime demo_matmul two_tensors)) ''c'' =
    Some \<lparr>tshape = [2, 1], tdata = [50, 110]\<rparr>"
proof -
  obtain r y where run: "execute_invocation (compute_device demo_float) demo_runtime demo_matmul two_tensors = (r, y)"
    by fastforce
  have "inputs demo_matmul = inputs (demo_call ''add'' ''c'')" by (simp add: demo_matmul_def demo_call_def)
  then have small: "small_inputs heap_view demo_matmul two_tensors"
    using two_tensors_steady(3) by (simp add: small_inputs_def)
  have t: "tensor_matmul demo_float False True \<lparr>tshape = [2, 2], tdata = [1, 2, 3, 4]\<rparr> \<lparr>tshape = [1, 2], tdata = [10, 20]\<rparr> =
      Some \<lparr>tshape = [2, 1], tdata = [50, 110]\<rparr>" by code_simp
  have "plain_matmul demo_matmul (tensors heap_view two_tensors)"
    unfolding two_tensors_steady(4)
    by (simp add: plain_matmul_def products_def operand_def nth_opt_def demo_matmul_def demo_call_def demo_resource_def
        attribute_bool_def rectangular_def)
  from matmul_dispatch_computes [OF compute_device_memory compute_host_checked compute_device_computes
      two_tensors_steady(1,2) small this run, unfolded two_tensors_steady(4)]
  show ?thesis using demo_matmul_runs run t
    by (auto simp: demo_matmul_def demo_call_def demo_resource_def attribute_bool_def operand_def nth_opt_def)
qed

end
