(* ===== verification/Kv_Results.thy ===== *)
theory Kv_Results
  imports Operator_Results
begin

text \<open>
  What a KV write means on the store of tensors: the rows are put into the history at their offset
  and nothing else changes, and a write that fails changes nothing.
\<close>

section \<open>The write on tensors\<close>

definition write_rows :: "host_tensor \<Rightarrow> u64 \<Rightarrow> host_tensor \<Rightarrow> host_tensor option" where
  "write_rows kv off new = (case (tshape kv, tshape new) of
     ([cap, w], [n, w']) \<Rightarrow>
       (if w' = w \<and> unat off + unat n \<le> unat cap
        then let start = unat off * unat w in Some \<lparr>tshape = [cap, w],
          tdata = take start (tdata kv) @ tdata new @ drop (start + length (tdata new)) (tdata kv)\<rparr>
        else None)
   | _ \<Rightarrow> None)"

section \<open>The Kernel\<close>

text \<open>The elements of a row range, in \<open>u64\<close> arithmetic that does not wrap.\<close>

lemma row_elements:
  fixes off cap w n i N :: u64
  assumes t: "unat cap * unat w < 2 ^ 64" "unat off + unat n \<le> unat cap" and i: "i < N" "unat N = unat n * unat w"
  shows "unat (off * w + i) = unat off * unat w + unat i" "unat off * unat w + unat i < unat cap * unat w"
proof -
  have "(unat off + unat n) * unat w \<le> unat cap * unat w" using t(2) by (rule mult_le_mono1)
  then have le: "unat off * unat w + unat n * unat w \<le> unat cap * unat w" by (simp add: add_mult_distrib)
  have i': "unat i < unat n * unat w" using i by (simp add: word_less_nat_alt)
  show "unat off * unat w + unat i < unat cap * unat w" using le i' by linarith
  have "unat off * unat w < 2 ^ 64" using le t(1) by linarith
  then have "unat (off * w) = unat off * unat w" using unat_mult_u64 [of off w] by simp
  then show "unat (off * w + i) = unat off * unat w + unat i"
    using le i' t(1) unat_add_u64 [of "off * w" i] by simp
qed

lemma filled_rows:
  assumes f: "filled N place (\<lambda>i. zs ! unat i) UNIV xs ys" and N: "unat N = length zs"
    and p: "\<And>i. i < N \<Longrightarrow> unat (place i) = start + unat i" and le: "start + length zs \<le> length xs"
  shows "ys = take start xs @ zs @ drop (start + length zs) xs"
proof (rule nth_equalityI)
  have len: "length ys = length xs" using f by (simp add: filled_def)
  then show "length ys = length (take start xs @ zs @ drop (start + length zs) xs)" using le by simp
  fix j assume j: "j < length ys"
  show "ys ! j = (take start xs @ zs @ drop (start + length zs) xs) ! j"
  proof (cases "start \<le> j \<and> j < start + length zs")
    case True
    let ?i = "of_nat (j - start) :: u64"
    have i: "unat ?i = j - start" "?i < N"
      using True unat_index [of "j - start" N] N by (auto simp: word_less_nat_alt)
    then have "ys ! unat (place ?i) = zs ! unat ?i" using f by (simp add: filled_def)
    moreover have "unat (place ?i) = j" "j - start < length zs" using True i p [OF i(2)] by auto
    ultimately show ?thesis using True i(1) le by (simp add: nth_append)
  next
    case False
    have "unat (place i) \<noteq> j" if "i < N" for i
      using p [OF that] that False N by (auto simp: word_less_nat_alt)
    then have "ys ! j = xs ! j" using f by (simp add: filled_def)
    then show ?thesis using False j len le by (auto simp: nth_append min_def)
  qed
qed

definition wrote :: "'d view \<Rightarrow> ('d \<Rightarrow> bool) \<Rightarrow> 'd \<Rightarrow> device_buffer \<Rightarrow> host_tensor option \<Rightarrow> 'd \<Rightarrow> bool" where
  "wrote V X d s t d' \<longleftrightarrow> X d' \<and> spared V {ptr (buf_slice s)} d d' \<and> bf16 s = None \<and>
     (case t of None \<Rightarrow> False | Some t \<Rightarrow> holds V d' s t)"

lemma kv_launch:
  fixes k :: "'d kernels"
  assumes C: "device_computes D V X F" and x: "X (device k)" and s: "holds V (device k) s ts" "bf16 s = None"
    and b: "holds V (device k) b tr" "bf16 b = None" "wf_host tr" and apart: "ptr (buf_slice b) \<noteq> ptr (buf_slice s)"
    and rect: "rectangular ts cap w" and sh: "tshape tr = [n, w]" and le: "unat off + unat n \<le> unat cap"
    and small: "length (tdata tr) < 2 ^ 32"
  shows "pre (launch_elems D ''kv_write_kernel'' [APtr (ptr (buf_slice b)), APtr (ptr (buf_slice s)),
      AU64 (slen (buf_slice b)), AU64 w, AU64 off, APtr 0] (slen (buf_slice b)))
    (\<lambda>_ k'. wrote V X (device k) s (write_rows ts off tr) (device k'))
    (\<lambda>_ k'. X (device k') \<and> intact V (device k) (device k')) k"
proof -
  let ?N = "slen (buf_slice b)" and ?p = "ptr (buf_slice s)"
  have S: "f32_at V (device k) ?p = Some (tdata ts)" "tshape ts = [cap, w]" "unat cap * unat w = length (tdata ts)"
    "unat cap * unat w < 2 ^ 64" using s rect by (simp_all add: holds_def content_def rectangular_def)
  have B: "f32_at V (device k) (ptr (buf_slice b)) = Some (tdata tr)" "unat ?N = length (tdata tr)"
    using b by (simp_all add: holds_def content_def buffer_len_def)
  have nw: "unat n * unat w \<le> unat cap * unat w" by (rule mult_le_mono1) (use le in simp)
  have "(of_nat (length (tdata tr)) :: u64) = n * w" using b(3) sh by (simp add: wf_host_def)
  then have "?N = n * w" by (simp add: B(2) [symmetric])
  then have N: "unat ?N = unat n * unat w" using unat_mult_u64 [of n w] le_less_trans [OF nw S(4)] by simp
  note at = row_elements [OF S(4) le _ N]
  have threads: "pointwise ?N ?p (\<lambda>i. off * w + i) (\<lambda>i. tdata tr ! unat i) (f32_at V (device k))
      (kv_write_kernel (ptr (buf_slice b)) ?p ?N w off)"
    unfolding pointwise_def
  proof (intro allI)
    fix i ys
    show "kv_write_kernel (ptr (buf_slice b)) ?p ?N w off i ((f32_at V (device k))(?p \<mapsto> ys)) =
        (if i < ?N then mem_store ((f32_at V (device k))(?p \<mapsto> ys)) ?p (off * w + i) (tdata tr ! unat i)
         else Some ((f32_at V (device k))(?p \<mapsto> ys)))"
      using B apart by (auto simp: kv_write_kernel_def mem_load_def word_less_nat_alt word_le_nat_alt)
  qed
  show ?thesis
  proof (rule pre_launch_pointwise [OF C x _ device_threads(6) threads S(1)])
    fix ys and k' :: "'d kernels"
    assume k': "X (device k')" "u16_at V (device k') = u16_at V (device k)"
      "f32_at V (device k') = (f32_at V (device k))(?p \<mapsto> ys)"
      and ys: "filled ?N (\<lambda>i. off * w + i) (\<lambda>i. tdata tr ! unat i) UNIV (tdata ts) ys"
    have fits: "unat off * unat w + length (tdata tr) \<le> length (tdata ts)"
      using mult_le_mono1 [OF le, of "unat w"] N B(2) S(3) by (simp add: add_mult_distrib)
    have "ys = take (unat off * unat w) (tdata ts) @ tdata tr @ drop (unat off * unat w + length (tdata tr)) (tdata ts)"
      by (rule filled_rows [OF ys B(2) at(1) fits])
    then have t: "write_rows ts off tr = Some \<lparr>tshape = [cap, w], tdata = ys\<rparr>" using S(2) sh le
      by (simp add: write_rows_def Let_def)
    have "length ys = length (tdata ts)" using ys by (simp add: filled_def)
    then have "holds V (device k') s \<lparr>tshape = [cap, w], tdata = ys\<rparr>"
      using k'(3) s S(2) by (simp add: holds_def content_def buffer_len_def)
    moreover have "spared V {?p} (device k) (device k')" using k' by (simp add: spared_def)
    ultimately show "wrote V X (device k) s (write_rows ts off tr) (device k')"
      using k'(1) s(2) t by (simp add: wrote_def)
  next
    fix e and k' :: "'d kernels"
    assume "X (device k')" "u16_at V (device k') = u16_at V (device k)" "f32_at V (device k') = f32_at V (device k)"
    then show "X (device k') \<and> intact V (device k) (device k')" by (simp add: intact_def)
  next
    show "\<forall>i < ?N. unat (off * w + i) < length (tdata ts)" using at S(3) by simp
  qed (use B(2) small in auto)
qed

lemma kv_write_computes:
  fixes k :: "'d kernels"
  assumes C: "device_computes D V X F" and x: "X (device k)" and c: "capture k = None"
    and s: "holds V (device k) s ts" and b: "holds V (device k) b tr" "wf_host tr"
    and apart: "bf16 s = None \<Longrightarrow> bf16 b = None \<Longrightarrow> ptr (buf_slice b) \<noteq> ptr (buf_slice s)"
    and rect: "rectangular ts cap w" and small: "length (tdata tr) < 2 ^ 32"
  shows "pre (kv_write D s b off) (\<lambda>_ k'. wrote V X (device k) s (write_rows ts off tr) (device k'))
    (\<lambda>_ k'. X (device k') \<and> intact V (device k) (device k')) k"
proof (cases "bf16 s = None \<and> bf16 b = None \<and> (\<exists>n. shape b = [n, w] \<and> unat off + unat n \<le> unat cap)")
  case True
  then obtain n where p: "bf16 s = None" "bf16 b = None" and n: "shape b = [n, w]" "unat off + unat n \<le> unat cap" by auto
  have sh: "shape s = [cap, w]" "tshape ts = [cap, w]" "tshape tr = [n, w]"
    using s rect b(1) n(1) by (simp_all add: holds_def rectangular_def)
  have adv: "pre (advancing_offset a l) Q E k = Q 0 k" for a l and Q :: "u64 \<Rightarrow> 'd kernels \<Rightarrow> bool" and E
    using c by (simp add: pre_def advancing_offset_def)
  have add: "case checked_add off n of None \<Rightarrow> False | Some stop \<Rightarrow> \<not> stop > cap"
    using n(2) unat_lt_u64 [of cap] by (auto simp: checked_add_def word_le_nat_alt unat_add_u64 not_less)
  have empty: "wrote V X (device k) s (write_rows ts off tr) (device k)" if "slen (buf_slice b) = 0"
  proof -
    have "tdata tr = []" using that b(1) p(2) by (simp add: holds_def buffer_len_def)
    then have "write_rows ts off tr = Some ts" using sh n(2) by (simp add: write_rows_def Let_def)
    then show ?thesis using s p(1) x by (simp add: wrote_def spared_intact)
  qed
  have "require_f32 [s, b] ''kv-write'' = Inr ()" "rows_cols_buf s = Inr (cap, w)" "rows_cols_buf b = Inr (n, w)"
    using p sh n(1) by (simp_all add: require_f32_def is_compact_def)
  then show ?thesis
    unfolding kv_write_def
    using add empty kv_launch [OF C x s p(1) b(1) p(2) b(2) apart [OF p] rect sh(3) n(2) small]
    by (simp add: wp adv Let_def del: require_f32_Inr rows_cols_buf_Inr)
next
  case False
  have sh: "shape s = [cap, w]" using s rect by (simp add: holds_def rectangular_def)
  have add: "unat off + unat n \<le> unat cap" if "checked_add off n = Some stop" "\<not> stop > cap" for n stop
    using that by (simp add: checked_add_le not_less)
  show ?thesis
    unfolding kv_write_def using False x sh add
    by (auto simp: wp split: sum.split option.splits if_splits)
qed

section \<open>The dispatch\<close>

definition kv_result :: "invocation \<Rightarrow> (string \<Rightarrow> host_tensor option) \<Rightarrow> host_tensor option" where
  "kv_result call S = Option.bind (attribute_integer (attributes call) ''row_offset'') (\<lambda>off.
     Option.bind (operand call 0 S) (\<lambda>kv. Option.bind (operand call 1 S) (write_rows kv off)))"

text \<open>A history stored as a matrix whose size does not wrap.\<close>

definition history :: "host_tensor option \<Rightarrow> bool" where
  "history t \<longleftrightarrow> (\<forall>s. t = Some s \<longrightarrow> (\<exists>cap w. rectangular s cap w))"

lemma kernel_call_pre:
  assumes "pre m (\<lambda>_ k. P (device k)) (\<lambda>_ k. E (device k)) (kernels x)" "kernel_call m x = (r, y)"
  shows "storage y = storage x \<and> (if isl r then E (device (kernels y)) else P (device (kernels y)))"
proof -
  obtain q k where m: "m (kernels x) = (q, k)" by fastforce
  then have "isl r = isl q" "y = x\<lparr>kernels := k\<rparr>"
    using assms(2) by (auto simp: kernel_call_def map_err_def kern_def inside_def split: sum.splits)
  then show ?thesis using assms(1) m by (cases q) (simp_all add: pre_def)
qed

lemma kv_write_in_place:
  assumes C: "device_computes D V X F" and x: "steady V X x" "wf_store x" "capture (kernels x) = None"
    and s: "storage x name = Some s" and b: "storage x rows = Some b" "rows \<noteq> name"
    and t: "tensors V x name = Some ts" "tensors V x rows = Some tr"
    and rect: "rectangular ts cap w" and small: "length (tdata tr) < 2 ^ 32"
    and run: "kernel_call (kv_write D s b off) (drop_storage name x) = (r, y)"
  shows "steady V X (set_storage name s y) \<and> tensors V (set_storage name s y) =
    (if isl r then tensors V x else (tensors V x)(name := write_rows ts off tr)) \<and>
    (isl r \<or> write_rows ts off tr \<noteq> None)"
proof -
  have hs: "holds V (device (kernels x)) s ts" and hb: "holds V (device (kernels x)) b tr"
    using residentD [OF steadyD(1) [OF x(1)] s] residentD [OF steadyD(1) [OF x(1)] b(1)] t by auto
  have wf: "wf_host tr" by (rule holds_wf [OF hb wf_storeD [OF x(2) b(1)]])
  have apart: "bf16 s = None \<Longrightarrow> bf16 b = None \<Longrightarrow> ptr (buf_slice b) \<noteq> ptr (buf_slice s)"
    using steadyD(2) [OF x(1)] s b unfolding separate_def by blast
  have kw: "kernels (drop_storage name x) = kernels x" "storage (drop_storage name x) = (storage x)(name := None)"
    by simp_all
  note res = kernel_call_pre [OF kv_write_computes [OF C steadyD(3) [OF x(1)] x(3) hs hb wf apart rect small,
      folded kw(1)] run, unfolded kw]
  have o: "offered_output (kernels y) = None"
    using keepsD [OF keeps_kernel_call [OF keeps_elementwise(1) [OF recorded_any]] run] steadyD(4) [OF x(1)]
    by (auto simp: exec_frame_def frame_le_def offer_le_def kw(1))
  let ?z = "set_storage name s y"
  have st: "storage ?z = storage x" using res s by (simp add: fun_upd_idem)
  show ?thesis
  proof (cases "isl r")
    case True
    then show ?thesis using steady_intact [OF x(1) st] res o by simp
  next
    case False
    then obtain u where u: "write_rows ts off tr = Some u" "holds V (device (kernels y)) s u"
      using res by (auto simp: wrote_def split: option.splits)
    have w: "X (device (kernels y))" "bf16 s = None"
      "spared V {ptr (buf_slice s)} (device (kernels x)) (device (kernels y))"
      using res False by (simp_all add: wrote_def)
    have "ptr (buf_slice c) \<noteq> ptr (buf_slice s)" if "n \<noteq> name" "storage x n = Some c" "bf16 c = None" for n c
      using steadyD(2) [OF x(1)] that s w(2) unfolding separate_def by blast
    then have "replaces V {ptr (buf_slice s)} name x ?z" using w(3) st by (simp add: replaces_def)
    note put = replaced_put [OF steadyD(1,2) [OF x(1)] this, of s u]
    have "steady V X ?z" "tensors V ?z = (tensors V x)(name \<mapsto> u)"
      using put u w o by (simp_all add: steady_def)
    then show ?thesis using False u(1) by simp
  qed
qed

lemma run_kv_write_result:
  assumes C: "device_computes D V X F" and x: "steady V X x" "wf_store x" "capture (kernels x) = None"
    and ins: "inputs call = store # ins" and out: "outputs call = out # rest" and same: "rid out = rid store"
    and rect: "history (tensors V x (rid store))" and small: "small_inputs V call x"
    and run: "run_kv_write D call x = (q, y)"
  shows "steady V X y \<and> tensors V y = (if isl q then tensors V x
      else (tensors V x)(rid store := kv_result call (tensors V x))) \<and> (isl q \<or> kv_result call (tensors V x) \<noteq> None)"
proof -
  have id: "input_resource_id call 0 = Inr (rid store)" by (simp add: input_resource_id_def ins nth_opt_def)
  have unchanged: "steady V X z \<and> tensors V z = tensors V x" if "kernels z = kernels x" "storage z = storage x" for z
    using same_steady [OF that(2,1)] x(1) by simp
  show ?thesis
  proof (cases "attribute_integer (attributes call) ''row_offset''")
    case None
    then have "isl q" "y = x" using run by (auto simp: run_kv_write_def required_integer_def andthen_def lift_def)
    then show ?thesis using x(1) by simp
  next
    case (Some off)
    then have off: "required_integer (attributes call) ''row_offset'' = Inr off" by (simp add: required_integer_def)
    show ?thesis
    proof (cases ins)
      case Nil
      then have "isl q" "y = x" using run off
        by (auto simp: run_kv_write_def id andthen_def lift_def input_resource_id_def ins nth_opt_def)
      then show ?thesis using x(1) by simp
    next
      case (Cons rows ins')
      have id1: "input_resource_id call (Suc 0) = Inr (rid rows)"
        by (simp add: input_resource_id_def ins Cons nth_opt_def)
      have step: "run_kv_write D call x = (case storage x (rid store) of
          None \<Rightarrow> (Inl (KernelExecutionFailed ''no materialized data for input resource''), drop_storage (rid store) x)
        | Some s \<Rightarrow> (case kv_write_back D (rid rows) (rid store) off s (drop_storage (rid store) x) of
            (Inl e, z) \<Rightarrow> (Inl e, z) | (Inr u, z) \<Rightarrow> (Inr (result_success call [out]), z)))"
        by (simp add: run_kv_write_def id id1 off out same kv_store_def andthen_def lift_def gets_def modify_def
            ret_def throw_def split: option.split prod.split sum.split)
      show ?thesis
      proof (cases "storage x (rid store)")
        case None
        then show ?thesis using run step unchanged [of y] by (auto simp: fun_upd_idem)
      next
        case s: (Some s)
        show ?thesis
        proof (cases "storage (drop_storage (rid store) x) (rid rows)")
          case None
          then have "isl q" "y = set_storage (rid store) s (drop_storage (rid store) x)"
            using run step s by (auto simp: kv_write_back_def)
          then show ?thesis using unchanged [of y] s by (simp add: fun_upd_idem)
        next
          case (Some b)
          then have b: "storage x (rid rows) = Some b" "rid rows \<noteq> rid store" by (simp_all split: if_splits)
          obtain ts tr where t: "tensors V x (rid store) = Some ts" "tensors V x (rid rows) = Some tr"
            using residentD [OF steadyD(1) [OF x(1)] s] residentD [OF steadyD(1) [OF x(1)] b(1)] by blast
          obtain cap w where rt: "rectangular ts cap w" using rect t(1) by (auto simp: history_def)
          have sm: "length (tdata tr) < 2 ^ 32" using small t(2) ins Cons by (simp add: small_inputs_def)
          obtain r z where k: "kernel_call (kv_write D s b off) (drop_storage (rid store) x) = (r, z)" by fastforce
          have y: "isl q = isl r" "y = set_storage (rid store) s z"
            using run step s Some k by (auto simp: kv_write_back_def split: sum.splits)
          have "kv_result call (tensors V x) = write_rows ts off tr"
            using \<open>attribute_integer _ _ = Some off\<close> t ins Cons by (simp add: kv_result_def operand_def nth_opt_def)
          then show ?thesis using kv_write_in_place [OF C x s b t rt sm k] y by simp
        qed
      qed
    qed
  qed
qed

lemma run_uncaptured_kv:
  assumes M: "device_memory D V" and H: "host_checked D" and C: "device_computes D V X F"
    and x: "steady V X x" "wf_store x" "capture (kernels x) = None" "small_inputs V call x"
    and name: "kernel_name call = ''kv-write''"
    and ins: "inputs call = store # ins" and out: "outputs call = out # rest" and same: "rid out = rid store"
    and rect: "history (tensors V x (rid store))"
    and run: "run_invocation_uncaptured D R call x = (q, y)"
  shows "steady V X y \<and> tensors V y = (if isl q then tensors V x
      else (tensors V x)(rid store := kv_result call (tensors V x))) \<and> (isl q \<or> kv_result call (tensors V x) \<noteq> None)"
proof -
  obtain p u where ex: "expand_inputs D (kernel_name call) 0 (inputs call) x = (p, u)" by fastforce
  from expand_inputs_steady [OF M H C x(1) ex] have u: "steady V X u" "tensors V u = tensors V x" by simp_all
  show ?thesis
  proof (cases p)
    case (Inl e)
    then have "q = Inl e" "y = u" using run ex
      by (simp_all add: run_invocation_uncaptured_def expand_unsupported_compact_inputs_def andthen_def)
    then show ?thesis using u by simp
  next
    case (Inr a)
    then have kv: "run_kv_write D call u = (q, y)" using run ex name
      by (simp add: run_invocation_uncaptured_def expand_unsupported_compact_inputs_def andthen_def)
    have wu: "wf_store u" using tripleD [OF triple_expand_inputs [OF H] x(2) ex] by blast
    have cu: "capture (kernels u) = None"
      using keepsD [OF keeps_expand_inputs [of "\<lambda>_. True"] ex] x(3)
      by (simp add: exec_frame_def frame_le_def capture_le_def)
    have su: "small_inputs V call u" using x(4) u(2) by (simp add: small_inputs_def)
    have hu: "history (tensors V u (rid store))" using rect u(2) by simp
    show ?thesis using run_kv_write_result [OF C u(1) wu cu ins out same hu su kv] unfolding u(2) .
  qed
qed

definition kv_dispatched :: "'d view \<Rightarrow> ('d \<Rightarrow> bool) \<Rightarrow> host_tensor option \<Rightarrow> string \<Rightarrow> 'd executor \<Rightarrow> bool \<Rightarrow> 'd executor \<Rightarrow> bool" where
  "kv_dispatched V X t name x failed y \<longleftrightarrow> steady V X y \<and>
     (if failed then tensors V y = tensors V x else t \<noteq> None \<and> tensors V y = (tensors V x)(name := t))"

lemma kv_dispatched:
  assumes M: "device_memory D V" and H: "host_checked D" and C: "device_computes D V X F"
    and x: "steady V X x" "wf_store x" "capture (kernels x) = None" "small_inputs V call x"
    and name: "kernel_name call = ''kv-write''"
    and ins: "inputs call = store # ins" and out: "outputs call = out # rest" and same: "rid out = rid store"
    and rect: "history (tensors V x (rid store))"
    and run: "execute_invocation D R call x = (r, y)"
  shows "kv_dispatched V X (kv_result call (tensors V x)) (rid store) x
    (case result_outcome r of Succeeded _ \<Rightarrow> False | Failed _ \<Rightarrow> True) y"
proof (rule dispatch_runs [OF run, where P = "kv_dispatched V X (kv_result call (tensors V x)) (rid store) x"])
  show "kv_dispatched V X (kv_result call (tensors V x)) (rid store) x True x"
    using x(1) by (simp add: kv_dispatched_def)
  fix z w q
  assume z: "storage z = storage x" "kernels z = kernels x" and run: "run_invocation_uncaptured D R call z = (q, w)"
  have "steady V X w \<and> tensors V w = (if isl q then tensors V z
      else (tensors V z)(rid store := kv_result call (tensors V z))) \<and> (isl q \<or> kv_result call (tensors V z) \<noteq> None)"
    by (rule run_uncaptured_kv [OF M H C _ _ _ _ name ins out same _ run])
      (use x rect z same_steady [OF z] in simp_all)
  then show "kv_dispatched V X (kv_result call (tensors V x)) (rid store) x (isl q) w"
    unfolding kv_dispatched_def same_steady(1) [OF z] by auto
next
  fix b and u w :: "'a executor"
  assume same: "storage u = storage w" "kernels u = kernels w"
    and kv: "kv_dispatched V X (kv_result call (tensors V x)) (rid store) x b w"
  show "kv_dispatched V X (kv_result call (tensors V x)) (rid store) x b u"
    using kv unfolding kv_dispatched_def same_steady(1,2) [OF same] .
qed

text \<open>C4. A dispatched KV write puts its rows into the history. With a device that runs launches thread
  by thread, in any order, a \<open>kv-write\<close> whose output is its store, outside a capture, replaces
  the rows from \<open>row_offset\<close> on by the new ones and keeps every other row and every other tensor, even
  when the store or the rows are compact; one that fails, whatever the reason, changes no
  tensor at all. The new rows have fewer than \<open>2 ^ 32\<close> elements and the history's size does not wrap.\<close>
theorem kv_write_dispatch_computes:
  assumes M: "device_memory D V" and H: "host_checked D" and C: "device_computes D V X F"
    and x: "steady V X x" "wf_store x" "capture (kernels x) = None" "small_inputs V call x"
    and name: "kernel_name call = ''kv-write''"
    and ins: "inputs call = store # ins" and out: "outputs call = out # rest" and same: "rid out = rid store"
    and rect: "history (tensors V x (rid store))"
    and run: "execute_invocation D R call x = (r, y)"
  shows "steady V X y \<and> wf_store y \<and>
    (case result_outcome r of
       Succeeded _ \<Rightarrow> \<exists>t. kv_result call (tensors V x) = Some t \<and> tensors V y = (tensors V x)(rid store \<mapsto> t)
     | Failed _ \<Rightarrow> tensors V y = tensors V x)"
proof -
  have "wf_store y" using wf_execute_invocation [OF H x(2), of R call] run by simp
  then show ?thesis using kv_dispatched [OF M H C x name ins out same rect run]
    by (auto simp: kv_dispatched_def split: outcome.splits)
qed

section \<open>A concrete case\<close>

lemma demo_kv_write_runs:
  "result_outcome (fst (execute_invocation (compute_device demo_float) demo_runtime demo_kv_write two_tensors)) =
    Succeeded [demo_resource ''a'']"
  by code_simp

theorem kv_write_dispatch_computes_witness:
  "tensors heap_view (snd (execute_invocation (compute_device demo_float) demo_runtime demo_kv_write two_tensors)) ''a'' =
    Some \<lparr>tshape = [2, 2], tdata = [1, 2, 10, 20]\<rparr>"
proof -
  obtain r y where run: "execute_invocation (compute_device demo_float) demo_runtime demo_kv_write two_tensors = (r, y)"
    by fastforce
  have call: "kernel_name demo_kv_write = ''kv-write''"
    "inputs demo_kv_write = demo_resource ''a'' # [demo_resource ''b'']" "outputs demo_kv_write = demo_resource ''a'' # []"
    by (simp_all add: demo_kv_write_def demo_call_def)
  have cap: "capture (kernels two_tensors) = None" by (simp add: two_tensors_def new_executor_def new_kernels_def)
  have "inputs demo_kv_write = inputs (demo_call ''add'' ''c'')" by (simp add: demo_kv_write_def demo_call_def)
  then have small: "small_inputs heap_view demo_kv_write two_tensors" using two_tensors_steady(3) by (simp add: small_inputs_def)
  have rect: "history (tensors heap_view two_tensors (rid (demo_resource ''a'')))"
    by (auto simp: two_tensors_steady(4) history_def rectangular_def demo_resource_def)
  have rows: "write_rows \<lparr>tshape = [2, 2], tdata = [1, 2, 3, 4]\<rparr> 1 \<lparr>tshape = [1, 2], tdata = [10, 20]\<rparr> =
      Some \<lparr>tshape = [2, 2], tdata = [1, 2, 10, 20]\<rparr>" by code_simp
  have t: "kv_result demo_kv_write (tensors heap_view two_tensors) = Some \<lparr>tshape = [2, 2], tdata = [1, 2, 10, 20]\<rparr>"
    unfolding two_tensors_steady(4) using rows
    by (simp add: kv_result_def operand_def nth_opt_def demo_resource_def demo_kv_write_def demo_call_def
        attribute_integer_def)
  show ?thesis
    using kv_write_dispatch_computes [OF compute_device_memory compute_host_checked compute_device_computes
        two_tensors_steady(1,2) cap small call _ rect run] demo_kv_write_runs run t
    by (auto simp: demo_resource_def)
qed

end
