(* ===== verification/Device_Rope.thy ===== *)
theory Device_Rope
  imports Device_Threads
begin

text \<open>
  The threads of \<open>rope_kernel\<close>: which two elements each one rotates, by which angle, and that
  together they rotate the first \<open>dimension\<close> columns of every head, each element once.
\<close>

section \<open>Threads that store several values\<close>

definition write_all :: "(nat \<times> f32) list \<Rightarrow> f32 list \<Rightarrow> f32 list" where
  "write_all ws xs = fold (\<lambda>(p, v) ys. ys[p := v]) ws xs"

lemma write_all_length [simp]: "length (write_all ws xs) = length xs"
proof -
  have "length (fold (\<lambda>(p, v) ys. ys[p := v]) ws xs) = length xs" for xs
    by (induction ws arbitrary: xs) auto
  then show ?thesis by (simp add: write_all_def)
qed

lemma write_all_append: "write_all (ws @ vs) xs = write_all vs (write_all ws xs)"
  by (simp add: write_all_def)

text \<open>Writes that agree with \<open>f\<close> leave its values where they write.\<close>

lemma write_all_at:
  assumes "\<And>p v. (p, v) \<in> set ws \<Longrightarrow> v = f p" "j < length xs"
  shows "write_all ws xs ! j = (if j \<in> fst ` set ws then f j else xs ! j)"
  using assms
proof (induction ws arbitrary: xs)
  case Nil
  then show ?case by (simp add: write_all_def)
next
  case (Cons w ws)
  obtain p v where w: "w = (p, v)" by fastforce
  have "write_all ws (xs[p := v]) ! j = (if j \<in> fst ` set ws then f j else xs[p := v] ! j)"
    using Cons.IH [of "xs[p := v]"] Cons.prems by simp
  moreover have "v = f p" using Cons.prems(1) [of p v] w by simp
  moreover have "write_all (w # ws) xs = write_all ws (xs[p := v])" by (simp add: write_all_def w)
  ultimately show ?case using w Cons.prems(2) by (cases "j = p") auto
qed

definition scatter :: "u64 \<Rightarrow> u64 \<Rightarrow> nat \<Rightarrow> (u64 \<Rightarrow> (nat \<times> f32) list) \<Rightarrow> memory \<Rightarrow> thread \<Rightarrow> bool" where
  "scatter n out len writes h f \<longleftrightarrow> (\<forall>i ys. length ys = len \<longrightarrow>
     f i (h(out \<mapsto> ys)) = Some (h(out \<mapsto> (if i < n then write_all (writes i) ys else ys))))"

lemma run_scatter:
  assumes f: "scatter n out len writes h f" and "length xs = len"
  shows "run_threads f order (h(out \<mapsto> xs)) =
    Some (h(out \<mapsto> write_all (concat (map writes (filter (\<lambda>i. i < n) order))) xs))"
  using assms(2)
proof (induction order arbitrary: xs)
  case Nil
  then show ?case by (simp add: run_threads_def write_all_def)
next
  case (Cons i order)
  let ?ys = "if i < n then write_all (writes i) xs else xs"
  have step: "f i (h(out \<mapsto> xs)) = Some (h(out \<mapsto> ?ys))"
    using f Cons.prems unfolding scatter_def by blast
  have rest: "run_threads f order (h(out \<mapsto> ?ys)) =
      Some (h(out \<mapsto> write_all (concat (map writes (filter (\<lambda>i. i < n) order))) ?ys))"
    by (rule Cons.IH) (simp add: Cons.prems)
  have all: "write_all (concat (map writes (filter (\<lambda>i. i < n) order))) ?ys =
      write_all (concat (map writes (filter (\<lambda>i. i < n) (i # order)))) xs"
    by (simp add: write_all_append)
  show ?case unfolding run_threads_Cons step Option.bind.bind_lunit rest all by (rule refl)
qed

text \<open>When every write is the value of \<open>spec\<close> there and nothing else differs from it, the result is \<open>spec\<close>.\<close>

lemma run_scatter_all:
  assumes f: "scatter n out len writes h f" "length xs = len" and all: "\<And>i. i < n \<Longrightarrow> i \<in> set order"
    and spec: "\<And>i p v. i < n \<Longrightarrow> (p, v) \<in> set (writes i) \<Longrightarrow> v = spec p"
    and rest: "\<And>j. j < len \<Longrightarrow> (\<And>i. i < n \<Longrightarrow> j \<notin> fst ` set (writes i)) \<Longrightarrow> xs ! j = spec j"
  shows "run_threads f order (h(out \<mapsto> xs)) = Some (h(out \<mapsto> map spec [0..<len]))"
proof -
  let ?ws = "concat (map writes (filter (\<lambda>i. i < n) order))"
  have "write_all ?ws xs = map spec [0..<len]"
  proof (rule nth_equalityI)
    fix j assume "j < length (write_all ?ws xs)"
    then have j: "j < len" "j < length xs" using f(2) by simp_all
    have "write_all ?ws xs ! j = (if j \<in> fst ` set ?ws then spec j else xs ! j)"
      by (rule write_all_at) (use spec j in auto)
    moreover have "xs ! j = spec j" if "j \<notin> fst ` set ?ws"
      by (rule rest [OF j(1)]) (use that all in \<open>fastforce simp: image_iff\<close>)
    ultimately show "write_all ?ws xs ! j = map spec [0..<len] ! j" using j by simp
  qed (simp add: f(2))
  then show ?thesis using run_scatter [OF f, of order] by simp
qed

section \<open>Rows, heads and pairs\<close>

text \<open>The two columns of a pair, in either pairing, and the pair of a column.\<close>

definition pair_columns :: "bool \<Rightarrow> nat \<Rightarrow> nat \<Rightarrow> nat \<times> nat" where
  "pair_columns split half pair = (if split then (pair, pair + half) else (2 * pair, 2 * pair + 1))"

definition pair_of :: "bool \<Rightarrow> nat \<Rightarrow> nat \<Rightarrow> nat \<times> bool" where
  "pair_of split half c = (if split then (c mod half, half \<le> c) else (c div 2, odd c))"

lemma pair_columns_inverse:
  assumes "pair < half"
  shows "pair_of split half (fst (pair_columns split half pair)) = (pair, False)"
    "pair_of split half (snd (pair_columns split half pair)) = (pair, True)"
    "fst (pair_columns split half pair) < 2 * half" "snd (pair_columns split half pair) < 2 * half"
  using assms by (auto simp: pair_of_def pair_columns_def)

lemma pair_of_inverse:
  assumes "c < 2 * half"
  shows "fst (pair_of split half c) < half"
    "c = (if snd (pair_of split half c) then snd else fst) (pair_columns split half (fst (pair_of split half c)))"
proof -
  have "c mod half = c - half" if "half \<le> c" using that assms by (metis le_mod_geq mod_less less_diff_conv2 mult_2)
  then show "fst (pair_of split half c) < half"
    "c = (if snd (pair_of split half c) then snd else fst) (pair_columns split half (fst (pair_of split half c)))"
    using assms by (auto simp: pair_of_def pair_columns_def elim!: oddE evenE)
qed

section \<open>What the threads compute\<close>

text \<open>
  Element \<open>j\<close> of the rotated tensor: the columns of a head from \<open>2 * half\<close> on are kept, and the
  others are turned with their partner by the angle of their row and pair.
\<close>

definition rotated ::
  "device_float \<Rightarrow> (nat \<Rightarrow> nat \<Rightarrow> f32) \<Rightarrow> bool \<Rightarrow> nat \<Rightarrow> nat \<Rightarrow> nat \<Rightarrow> f32 list \<Rightarrow> nat \<Rightarrow> f32" where
  "rotated F angle split half heads width xs j =
     (let c = j mod width; start = j - c; row = j div width div heads in
      if c < 2 * half
      then
        (let (pair, second) = pair_of split half c;
             (p, q) = pair_columns split half pair;
             a = xs ! (start + p); b = xs ! (start + q); t = angle row pair
         in if second then f_mul_add F a (f_sin F t) b (f_cos F t) else f_mul_sub F a (f_cos F t) b (f_sin F t))
      else xs ! j)"

definition pair_places :: "bool \<Rightarrow> nat \<Rightarrow> nat \<Rightarrow> nat \<Rightarrow> nat \<times> nat" where
  "pair_places split half width i =
     (let (p, q) = pair_columns split half (i mod half) in (i div half * width + p, i div half * width + q))"

lemma rotated_pair:
  assumes "0 < half" "2 * half \<le> width" "pair_places split half width i = (p, q)"
  shows "rotated F angle split half heads width xs p =
      f_mul_sub F (xs ! p) (f_cos F (angle (i div half div heads) (i mod half))) (xs ! q)
        (f_sin F (angle (i div half div heads) (i mod half)))"
    "rotated F angle split half heads width xs q =
      f_mul_add F (xs ! p) (f_sin F (angle (i div half div heads) (i mod half))) (xs ! q)
        (f_cos F (angle (i div half div heads) (i mod half)))"
proof -
  obtain c d where cd: "pair_columns split half (i mod half) = (c, d)" by fastforce
  have m: "i mod half < half" using assms(1) by simp
  note inv = pair_columns_inverse [OF m, of split, unfolded cd fst_conv snd_conv]
  have pq: "p = i div half * width + c" "q = i div half * width + d"
    using assms(3) by (simp_all add: pair_places_def cd)
  have lt: "c < width" "d < width" using inv(3,4) assms(2) by simp_all
  show "rotated F angle split half heads width xs p =
      f_mul_sub F (xs ! p) (f_cos F (angle (i div half div heads) (i mod half))) (xs ! q)
        (f_sin F (angle (i div half div heads) (i mod half)))"
    "rotated F angle split half heads width xs q =
      f_mul_add F (xs ! p) (f_sin F (angle (i div half div heads) (i mod half))) (xs ! q)
        (f_cos F (angle (i div half div heads) (i mod half)))"
    using inv lt cd by (simp_all add: rotated_def pq Let_def)
qed

lemma pair_places_lt:
  assumes "0 < half" "2 * half \<le> width" "i < groups * half" "pair_places split half width i = (p, q)"
  shows "p < groups * width" "q < groups * width"
proof -
  have m: "i mod half < half" using assms(1) by simp
  have "i div half < groups" using assms(3) by (simp add: less_mult_imp_div_less)
  then have "Suc (i div half) * width \<le> groups * width" by (intro mult_le_mono1) simp
  then show "p < groups * width" "q < groups * width"
    using pair_columns_inverse(3,4) [OF m, of split] assms(2,4)
    by (auto simp: pair_places_def split: prod.splits)
qed

text \<open>Every column below \<open>2 * half\<close> of every head belongs to a pair.\<close>

lemma pair_places_onto:
  assumes "j < groups * width" "j mod width < 2 * half"
  obtains i where "i < groups * half" "j = fst (pair_places split half width i) \<or> j = snd (pair_places split half width i)"
proof
  let ?c = "j mod width"
  let ?i = "j div width * half + fst (pair_of split half ?c)"
  note inv = pair_of_inverse [OF assms(2), of split]
  have g: "j div width < groups" using assms(1) by (simp add: less_mult_imp_div_less)
  have "?i < Suc (j div width) * half" using inv(1) by simp
  also have "\<dots> \<le> groups * half" using g by (intro mult_le_mono1) simp
  finally show "?i < groups * half" .
  have "?i div half = j div width" "?i mod half = fst (pair_of split half ?c)" using inv(1) by simp_all
  then have spots: "pair_places split half width ?i =
      (j div width * width + fst (pair_columns split half (fst (pair_of split half ?c))),
       j div width * width + snd (pair_columns split half (fst (pair_of split half ?c))))"
    by (simp add: pair_places_def split: prod.split)
  have "j = j div width * width + ?c" by simp
  then show "j = fst (pair_places split half width ?i) \<or> j = snd (pair_places split half width ?i)"
    using inv(2) unfolding spots fst_conv snd_conv by (metis (full_types))
qed

section \<open>The arithmetic in 64 bits\<close>

text \<open>
  What the code checks before the launch: the heads divide the columns, the pairs fit the head, the
  number of threads fits \<open>u32\<close> and the tensor has a length.
\<close>

definition rope_sizes_ok :: "u64 \<Rightarrow> u64 \<Rightarrow> u64 \<Rightarrow> u64 \<Rightarrow> nat \<Rightarrow> bool" where
  "rope_sizes_ok rows cols half n_heads width \<longleftrightarrow> half \<noteq> 0 \<and> unat cols = unat n_heads * width \<and> 2 * unat half \<le> width \<and>
     unat rows * unat n_heads * unat half < 2 ^ 32 \<and> unat rows * unat cols < 2 ^ 64"

lemma unat_add_of_nats: "unat (a :: u64) + unat b < 2 ^ 64 \<Longrightarrow> unat (a + b) = unat a + unat b"
  by (simp add: unat_word_ariths)

lemma unat_mult_of_nats: "unat (a :: u64) * unat b < 2 ^ 64 \<Longrightarrow> unat (a * b) = unat a * unat b"
  by (simp add: unat_word_ariths)

lemma rope_total:
  assumes ok: "rope_sizes_ok rows cols half n_heads width"
  shows "rows \<noteq> 0 \<Longrightarrow> unat (n_heads * half) = unat n_heads * unat half"
    "unat (rows * (n_heads * half)) = unat rows * unat n_heads * unat half"
proof -
  let ?H = "unat n_heads" and ?A = "unat half" and ?R = "unat rows"
  have lt: "?R * (?H * ?A) < 2 ^ 32" using ok by (simp add: rope_sizes_ok_def mult.assoc)
  have lt64: "?R * (?H * ?A) < 2 ^ 64" using lt by (rule less_trans) simp
  show HA: "unat (n_heads * half) = ?H * ?A" if "rows \<noteq> 0"
    by (rule unat_mult_of_nats [OF le_less_trans [OF _ lt64]]) (use that unat_eq_0 [of rows] in simp)
  show "unat (rows * (n_heads * half)) = ?R * ?H * ?A"
    using unat_mult_of_nats [of rows "n_heads * half"] lt64 HA by (cases "rows = 0") (simp_all add: mult.assoc)
qed

lemma rope_index:
  fixes i :: u64
  assumes ok: "rope_sizes_ok rows cols half n_heads width" and i: "i < rows * (n_heads * half)"
  shows "unat (rows * (n_heads * half)) = unat rows * unat n_heads * unat half"
    "unat (i div (n_heads * half)) = unat i div unat half div unat n_heads"
    "unat (i mod (n_heads * half) mod half) = unat i mod unat half"
    "unat (i div (n_heads * half) * cols + i mod (n_heads * half) div half * (cols div n_heads)) = unat i div unat half * width"
proof -
  let ?H = "unat n_heads" and ?A = "unat half" and ?R = "unat rows" and ?i = "unat i"
  have "rows \<noteq> 0" using i by auto
  note HA = rope_total(1) [OF ok \<open>rows \<noteq> 0\<close>]
  show n: "unat (rows * (n_heads * half)) = ?R * ?H * ?A" by (rule rope_total(2) [OF ok])
  have ilt: "?i < ?R * ?H * ?A" using i n by (simp add: word_less_nat_alt)
  then have H: "0 < ?H" by (metis mult_0 mult_0_right not_gr_zero not_less_zero)
  have W: "unat (cols div n_heads) = width" using ok H by (simp add: unat_div rope_sizes_ok_def)
  have per: "?H * ?A = ?A * ?H" by simp
  show row: "unat (i div (n_heads * half)) = ?i div ?A div ?H" unfolding unat_div HA per div_mult2_eq ..
  have rem': "unat (i mod (n_heads * half)) = ?A * (?i div ?A mod ?H) + ?i mod ?A"
    unfolding unat_mod HA per mod_mult2_eq ..
  have A: "?A \<noteq> 0" using ok by (simp add: rope_sizes_ok_def unat_eq_0)
  show "unat (i mod (n_heads * half) mod half) = ?i mod ?A" unfolding unat_mod [of _ half] rem' by simp
  have head: "unat (i mod (n_heads * half) div half) = ?i div ?A mod ?H" unfolding unat_div [of _ half] rem' using A by simp
  let ?g = "?i div ?A"
  have g: "?g < ?R * ?H" using ilt by (simp add: less_mult_imp_div_less)
  have sum: "?g div ?H * unat cols + ?g mod ?H * width = ?g * width"
  proof -
    have "?g div ?H * (?H * width) + ?g mod ?H * width = (?g div ?H * ?H + ?g mod ?H) * width"
      by (simp only: distrib_right mult.assoc)
    then show ?thesis using ok by (simp add: rope_sizes_ok_def)
  qed
  have "?g * width \<le> ?R * ?H * width" using g by (intro mult_le_mono1) simp
  also have "\<dots> = ?R * unat cols" using ok by (simp add: rope_sizes_ok_def)
  also have "\<dots> < 2 ^ 64" using ok unfolding rope_sizes_ok_def by (elim conjE)
  finally have small: "?g * width < 2 ^ 64" .
  have "unat (i div (n_heads * half) * cols) = ?g div ?H * unat cols"
    using unat_mult_of_nats [of "i div (n_heads * half)" cols] small sum unfolding row by simp
  moreover have "unat (i mod (n_heads * half) div half * (cols div n_heads)) = ?g mod ?H * width"
    using unat_mult_of_nats [of "i mod (n_heads * half) div half" "cols div n_heads"] small sum unfolding head W by simp
  ultimately show "unat (i div (n_heads * half) * cols + i mod (n_heads * half) div half * (cols div n_heads)) = ?g * width"
    using unat_add_of_nats [of "i div (n_heads * half) * cols" "i mod (n_heads * half) div half * (cols div n_heads)"] small sum
    by simp
qed

text \<open>The two places of a thread, as the code computes them, lie inside the tensor.\<close>

lemma rope_places:
  fixes i :: u64
  assumes ok: "rope_sizes_ok rows cols half n_heads width" and i: "i < rows * (n_heads * half)"
    and base: "b = i div (n_heads * half) * cols + i mod (n_heads * half) div half * (cols div n_heads)"
      "p = i mod (n_heads * half) mod half"
    and pq: "pair_places split (unat half) width (unat i) = (x, y)"
  shows "unat (if split then b + p else b + 2 * p) = x"
    "unat (if split then b + p + half else b + 2 * p + 1) = y" "x < unat rows * unat cols" "y < unat rows * unat cols"
    "x \<noteq> y"
proof -
  let ?A = "unat half"
  note index = rope_index [OF ok i]
  have A: "0 < ?A" and W: "2 * ?A \<le> width" using ok by (simp_all add: rope_sizes_ok_def unat_gt_0)
  have ilt: "unat i < unat rows * unat n_heads * ?A" using i index(1) by (simp add: word_less_nat_alt)
  have cells: "unat rows * unat cols = unat rows * unat n_heads * width" using ok by (simp add: rope_sizes_ok_def)
  show lt: "x < unat rows * unat cols" "y < unat rows * unat cols"
    using pair_places_lt [OF A W ilt pq] unfolding cells by simp_all
  then have small: "x < 2 ^ 64" "y < 2 ^ 64" using ok unfolding rope_sizes_ok_def by linarith+
  have b: "unat b = unat i div ?A * width" and p: "unat p = unat i mod ?A"
    using index(3,4) base by simp_all
  have bp: "b = of_nat (unat i div ?A * width)" "p = of_nat (unat i mod ?A)" "half = of_nat ?A"
    unfolding b [symmetric] p [symmetric] by simp_all
  have xy: "(if split then b + p else b + 2 * p) = of_nat x" "(if split then b + p + half else b + 2 * p + 1) = of_nat y"
    using pq unfolding bp(1,2) by (auto simp: pair_places_def pair_columns_def algebra_simps)
  show "unat (if split then b + p else b + 2 * p) = x" "unat (if split then b + p + half else b + 2 * p + 1) = y"
    unfolding xy using small by (simp_all add: unat_of_nat take_bit_nat_eq_self_iff)
  show "x \<noteq> y" using pq A by (auto simp: pair_places_def pair_columns_def split: if_splits)
qed

definition rope_angles ::
  "device_float \<Rightarrow> f32 \<Rightarrow> f32 \<Rightarrow> u64 \<Rightarrow> f32 \<times> f32 \<times> f32 \<times> f32 \<Rightarrow> u64 \<Rightarrow> nat \<Rightarrow> nat \<Rightarrow> f32" where
  "rope_angles F base scale dimension bands position_offset row pair =
     rope_angle F base scale dimension bands (position_offset + of_nat row) (of_nat pair)"

lemma rope_scatters:
  assumes ok: "rope_sizes_ok rows cols half n_heads width" and len: "len = unat rows * unat cols"
    and "h": "h input = Some xs" "length xs = len" "input \<noteq> out"
    and spec: "spec = rotated F (rope_angles F base scale dimension bands position_offset) (half_split \<noteq> 0) (unat half)
      (unat n_heads) width xs"
    and spots: "spots = pair_places (half_split \<noteq> 0) (unat half) width"
  shows "scatter (rows * (n_heads * half)) out len
    (\<lambda>i. [(fst (spots (unat i)), spec (fst (spots (unat i)))), (snd (spots (unat i)), spec (snd (spots (unat i))))]) h
    (rope_kernel F input out rows cols half base scale dimension position_offset n_heads half_split bands)"
  unfolding scatter_def
proof (intro allI impI)
  fix i :: u64 and ys :: "f32 list"
  assume ys: "length ys = len"
  let ?f = "rope_kernel F input out rows cols half base scale dimension position_offset n_heads half_split bands"
  let ?writes = "[(fst (spots (unat i)), spec (fst (spots (unat i)))), (snd (spots (unat i)), spec (snd (spots (unat i))))]"
  show "?f i (h(out \<mapsto> ys)) =
      Some (h(out \<mapsto> if i < rows * (n_heads * half) then write_all ?writes ys else ys))"
  proof (cases "i < rows * (n_heads * half)")
    case False
    then have "rows * (n_heads * half) \<le> i" by simp
    then have "?f i m = Some m" for m unfolding rope_kernel_def Let_def by (rule if_P)
    then show ?thesis using False by simp
  next
    case True
    obtain x y where xy: "spots (unat i) = (x, y)" by fastforce
    define b p where bp: "b = i div (n_heads * half) * cols + i mod (n_heads * half) div half * (cols div n_heads)"
      "p = i mod (n_heads * half) mod half"
    define u v where uv: "u = (if half_split \<noteq> 0 then b + p else b + 2 * p)"
      "v = (if half_split \<noteq> 0 then b + p + half else b + 2 * p + 1)"
    note at = rope_places [OF ok True bp xy [unfolded spots]]
    have u: "unat u = x" "x < len" and v: "unat v = y" "y < len" using at len by (simp_all only: uv)
    have half: "0 < unat half" "2 * unat half \<le> width" using ok by (simp_all add: rope_sizes_ok_def unat_gt_0)
    define t where "t = rope_angle F base scale dimension bands (position_offset + i div (n_heads * half)) p"
    have t: "rope_angles F base scale dimension bands position_offset (unat i div unat half div unat n_heads)
        (unat i mod unat half) = t"
      unfolding rope_angles_def t_def bp rope_index(2,3) [OF ok True, symmetric] by simp
    note val = rotated_pair [OF half xy [unfolded spots], of F "rope_angles F base scale dimension bands position_offset"
      "unat n_heads" xs, folded spec, unfolded t]
    have run: "?f i (h(out \<mapsto> ys)) =
        Option.bind (mem_load (h(out \<mapsto> ys)) input u) (\<lambda>a. Option.bind (mem_load (h(out \<mapsto> ys)) input v) (\<lambda>b.
        Option.bind (mem_store (h(out \<mapsto> ys)) out u (f_mul_sub F a (f_cos F t) b (f_sin F t))) (\<lambda>h.
          mem_store h out v (f_mul_add F a (f_sin F t) b (f_cos F t)))))"
      using True by (simp add: rope_kernel_def Let_def uv bp t_def not_le [THEN iffD2, OF True])
    have "?f i (h(out \<mapsto> ys)) = Some (h(out \<mapsto> ys[x := spec x, y := spec y]))"
      unfolding run using u v h ys by (simp add: mem_load_def mem_store_def val)
    then show ?thesis using True by (simp add: xy write_all_def)
  qed
qed

section \<open>All threads\<close>

text \<open>
  In any order they leave the rotated tensor, when the columns no thread writes were the input's.
\<close>

lemma rope_runs:
  assumes ok: "rope_sizes_ok rows cols half n_heads width" and len: "len = unat rows * unat cols"
    and h: "h input = Some xs" "length xs = len" "input \<noteq> out"
    and out: "h out = Some ys" "length ys = len" "2 * unat half < width \<Longrightarrow> ys = xs"
    and all: "\<And>i. i < rows * (n_heads * half) \<Longrightarrow> i \<in> set order"
  shows "run_threads (rope_kernel F input out rows cols half base scale dimension position_offset n_heads half_split bands)
      order h = Some (h(out \<mapsto> map (rotated F (rope_angles F base scale dimension bands position_offset) (half_split \<noteq> 0)
        (unat half) (unat n_heads) width xs) [0..<len]))"
proof -
  define spec where "spec = rotated F (rope_angles F base scale dimension bands position_offset) (half_split \<noteq> 0)
    (unat half) (unat n_heads) width xs"
  define spots where "spots = pair_places (half_split \<noteq> 0) (unat half) width"
  have W: "2 * unat half \<le> width" and cells: "unat cols = unat n_heads * width"
    using ok by (simp_all only: rope_sizes_ok_def)
  have "unat half \<noteq> 0" using ok by (simp add: rope_sizes_ok_def unat_eq_0)
  then have W0: "0 < width" using W by simp
  have n: "unat (rows * (n_heads * half)) = unat rows * unat n_heads * unat half"
    by (rule rope_total(2) [OF ok])
  have scatters: "scatter (rows * (n_heads * half)) out len
    (\<lambda>i. [(fst (spots (unat i)), spec (fst (spots (unat i)))), (snd (spots (unat i)), spec (snd (spots (unat i))))]) h
    (rope_kernel F input out rows cols half base scale dimension position_offset n_heads half_split bands)"
    by (rule rope_scatters [of rows cols half n_heads width len h input xs out spec]) (fact ok len h spec_def spots_def)+
  have rest: "ys ! j = spec j" if j: "j < len"
    and none: "\<And>i. i < rows * (n_heads * half) \<Longrightarrow> j \<notin> {fst (spots (unat i)), snd (spots (unat i))}" for j
  proof -
    have "\<not> j mod width < 2 * unat half"
    proof
      assume c: "j mod width < 2 * unat half"
      have "j < unat rows * unat n_heads * width" using j len cells by (simp add: mult.assoc)
      from pair_places_onto [OF this c, of "half_split \<noteq> 0"] obtain i where
        i: "i < unat rows * unat n_heads * unat half" "j = fst (spots i) \<or> j = snd (spots i)"
        unfolding spots_def by blast
      then have "of_nat i < rows * (n_heads * half)" "unat (of_nat i :: u64) = i"
        using n unat_lt_u64 [of "rows * (n_heads * half)"]
        by (auto simp: word_less_nat_alt unat_of_nat take_bit_nat_eq_self_iff)
      with none [of "of_nat i"] i(2) show False by auto
    qed
    moreover from this have "2 * unat half < width" using W W0 by (metis leD le_neq_implies_less mod_less_divisor)
    ultimately show ?thesis using out(3) by (simp add: spec_def rotated_def Let_def)
  qed
  have same: "h(out \<mapsto> ys) = h" using out(1) by (rule fun_upd_idem)
  show ?thesis
    unfolding spec_def [symmetric]
    by (subst same [symmetric], rule run_scatter_all [OF scatters out(2) all]) (use rest in auto)
qed

end
