(* ===== verification/Rope_Results.thy ===== *)
theory Rope_Results
  imports Matmul_Results Device_Rope
begin

text \<open>
  What \<open>rope\<close> computes: the tensor with every pair of a head's first \<open>dimension\<close> columns turned by
  the angle of its position, in either pairing and with or without banded frequency scaling, into a
  fresh output or into a copy of the input that keeps the other columns.
\<close>

section \<open>The tensor\<close>

definition band_arguments :: "banded_scaling option \<Rightarrow> f32 \<times> f32 \<times> f32 \<times> f32" where
  "band_arguments scaling = (case scaling of None \<Rightarrow> (0, 0, 0, 0)
     | Some s \<Rightarrow> (f64_as_f32 (factor s), f64_as_f32 (low_freq_factor s), f64_as_f32 (high_freq_factor s),
         f64_as_f32 (original_context_length s)))"

definition tensor_rope ::
  "device_float \<Rightarrow> f32 \<Rightarrow> f32 \<Rightarrow> u64 \<Rightarrow> u64 \<Rightarrow> u64 \<Rightarrow> rope_pairing \<Rightarrow> banded_scaling option \<Rightarrow> host_tensor \<Rightarrow>
   host_tensor option" where
  "tensor_rope F base scale dimension position_offset n_heads pairing scaling a = (case tshape a of
     [rows, cols] \<Rightarrow>
       (let width = unat cols div unat n_heads in
        if n_heads \<noteq> 0 \<and> unat n_heads dvd unat cols \<and> dimension \<noteq> 0 \<and> even (unat dimension) \<and> unat dimension \<le> width
        then Some \<lparr>tshape = tshape a, tdata = map (rotated F (rope_angles F base scale dimension
            (band_arguments scaling) position_offset) (pairing = HalfSplit) (unat dimension div 2) (unat n_heads) width
            (tdata a)) [0..<length (tdata a)]\<rparr>
        else None)
   | _ \<Rightarrow> None)"

section \<open>The output and the launch\<close>

lemma work_items:
  assumes "rope_launch_work_items rows n_heads half = Inr w"
  shows "ucast w = rows * (n_heads * half)" "unat rows * unat n_heads * unat half < 2 ^ 32"
proof -
  obtain v u where v: "checked_mul rows n_heads = Some v" "checked_mul v half = Some u" "try_u32 u = Some w"
    using assms by (auto simp: rope_launch_work_items_def split: option.splits)
  have u: "unat w = unat rows * unat n_heads * unat half"
    using try_u32_Some [OF v(3)] checked_mul_Some [OF v(2)] checked_mul_Some [OF v(1)] by simp
  have "unat w < 2 ^ 32" using unsigned_less [of w] by simp
  then show "unat rows * unat n_heads * unat half < 2 ^ 32" unfolding u .
  have "(ucast w :: u64) = of_nat (unat w)" by simp
  then show "ucast w = rows * (n_heads * half)" unfolding u by simp
qed

text \<open>A fresh output, or a copy of the input.\<close>

definition rope_output :: "'d external \<Rightarrow> device_buffer \<Rightarrow> bool \<Rightarrow> ('d, cuda_slice) kernel_op" where
  "rope_output D input whole =
     (if whole then alloc_output D (slen (buf_slice input))
      else andthen (forbid_in_capture ''a buffer copy'') (\<lambda>_.
           andthen (drv D (cu_clone_dtod D F32 (buf_slice input))) (\<lambda>p.
           ret \<lparr>ptr = p, slen = slen (buf_slice input)\<rparr>)))"

definition output_ready :: "'d view \<Rightarrow> ('d \<Rightarrow> bool) \<Rightarrow> f32 list \<Rightarrow> bool \<Rightarrow> 'd kernels \<Rightarrow> cuda_slice \<Rightarrow> 'd kernels \<Rightarrow> bool" where
  "output_ready V X xs whole k s k' \<longleftrightarrow> unat (slen s) = length xs \<and>
     (\<exists>ys. f32_at V (device k') (ptr s) = Some ys \<and> length ys = length xs \<and> (whole \<or> ys = xs)) \<and>
     intact V (device k) (device k') \<and> X (device k') \<and>
     (ptr s \<in> offers k \<and> offered_output k' = None \<or> f32_at V (device k) (ptr s) = None)"

lemma pre_rope_output:
  fixes k :: "'d kernels"
  assumes k: "ready D V X F k" and M: "device_memory D V" and a: "feeds V k a t" "bf16 a = None"
  shows "pre (rope_output D a whole) (output_ready V X (tdata t) whole k) (\<lambda>_. gave_up V X k) k"
proof (cases whole)
  case True
  note A = feeds_plain [OF a]
  have "pre (alloc_output D (slen (buf_slice a))) (output_ready V X (tdata t) whole k) (\<lambda>_. gave_up V X k) k"
    by (rule pre_alloc_output [OF readyD [OF k]])
      (use A(3) True in \<open>auto simp: output_ready_def intro: gave_up_intact\<close>)
  then show ?thesis using True by (simp add: rope_output_def)
next
  case False
  note A = feeds_plain [OF a]
  have "pre (cu_clone_dtod D F32 (buf_slice a))
      (\<lambda>p d. intact V (device k) d \<and> f32_at V (device k) p = None \<and> f32_at V d p = Some (tdata t))
      (\<lambda>_ d. intact V (device k) d) (device k)"
    by (rule pre_alloc_f32 [OF memory_laws(3) [OF M]]) (use A(1) in auto)
  from pre_stays [OF this stays_laws(6) [OF readyD(1) [OF k]] readyD(2) [OF k]]
  have "pre (drv D (cu_clone_dtod D F32 (buf_slice a)))
      (\<lambda>p k1. output_ready V X (tdata t) whole k \<lparr>ptr = p, slen = slen (buf_slice a)\<rparr> k1) (\<lambda>_. gave_up V X k) k"
    unfolding pre_drv by (rule pre_mono) (use A(3) False in \<open>auto simp: output_ready_def intro: gave_up_intact\<close>)
  then have rest: "pre (andthen (drv D (cu_clone_dtod D F32 (buf_slice a))) (\<lambda>p.
      ret \<lparr>ptr = p, slen = slen (buf_slice a)\<rparr>)) (output_ready V X (tdata t) whole k) (\<lambda>_. gave_up V X k) k"
    by (simp add: wp)
  show ?thesis unfolding rope_output_def if_not_P [OF False] pre_andthen [where m = "forbid_in_capture _"]
    by (rule pre_forbid) (use rest readyD(2) [OF k] in \<open>auto intro: gave_up_intact\<close>)
qed

lemma device_rope_thread:
  "device_thread F g ''rope_kernel'' [APtr input, APtr out, AU64 rows, AU64 cols, AU64 half, AF32 base,
      AF32 scale, AU64 dimension, AU64 position_offset, AU64 n_heads, AU32 split, APtr 0, AF32 b0, AF32 b1,
      AF32 b2, AF32 b3] =
    Some (rope_kernel F input out rows cols half base scale dimension position_offset n_heads split
      (b0, b1, b2, b3))"
  by (simp add: device_thread_def rope_thread_def)

lemma rope_launches:
  fixes k k1 :: "'d kernels"
  assumes k: "ready D V X F k" and a: "feeds V k a t" "bf16 a = None" and rect: "rectangular t rows cols"
    and half: "half \<noteq> 0" "unat cols = unat n_heads * width" "2 * unat half \<le> width"
    and w: "rope_launch_work_items rows n_heads half = Inr w"
    and out: "output_ready V X (tdata t) (2 * unat half = width) k s k1"
  shows "pre (launch_elems D ''rope_kernel'' [APtr (ptr (buf_slice a)), APtr (ptr s), AU64 rows, AU64 cols, AU64 half,
      AF32 base, AF32 scale, AU64 dimension, AU64 position_offset, AU64 n_heads, AU32 split, APtr 0, AF32 b0, AF32 b1,
      AF32 b2, AF32 b3] (ucast w))
    (\<lambda>_. gives V X (Some \<lparr>tshape = [rows, cols], tdata = map (rotated F (rope_angles F base scale dimension
      (b0, b1, b2, b3) position_offset) (split \<noteq> 0) (unat half) (unat n_heads) width (tdata t)) [0..<length (tdata t)]\<rparr>) k
      (plain s [rows, cols])) (\<lambda>_. gave_up V X k) k1"
    (is "pre _ (\<lambda>_. gives V X (Some ?t) k ?b) _ k1")
proof -
  note A = feeds_plain [OF a]
  from out obtain ys where ys: "f32_at V (device k1) (ptr s) = Some ys" "length ys = length (tdata t)"
    "2 * unat half = width \<or> ys = tdata t"
    and k1: "intact V (device k) (device k1)" "X (device k1)" and s: "unat (slen s) = length (tdata t)"
    and p: "ptr s \<in> offers k \<and> offered_output k1 = None \<or> f32_at V (device k) (ptr s) = None"
    by (auto simp: output_ready_def)
  have in1: "f32_at V (device k1) (ptr (buf_slice a)) = Some (tdata t)" by (rule intactD(1) [OF k1(1) A(1)])
  have apart: "ptr (buf_slice a) \<noteq> ptr s" using p A(1,2) by auto
  have len: "length (tdata t) = unat rows * unat cols" "unat rows * unat cols < 2 ^ 64"
    using rect by (simp_all add: rectangular_def)
  have ok: "rope_sizes_ok rows cols half n_heads width"
    using half work_items(2) [OF w] len(2) by (simp only: rope_sizes_ok_def) simp
  have "unat (ucast w :: u64) = unat rows * unat n_heads * unat half"
    unfolding work_items(1) [OF w] by (rule rope_total(2) [OF ok])
  then have n: "unat (ucast w :: u64) < 2 ^ 32" using work_items(2) [OF w] by simp
  show ?thesis
  proof (rule pre_launch_threads [OF readyD(1) [OF k] k1(2) n device_rope_thread,
      where out = "ptr s" and P = "\<lambda>zs. zs = tdata ?t"])
    fix order :: "u64 list"
    assume all: "\<And>i. i < ucast w \<Longrightarrow> i \<in> set order"
    have "run_threads (rope_kernel F (ptr (buf_slice a)) (ptr s) rows cols half base scale dimension position_offset n_heads
        split (b0, b1, b2, b3)) order (f32_at V (device k1)) = Some ((f32_at V (device k1))(ptr s \<mapsto> tdata ?t))"
      unfolding host_tensor.select_convs
      by (rule rope_runs [OF ok len(1) in1 refl apart ys(1,2)])
        (use ys(3) all work_items(1) [OF w] in auto)
    then show "\<exists>zs. run_threads (rope_kernel F (ptr (buf_slice a)) (ptr s) rows cols half base scale dimension
        position_offset n_heads split (b0, b1, b2, b3)) order (f32_at V (device k1)) =
        Some ((f32_at V (device k1))(ptr s \<mapsto> zs)) \<and> zs = tdata ?t" by blast
  next
    fix zs and k2 :: "'d kernels"
    assume k2: "X (device k2)" "u16_at V (device k2) = u16_at V (device k1)"
      "f32_at V (device k2) = (f32_at V (device k1))(ptr s \<mapsto> zs)" and o2: "offered_output k2 = offered_output k1"
      and zs: "zs = tdata ?t"
    have "holds V (device k2) ?b ?t" using k2(3) zs s by (simp add: holds_def content_def buffer_len_def)
    moreover have at: "ptr s \<in> offers k \<or> f32_at V (device k) (ptr s) = None" using p by auto
    ultimately show "gives V X (Some ?t) k ?b k2"
      using k2(1) spared_out [OF k1(1) at k2(2,3)] p o2 by (auto simp: gives_def new_place_def)
  next
    fix e and k2 :: "'d kernels"
    assume "X (device k2)" "u16_at V (device k2) = u16_at V (device k1)"
      "f32_at V (device k2) = f32_at V (device k1)"
    then show "gave_up V X k k2" using k1(1) by (intro gave_up_intact) (simp_all add: intact_def)
  qed
qed

section \<open>The Kernel\<close>

lemma capture_none_kept:
  assumes "keeps (frame_le (\<lambda>_. True)) m" "capture k = None" "m k = (r, k')"
  shows "capture k' = None"
  using keepsD [OF assms(1,3)] assms(2) by (simp add: frame_le_def capture_le_def)

lemma pre_capture_none:
  assumes m: "keeps (frame_le (\<lambda>_. True)) m" and c: "capture k = None" and p: "pre m Q E k"
  shows "pre m (\<lambda>x k'. capture k' = None \<and> Q x k') E k"
  using p capture_none_kept [OF m c] by (auto simp: pre_def split: prod.splits sum.splits)

lemma keeps_rope_output: "keeps (frame_le (\<lambda>_. True)) (rope_output D input whole)"
  unfolding rope_output_def by (rule keeps_if keeps_clone_dtod kernel_keeps)+

lemma ensured: "(case c of None \<Rightarrow> ret () | Some v \<Rightarrow> (case f v of Inl r \<Rightarrow> throw (e r) | Inr _ \<Rightarrow> ret ())) =
    lift (case c of None \<Rightarrow> Inr () | Some v \<Rightarrow> (case f v of Inl r \<Rightarrow> Inl (e r) | Inr _ \<Rightarrow> Inr ()))"
  by (auto simp: lift_def throw_def ret_def fun_eq_iff split: option.split sum.split)

text \<open>The sizes of a rotation that passed the code's checks, in natural numbers.\<close>

lemma checked_rope_sizes:
  fixes cols n_heads dimension :: u64
  assumes "n_heads \<noteq> 0" "is_multiple_of cols n_heads" "dimension \<noteq> 0" "is_multiple_of dimension 2"
    "\<not> dimension > cols div n_heads"
  shows "unat n_heads dvd unat cols" "even (unat dimension)" "unat dimension \<le> unat cols div unat n_heads"
    "unat (dimension div 2) = unat dimension div 2" "dimension div 2 \<noteq> 0"
    "unat cols = unat n_heads * (unat cols div unat n_heads)" "2 * unat (dimension div 2) \<le> unat cols div unat n_heads"
    "dimension = cols div n_heads \<longleftrightarrow> 2 * unat (dimension div 2) = unat cols div unat n_heads"
proof -
  have w0: "unat (cols div n_heads) = unat cols div unat n_heads" by (simp add: unat_div)
  have "unat (cols mod n_heads) = 0" using assms(1,2) by (simp add: is_multiple_of_def)
  then show hd: "unat n_heads dvd unat cols" by (simp add: unat_mod dvd_eq_mod_eq_0)
  have "unat (dimension mod 2) = 0" using assms(4) by (simp add: is_multiple_of_def)
  then show ev: "even (unat dimension)" by (simp add: unat_mod dvd_eq_mod_eq_0)
  show half: "unat (dimension div 2) = unat dimension div 2" by (simp add: unat_div)
  show le: "unat dimension \<le> unat cols div unat n_heads" using assms(5) w0 by (simp add: word_less_nat_alt)
  show "dimension = cols div n_heads \<longleftrightarrow> 2 * unat (dimension div 2) = unat cols div unat n_heads"
    using ev half w0 by (simp add: word_unat_eq_iff)
  have "unat dimension \<noteq> 0" using assms(3) by (simp add: unat_eq_0)
  then show "dimension div 2 \<noteq> 0" "unat cols = unat n_heads * (unat cols div unat n_heads)"
    "2 * unat (dimension div 2) \<le> unat cols div unat n_heads"
    using ev half hd le by (auto simp: word_unat_eq_iff [of "dimension div 2"])
qed

lemma computes_rope_launch:
  fixes k :: "'d kernels"
  assumes k: "ready D V X F k" and M: "device_memory D V" and c: "capture k = None" and a: "feeds V k a t" "bf16 a = None"
    and rect: "\<And>rows cols. tshape t = [rows, cols] \<Longrightarrow> rectangular t rows cols"
    and bands: "band_arguments scaling = (b0, b1, b2, b3)" and sh: "shape a = [rows, cols]"
    and ok: "n_heads \<noteq> 0" "is_multiple_of cols n_heads" "dimension \<noteq> 0" "is_multiple_of dimension 2"
      "\<not> dimension > cols div n_heads"
    and w: "rope_launch_work_items rows n_heads (dimension div 2) = Inr w"
  shows "computes V X (andthen (rope_output D a (dimension = cols div n_heads)) (\<lambda>out.
      andthen (advancing_offset ''position_offset'' (- 1)) (\<lambda>step.
      andthen (load_function D ''rope_kernel'') (\<lambda>_.
      andthen (launch_kernel D ''rope_kernel''
          [APtr (ptr (buf_slice a)), APtr (ptr out), AU64 rows, AU64 cols, AU64 (dimension div 2), AF32 base,
           AF32 scale, AU64 dimension, AU64 position_offset, AU64 n_heads,
           AU32 (case pairing of Interleaved \<Rightarrow> 0 | HalfSplit \<Rightarrow> 1),
           APtr step, AF32 b0, AF32 b1, AF32 b2, AF32 b3]
          (for_num_elems D w)) (\<lambda>_. ret (plain out (shape a)))))))
      (tensor_rope F base scale dimension position_offset n_heads pairing scaling t) k"
proof -
  let ?split = "case pairing of Interleaved \<Rightarrow> 0 | HalfSplit \<Rightarrow> (1 :: u32)" and ?half = "dimension div 2"
    and ?w = "unat cols div unat n_heads"
  note sizes = checked_rope_sizes [OF ok]
  have sh': "tshape t = [rows, cols]" using a(1) sh by (simp add: feeds_def holds_def)
  have split: "?split \<noteq> 0 \<longleftrightarrow> pairing = HalfSplit" by (cases pairing) simp_all
  have t: "tensor_rope F base scale dimension position_offset n_heads pairing scaling t = Some
      \<lparr>tshape = [rows, cols], tdata = map (rotated F (rope_angles F base scale dimension (b0, b1, b2, b3) position_offset)
        (?split \<noteq> 0) (unat ?half) (unat n_heads) ?w (tdata t)) [0..<length (tdata t)]\<rparr>" (is "_ = Some ?t")
    unfolding split sizes(4) tensor_rope_def bands sh' using ok(1,3) sizes(1-3) by (simp add: Let_def)
  show ?thesis
    unfolding computes_def pre_andthen t
  proof (rule pre_mono [OF pre_capture_none [OF keeps_rope_output c pre_rope_output [OF k M a]]])
    fix s and k1 :: "'d kernels"
    assume o: "capture k1 = None \<and> output_ready V X (tdata t) (dimension = cols div n_heads) k s k1"
    then have adv: "pre (advancing_offset attr l) Q E k1 = Q 0 k1" for attr l and Q :: "u64 \<Rightarrow> 'd kernels \<Rightarrow> bool" and E
      by (simp add: pre_def advancing_offset_def)
    have w32: "as_u32 (ucast w :: u64) = w" by (rule bit_word_eqI) (auto simp: as_u32_def bit_simps)
    note rope_launches [OF k a rect [OF sh'] sizes(5-7) w, of s k1 base scale dimension position_offset ?split b0 b1 b2 b3]
    then show "pre (advancing_offset ''position_offset'' (- 1)) (\<lambda>step. pre (load_function D ''rope_kernel'') (\<lambda>_.
        pre (launch_kernel D ''rope_kernel'' [APtr (ptr (buf_slice a)), APtr (ptr s), AU64 rows, AU64 cols,
          AU64 ?half, AF32 base, AF32 scale, AU64 dimension, AU64 position_offset, AU64 n_heads, AU32 ?split,
          APtr step, AF32 b0, AF32 b1, AF32 b2, AF32 b3] (for_num_elems D w)) (\<lambda>_.
        pre (ret (plain s (shape a))) (gives V X (Some ?t) k) (\<lambda>_. gave_up V X k)) (\<lambda>_. gave_up V X k))
        (\<lambda>_. gave_up V X k)) (\<lambda>_. gave_up V X k) k1"
      unfolding adv using o unfolding sizes(8) launch_elems_def pre_andthen w32 pre_ret sh by simp
  qed
qed

lemma computes_rope:
  fixes k :: "'d kernels"
  assumes k: "ready D V X F k" and M: "device_memory D V" and c: "capture k = None" and a: "feeds V k a t"
    and rect: "\<And>rows cols. tshape t = [rows, cols] \<Longrightarrow> rectangular t rows cols"
  shows "computes V X (rope_with_frequency_scaling D a base scale dimension position_offset n_heads pairing scaling)
    (tensor_rope F base scale dimension position_offset n_heads pairing scaling t) k"
proof -
  obtain b0 b1 b2 b3 where bands: "band_arguments scaling = (b0, b1, b2, b3)" by (metis prod_cases4)
  show ?thesis
    unfolding rope_with_frequency_scaling_def Let_def rope_output_def [symmetric] band_arguments_def [symmetric] bands
      prod.case ensured
    by (rule computes_lift [OF k], rule computes_lift [OF k], rule computes_lift [OF k], split prod.split, intro allI impI,
        (rule computes_ensure [OF k])+, rule computes_lift [OF k], rule computes_rope_launch [OF k M c a _ rect bands])
      (auto simp: is_compact_def)
qed

section \<open>Rotating a part of a sequence\<close>

text \<open>
  The rows from \<open>first\<close> on, rotated as if the sequence began there at a later position, are those
  rows of the rotated whole.
\<close>

lemma rotated_later:
  assumes sizes: "0 < width" "0 < n" "0 < half" "2 * half \<le> width" and i: "i < m * (n * width)"
    and fits: "first * (n * width) + m * (n * width) \<le> length xs"
  shows "rotated F (\<lambda>row. angle (first + row)) split half n width (take (m * (n * width)) (drop (first * (n * width)) xs)) i =
    rotated F angle split half n width xs (first * (n * width) + i)"
proof -
  let ?s = "first * (n * width)" and ?c = "i mod width"
  let ?ys = "take (m * (n * width)) (drop ?s xs)"
  have c: "(?s + i) mod width = ?c" by (simp add: mult.assoc [symmetric])
  have "?s + i = i + first * n * width" by simp
  then have "(?s + i) div width = i div width + first * n" using sizes(1) by (simp only: div_mult_self1)
  then have row: "(?s + i) div width div n = first + i div width div n" using sizes(2) by simp
  have start: "?s + i - ?c = ?s + (i - ?c)" by simp
  have "i div width * width + width \<le> m * n * width"
    using i by (metis add.commute less_mult_imp_div_less mult.assoc mult_Suc mult_le_mono1 Suc_leI)
  then have at: "?ys ! (i - ?c + p) = xs ! (?s + (i - ?c) + p)" if "p < width" for p
    using that fits by (simp add: minus_mod_eq_div_mult add.assoc mult.assoc)
  show ?thesis
  proof (cases "?c < 2 * half")
    case False
    moreover have "?ys ! i = xs ! (?s + i)" using i fits by simp
    ultimately show ?thesis by (simp add: rotated_def c Let_def)
  next
    case True
    obtain pair second where ps: "pair_of split half ?c = (pair, second)" by fastforce
    obtain p q where pq: "pair_columns split half pair = (p, q)" by fastforce
    have "pair < half" using pair_of_inverse(1) [OF True, of split] ps by simp
    then have "p < width" "q < width" using pair_columns_inverse(3,4) [of pair half split] pq sizes(4) by auto
    then show ?thesis using True at [of p] at [of q]
      unfolding rotated_def c row start Let_def ps prod.case pq by simp
  qed
qed

lemma tensor_rope_later:
  assumes t: "rectangular t rows cols" and le: "unat first + unat m \<le> unat rows"
  shows "tensor_rope F base scale dimension (position_offset + first) n_heads pairing scaling (rows_of t cols first m) =
    map_option (\<lambda>u. rows_of u cols first m)
      (tensor_rope F base scale dimension position_offset n_heads pairing scaling t)"
proof -
  let ?w = "unat cols div unat n_heads"
  have sh: "tshape t = [rows, cols]" using t by (simp add: rectangular_def)
  have fits: "unat first * unat cols + unat m * unat cols \<le> length (tdata t)" by (rule row_range(4) [OF t le])
  have len: "length (tdata (rows_of t cols first m)) = unat m * unat cols" using fits by (simp add: rows_of_def)
  have later: "rope_angles F base scale dimension b (position_offset + first) =
      (\<lambda>row. rope_angles F base scale dimension b position_offset (unat first + row))" for b
    by (simp add: rope_angles_def fun_eq_iff add.assoc)
  show ?thesis
  proof (cases "n_heads \<noteq> 0 \<and> unat n_heads dvd unat cols \<and> dimension \<noteq> 0 \<and> even (unat dimension) \<and> unat dimension \<le> ?w")
    case False
    then show ?thesis by (auto simp: tensor_rope_def sh rows_of_def Let_def)
  next
    case True
    let ?half = "unat dimension div 2"
    have cols: "unat cols = unat n_heads * ?w" using True by simp
    have "unat dimension \<noteq> 0" using True by (simp add: unat_eq_0)
    moreover obtain b where b: "unat dimension = 2 * b" using True by (auto elim: evenE)
    ultimately have "b \<noteq> 0" by (metis mult_0_right)
    then have h: "0 < unat n_heads" "0 < ?half" "2 * ?half \<le> ?w" "0 < ?w" using True b by (auto simp: unat_gt_0)
    let ?angle = "rope_angles F base scale dimension (band_arguments scaling) position_offset"
    let ?xs = "map (rotated F ?angle (pairing = HalfSplit) ?half (unat n_heads) ?w (tdata t)) [0..<length (tdata t)]"
    have "map (rotated F (\<lambda>row. ?angle (unat first + row)) (pairing = HalfSplit) ?half (unat n_heads) ?w
        (take (unat m * unat cols) (drop (unat first * unat cols) (tdata t)))) [0..<unat m * unat cols] =
        take (unat m * unat cols) (drop (unat first * unat cols) ?xs)" (is "?l = ?r")
    proof (rule nth_equalityI)
      show "length ?l = length ?r" using fits by simp
      fix i assume "i < length ?l"
      then have i: "i < unat m * unat cols" by simp
      then show "?l ! i = ?r ! i"
        using rotated_later [OF h(4,1,2,3), of i "unat m" "unat first" "tdata t" F ?angle "pairing = HalfSplit"] fits
        unfolding cols [symmetric] by simp
    qed
    then show ?thesis using True len
      unfolding tensor_rope_def later by (simp add: sh rows_of_def Let_def)
  qed
qed

end
