(* ===== verification/Rope_Dispatch.thy ===== *)
theory Rope_Dispatch
  imports Operator_Results Rope_Results
begin

text \<open>
  What a dispatched \<open>rope\<close> means: its attributes are read, its Kernel rotates the input, and the
  executor's tensors change at the output only.
\<close>

section \<open>The Operator on the store\<close>

definition rope_result ::
  "device_float \<Rightarrow> runtime \<Rightarrow> invocation \<Rightarrow> (string \<Rightarrow> host_tensor option) \<Rightarrow> host_tensor option" where
  "rope_result F R call S = (let attrs = attributes call in
     Option.bind (operand call 0 S) (\<lambda>a.
       case (required_integer attrs ''dimension'', rope_position_offset attrs, rope_rotation_pairing attrs, rt_banded R attrs) of
         (Inr dimension, Inr position_offset, Inr pairing, Inr scaling) \<Rightarrow>
           tensor_rope F (attribute_float attrs ''base'' 0x461C4000) (attribute_float attrs ''scale'' 0x3F800000)
             dimension position_offset (case attribute_integer attrs ''head_count'' of Some h \<Rightarrow> h | None \<Rightarrow> 1) pairing scaling a
       | _ \<Rightarrow> None))"

text \<open>An input that is a matrix only when its size does not wrap.\<close>

definition sized :: "host_tensor option \<Rightarrow> bool" where
  "sized t \<longleftrightarrow> (\<forall>a rows cols. t = Some a \<longrightarrow> tshape a = [rows, cols] \<longrightarrow> rectangular a rows cols)"

lemma ensure_ends:
  assumes k: "ready D V X F (kernels y)" and f: "c \<Longrightarrow> m () y = (q, z) \<Longrightarrow> ends_with V X t y q z"
    and run: "andthen (ensure c e) m y = (q, z)"
  shows "ends_with V X t y q z"
proof -
  have eq: "ensure c e = lift (if c then Inr () else Inl e)" by (simp add: ensure_def lift_def ret_def throw_def fun_eq_iff)
  show ?thesis by (rule lift_ends [OF k _ run [unfolded eq]]) (use f in \<open>simp split: if_splits\<close>)
qed

lemma rope_ends:
  assumes k: "ready D V X F (kernels y)" and M: "device_memory D V" and c: "capture (kernels y) = None"
    and fd: "feeding V S call y" and rect: "sized (operand call 0 S)" and run: "dispatch_rope D R call y = (q, z)"
  shows "ends_with V X (rope_result F R call S) y q z"
  unfolding rope_result_def Let_def
proof (rule input_then [OF k fd _ run [unfolded dispatch_rope_def Let_def]])
  fix a t
  assume a: "feeds V (kernels y) a t" "operand call 0 S = Some t"
  let ?attrs = "attributes call"
  let ?rope = "\<lambda>dimension offset pairing scaling. rope_with_frequency_scaling D a (attribute_float ?attrs ''base'' 0x461C4000)
    (attribute_float ?attrs ''scale'' 0x3F800000) dimension offset
    (case attribute_integer ?attrs ''head_count'' of Some h \<Rightarrow> h | None \<Rightarrow> 1) pairing scaling"
  assume rest: "andthen (lift (required_integer ?attrs ''dimension'')) (\<lambda>dimension.
       andthen (ensure (case ?attrs ''position_mode'' of Some (StringAttr mode) \<Rightarrow> mode = ''sequential'' | _ \<Rightarrow> True)
         (KernelAttributeUnsupported ''position_mode is not implemented'')) (\<lambda>_.
       andthen (lift (rope_position_offset ?attrs)) (\<lambda>offset.
       andthen (lift (rope_rotation_pairing ?attrs)) (\<lambda>pairing.
       andthen (lift (case rt_banded R ?attrs of
            Inl attribute \<Rightarrow> Inl (KernelAttributeUnsupported attribute) | Inr f \<Rightarrow> Inr f)) (\<lambda>scaling.
        kernel_call (?rope dimension offset pairing scaling)))))) y = (q, z)"
  have sized: "tshape t = [rows, cols] \<Longrightarrow> rectangular t rows cols" for rows cols
    using rect a(2) by (simp add: sized_def)
  note computes = computes_rope [OF k M c a(1) sized]
  note ends = kernel_call_ends [OF computes]
  show "ends_with V X (case (required_integer ?attrs ''dimension'', rope_position_offset ?attrs,
      rope_rotation_pairing ?attrs, rt_banded R ?attrs) of
         (Inr dimension, Inr offset, Inr pairing, Inr scaling) \<Rightarrow>
           tensor_rope F (attribute_float ?attrs ''base'' 0x461C4000) (attribute_float ?attrs ''scale'' 0x3F800000)
             dimension offset (case attribute_integer ?attrs ''head_count'' of Some h \<Rightarrow> h | None \<Rightarrow> 1) pairing scaling t
       | _ \<Rightarrow> None) y q z"
    by (rule lift_ends [OF k _ rest], erule ensure_ends [OF k, rotated], (erule lift_ends [OF k, rotated])+)
      (simp add: ends split: sum.splits)
qed

lemma rope_means:
  assumes M: "device_memory D V" and c: "capture (kernels x) = None"
    and name: "kernel_name call = ''rope''" and rect: "sized (operand call 0 (tensors V x))"
  shows "kernel_means D R V X F (rope_result F R call (tensors V x)) call x"
  unfolding kernel_means_def
proof (intro allI impI)
  fix y z :: "'a executor" and q
  assume k: "ready D V X F (kernels y)" and le: "capture_le (capture (kernels x)) (capture (kernels y))"
    and fd: "feeding V (tensors V x) call y" and run: "run_kernel D R call y = (q, z)"
  have "capture (kernels y) = None" using le c by (simp add: capture_le_def)
  from rope_ends [OF k M this fd rect] run name
  show "ends_with V X (rope_result F R call (tensors V x)) y q z" by (simp add: run_kernel_def)
qed

section \<open>The dispatch\<close>

text \<open>C5. A dispatched \<open>rope\<close> rotates its input. Outside a capture, with a device that runs launches
  thread by thread, in any order, the output is the input with the two elements of every pair of a head's
  first \<open>dimension\<close> columns turned by the angle of their position and pair, in the pairing the
  attributes ask for and with banded scaling where they do, and the columns past \<open>dimension\<close> kept;
  rejected attributes fail. No other tensor changes, and a failure leaves the
  tensors as they were, or without the output. The input is a matrix whose size does not wrap.\<close>
theorem rope_dispatch_computes:
  assumes M: "device_memory D V" and H: "host_checked D" and C: "device_computes D V X F"
    and x: "steady V X x" "wf_store x" "small_inputs V call x" and c: "capture (kernels x) = None"
    and name: "kernel_name call = ''rope''" and rect: "sized (operand call 0 (tensors V x))"
    and run: "execute_invocation D R call x = (r, y)"
  shows "steady V X y \<and> wf_store y \<and>
    (case result_outcome r of
       Succeeded _ \<Rightarrow> \<exists>out rest t. outputs call = out # rest \<and> rope_result F R call (tensors V x) = Some t \<and>
         tensors V y = (tensors V x)(rid out \<mapsto> t)
     | Failed _ \<Rightarrow> tensors V y = tensors V x \<or>
         (\<exists>out rest. outputs call = out # rest \<and> tensors V y = (tensors V x)(rid out := None)))"
proof -
  have "wf_store y" using wf_execute_invocation [OF H x(2), of R call] run by simp
  moreover have "kernel_name call \<noteq> ''kv-write''" using name by simp
  from means_dispatched [OF M H C x this rope_means [OF M c name rect] run] name
  show ?thesis using \<open>wf_store y\<close> by (auto simp: dispatched_def split: outcome.splits)
qed

text \<open>C6. Rotating the rows of a sequence one part at a time gives the rows of the whole rotated at once. If the Kernel
  rotates \<open>m\<close> rows that are the rows from \<open>first\<close> on of a whole, at \<open>first\<close> positions later than it
  rotates the whole, its output holds the same rows of the whole's output: a step that decodes
  one more token agrees with the prefill of all of them. The positions add up in 64 bits, in any order.\<close>
theorem rope_of_later_rows:
  assumes M: "device_memory D V" and k: "ready D V X F k" "capture k = None" and l: "ready D V X F l" "capture l = None"
    and a: "feeds V k a t" and b: "feeds V l b (rows_of t cols first m)"
    and t: "rectangular t rows cols" and le: "unat first + unat m \<le> unat rows"
    and whole: "rope_with_frequency_scaling D a base scale dimension offset n_heads pairing scaling k = (Inr c, k')"
    and part: "rope_with_frequency_scaling D b base scale dimension (offset + first) n_heads pairing scaling l = (Inr e, l')"
  shows "\<exists>u. holds V (device k') c u \<and> holds V (device l') e (rows_of u cols first m)"
proof -
  have sub: "rectangular (rows_of t cols first m) m cols"
    using row_range(4) [OF t le] t by (simp add: rectangular_def rows_of_def)
  have "tshape t = [n, w] \<Longrightarrow> rectangular t n w" "tshape (rows_of t cols first m) = [n, w] \<Longrightarrow>
      rectangular (rows_of t cols first m) n w" for n w
    using t sub by (auto simp: rectangular_def rows_of_def)
  from computes_rope [OF k(1) M k(2) a this(1), of base scale dimension offset n_heads pairing scaling]
    computes_rope [OF l(1) M l(2) b this(2), of base scale dimension "offset + first" n_heads pairing scaling]
  show ?thesis using whole part unfolding computes_def pre_def tensor_rope_later [OF t le]
    by (auto simp: gives_def split: option.splits)
qed

section \<open>A concrete case\<close>

text \<open>The tests of the float arguments on words, for evaluation.\<close>

lemma magnitude: "unat (take_bit 31 v) = f32_pattern v" "f32_pattern v = f32_exp v * 2 ^ 23 + f32_man v"
  "f32_sign v = 1 \<longleftrightarrow> 2 ^ 31 \<le> unat v" for v :: f32
proof -
  show "unat (take_bit 31 v) = f32_pattern v" by (simp only: f32_fields take_bit_eq_mod unat_mod) simp
  show "f32_pattern v = f32_exp v * 2 ^ 23 + f32_man v" by (simp add: f32_fields)
  show "f32_sign v = 1 \<longleftrightarrow> 2 ^ 31 \<le> unat v"
    using f32_bounds(1) [of v] f32_split [of v] f32_bounds(4) [of v] \<open>f32_pattern v = _\<close> by (cases "f32_sign v") auto
qed

lemma is_finite_code [code]: "is_finite v \<longleftrightarrow> take_bit 31 v < 0x7F800000"
proof -
  have "f32_exp v < 255 \<longleftrightarrow> f32_pattern v < 255 * 2 ^ 23"
    unfolding magnitude(2) using f32_bounds(3) [of v] by auto
  then show ?thesis by (simp add: word_less_nat_alt magnitude(1) is_finite_def)
qed

lemma f32_le_zero_code [code]: "f32_le_zero v \<longleftrightarrow> take_bit 31 v \<le> 0x7F800000 \<and> (0x80000000 \<le> v \<or> take_bit 31 v = 0)"
proof -
  have "is_nan v \<longleftrightarrow> \<not> f32_pattern v \<le> 255 * 2 ^ 23"
    unfolding magnitude(2) is_nan_def using f32_bounds(2,3) [of v] by auto
  moreover have "take_bit 31 v = 0 \<longleftrightarrow> f32_pattern v = 0"
    by (simp add: word_unat_eq_iff [of "take_bit 31 v"] magnitude(1))
  moreover have "0x80000000 \<le> v \<longleftrightarrow> f32_sign v = 1" unfolding magnitude(3) by (simp add: word_le_nat_alt)
  ultimately show ?thesis by (simp add: f32_le_zero_def word_le_nat_alt magnitude(1))
qed

definition demo_rope :: invocation where
  "demo_rope = (demo_call ''rope'' ''c'')\<lparr>attributes := [''dimension'' \<mapsto> IntegerAttr 2]\<rparr>"

lemma demo_rope_runs:
  "result_outcome (fst (execute_invocation (compute_device demo_float) demo_runtime demo_rope two_tensors)) =
    Succeeded [demo_resource ''c'']"
  by code_simp

lemma demo_rope_turns:
  "rope_result demo_float demo_runtime demo_rope [''a'' \<mapsto> \<lparr>tshape = [2, 2], tdata = [1, 2, 3, 4]\<rparr>] =
    Some \<lparr>tshape = [2, 2], tdata = [1, 2, - 4, 3]\<rparr>"
  by code_simp

theorem rope_dispatch_computes_witness:
  "tensors heap_view (snd (execute_invocation (compute_device demo_float) demo_runtime demo_rope two_tensors)) ''c'' =
    Some \<lparr>tshape = [2, 2], tdata = [1, 2, - 4, 3]\<rparr>"
proof -
  obtain r y where run: "execute_invocation (compute_device demo_float) demo_runtime demo_rope two_tensors = (r, y)"
    by fastforce
  have "inputs demo_rope = inputs (demo_call ''add'' ''c'')" by (simp add: demo_rope_def demo_call_def)
  then have small: "small_inputs heap_view demo_rope two_tensors"
    using two_tensors_steady(3) by (simp add: small_inputs_def)
  have name: "kernel_name demo_rope = ''rope''" by (simp add: demo_rope_def demo_call_def)
  have c: "capture (kernels two_tensors) = None" by (simp add: two_tensors_def new_executor_def new_kernels_def)
  have op: "operand demo_rope 0 (tensors heap_view two_tensors) = Some \<lparr>tshape = [2, 2], tdata = [1, 2, 3, 4]\<rparr>"
    unfolding two_tensors_steady(4) by (simp add: operand_def nth_opt_def demo_rope_def demo_call_def demo_resource_def)
  then have rect: "sized (operand demo_rope 0 (tensors heap_view two_tensors))" by (simp add: sized_def rectangular_def)
  have "rope_result demo_float demo_runtime demo_rope (tensors heap_view two_tensors) =
      Some \<lparr>tshape = [2, 2], tdata = [1, 2, - 4, 3]\<rparr>"
    using demo_rope_turns op by (simp add: rope_result_def operand_def nth_opt_def demo_rope_def demo_call_def demo_resource_def)
  then show ?thesis
    using rope_dispatch_computes [OF compute_device_memory compute_host_checked compute_device_computes
        two_tensors_steady(1,2) small c name rect run] demo_rope_runs run
    by (auto simp: demo_rope_def demo_call_def demo_resource_def)
qed

text \<open>The second row of a matrix at position one.\<close>

definition one_row :: "heap kernels" where
  "one_row = new_kernels \<lparr>h_f32 = [1 \<mapsto> [3, 4]], h_u16 = (\<lambda>_. None), h_next = 2\<rparr> False"

definition demo_rotate :: "u64 \<Rightarrow> device_buffer \<Rightarrow> (heap, device_buffer) kernel_op" where
  "demo_rotate offset b = rope_with_frequency_scaling (compute_device demo_float) b 0x461C4000 0x3F800000 2 offset 1 Interleaved None"

lemma demo_rotates:
  "fst (demo_rotate 0 (plain \<lparr>ptr = address_of 1, slen = 4\<rparr> [2, 2]) (kernels two_tensors)) =
    Inr (plain \<lparr>ptr = address_of 3, slen = 4\<rparr> [2, 2])"
  "fst (demo_rotate 1 (plain \<lparr>ptr = address_of 1, slen = 2\<rparr> [1, 2]) one_row) =
    Inr (plain \<lparr>ptr = address_of 2, slen = 2\<rparr> [1, 2])"
  by code_simp+

theorem rope_of_later_rows_witness:
  "\<exists>u. holds heap_view (device (snd (demo_rotate 0 (plain \<lparr>ptr = address_of 1, slen = 4\<rparr> [2, 2]) (kernels two_tensors))))
      (plain \<lparr>ptr = address_of 3, slen = 4\<rparr> [2, 2]) u \<and>
    holds heap_view (device (snd (demo_rotate 1 (plain \<lparr>ptr = address_of 1, slen = 2\<rparr> [1, 2]) one_row)))
      (plain \<lparr>ptr = address_of 2, slen = 2\<rparr> [1, 2]) (rows_of u 2 1 1)"
proof -
  let ?t = "\<lparr>tshape = [2, 2], tdata = [1, 2, 3, 4]\<rparr>"
  have "address_of 1 \<noteq> 0" by (simp add: address_of_def)
  then have look: "look (h_f32 (device (kernels two_tensors))) (address_of 1) = Some [1, 2, 3, 4]"
    "look (h_f32 (device one_row)) (address_of 1) = Some [3, 4]"
    by (simp_all add: look_def block_addr small_def two_tensors_def one_row_def new_executor_def new_kernels_def)
  have none: "offered_output (kernels two_tensors) = None" "offered_output one_row = None"
    "capture (kernels two_tensors) = None" "capture one_row = None"
    by (simp_all add: two_tensors_def one_row_def new_executor_def new_kernels_def)
  have k: "ready (compute_device demo_float) heap_view (\<lambda>_. True) demo_float (kernels two_tensors)"
    "ready (compute_device demo_float) heap_view (\<lambda>_. True) demo_float one_row"
    using none by (simp_all add: ready_def compute_device_computes offer_backed_def)
  have rows: "rows_of ?t 2 1 1 = \<lparr>tshape = [1, 2], tdata = [3, 4]\<rparr>" by (simp add: rows_of_def)
  have feeds: "feeds heap_view (kernels two_tensors) (plain \<lparr>ptr = address_of 1, slen = 4\<rparr> [2, 2]) ?t"
    "feeds heap_view one_row (plain \<lparr>ptr = address_of 1, slen = 2\<rparr> [1, 2]) (rows_of ?t 2 1 1)"
    unfolding rows using look none
    by (simp_all add: feeds_def holds_def content_def heap_view_def buffer_len_def offers_def wf_host_def)
  have t: "rectangular ?t 2 2" by (simp add: rectangular_def)
  obtain k' where whole: "demo_rotate 0 (plain \<lparr>ptr = address_of 1, slen = 4\<rparr> [2, 2]) (kernels two_tensors) =
      (Inr (plain \<lparr>ptr = address_of 3, slen = 4\<rparr> [2, 2]), k')" using demo_rotates(1) by (metis prod.collapse)
  obtain l' where part: "demo_rotate (0 + 1) (plain \<lparr>ptr = address_of 1, slen = 2\<rparr> [1, 2]) one_row =
      (Inr (plain \<lparr>ptr = address_of 2, slen = 2\<rparr> [1, 2]), l')" using demo_rotates(2) by (metis prod.collapse add_0)
  from rope_of_later_rows [OF compute_device_memory k(1) none(3) k(2) none(4) feeds t _ whole [unfolded demo_rotate_def]
      part [unfolded demo_rotate_def]]
  show ?thesis using whole part by simp
qed

end
