(* ===== verification/Program_Results.thy ===== *)
theory Program_Results
  imports Kv_Results Rope_Dispatch Capture_Session
begin

text \<open>
  Programs over named tensors: writes, reads, releases and dispatches in any order, run by the
  executor on the device and, step for step, on a map of host tensors.
\<close>

section \<open>Programs\<close>

datatype step =
  Write string host_tensor | Weight string host_tensor | Zeros string "u64 list"
  | Read string | Drop string | Dispatch invocation

definition list_option :: "'a option \<Rightarrow> 'a list" where
  "list_option r = (case r of None \<Rightarrow> [] | Some t \<Rightarrow> [t])"

text \<open>A step on the executor: the tensor it reads, whether it succeeds, and the new state.\<close>

definition run_step :: "'d external \<Rightarrow> runtime \<Rightarrow> step \<Rightarrow> 'd executor \<Rightarrow> (host_tensor list \<times> bool) \<times> 'd executor" where
  "run_step D R s x = (case s of
     Write name t \<Rightarrow> (case write_tensor D name t x of (r, y) \<Rightarrow> (([], \<not> isl r), y))
   | Weight name t \<Rightarrow> (case write_weight_tensor D name t x of (r, y) \<Rightarrow> (([], \<not> isl r), y))
   | Zeros name sh \<Rightarrow> (case write_zeroed_tensor D name sh x of (r, y) \<Rightarrow> (([], \<not> isl r), y))
   | Read name \<Rightarrow> (case read_tensor D name x of (r, y) \<Rightarrow> ((list_option r, r \<noteq> None), y))
   | Drop name \<Rightarrow> (([], True), snd (release_tensor name x))
   | Dispatch call \<Rightarrow> (case execute_invocation D R call x of (r, y) \<Rightarrow> (([], succeeded r), y)))"

text \<open>A run stops at the first step that fails. It returns what was read.\<close>

fun run_steps :: "'d external \<Rightarrow> runtime \<Rightarrow> step list \<Rightarrow> 'd executor \<Rightarrow> (host_tensor list \<times> bool) \<times> 'd executor" where
  "run_steps D R [] x = (([], True), x)"
| "run_steps D R (s # ss) x = (case run_step D R s x of ((ts, ok), y) \<Rightarrow>
     if ok then (case run_steps D R ss y of ((us, ok), z) \<Rightarrow> ((ts @ us, ok), z)) else ((ts, False), y))"

text \<open>The same on a map of host tensors.\<close>

type_synonym tensor_map = "string \<Rightarrow> host_tensor option"

definition zero_tensor :: "u64 list \<Rightarrow> host_tensor" where
  "zero_tensor sh = \<lparr>tshape = sh, tdata = replicate (unat (shape_len sh)) 0\<rparr>"

definition dispatch_result :: "device_float \<Rightarrow> runtime \<Rightarrow> invocation \<Rightarrow> tensor_map \<Rightarrow> host_tensor option" where
  "dispatch_result F R call S =
     (if kernel_name call = ''kv-write'' then kv_result call S
      else if kernel_name call = ''rope'' then rope_result F R call S
      else operator_tensor F call S)"

definition meant :: "device_float \<Rightarrow> runtime \<Rightarrow> step \<Rightarrow> tensor_map \<Rightarrow> (host_tensor list \<times> tensor_map) option" where
  "meant F R s S = (case s of
     Write name t \<Rightarrow> Some ([], S(name \<mapsto> t))
   | Weight name t \<Rightarrow> Some ([], S(name \<mapsto> t))
   | Zeros name sh \<Rightarrow> Some ([], S(name \<mapsto> zero_tensor sh))
   | Read name \<Rightarrow> map_option (\<lambda>t. ([t], S)) (S name)
   | Drop name \<Rightarrow> Some ([], S(name := None))
   | Dispatch call \<Rightarrow>
       (case outputs call of
          [] \<Rightarrow> None
        | out # _ \<Rightarrow> map_option (\<lambda>t. ([], S(rid out \<mapsto> t)))
            (dispatch_result F R call S)))"

fun meant_all :: "device_float \<Rightarrow> runtime \<Rightarrow> step list \<Rightarrow> tensor_map \<Rightarrow> (host_tensor list \<times> tensor_map) option" where
  "meant_all F R [] S = Some ([], S)"
| "meant_all F R (s # ss) S = Option.bind (meant F R s S) (\<lambda>(ts, T).
     map_option (\<lambda>(us, U). (ts @ us, U)) (meant_all F R ss T))"

text \<open>What a step asks of the tensors it starts from: sizes, and that a KV write is in place.\<close>

definition fits :: "step \<Rightarrow> tensor_map \<Rightarrow> bool" where
  "fits s S = (case s of
     Write name t \<Rightarrow> wf_host t \<and> length (tdata t) < 2 ^ 64
   | Weight name t \<Rightarrow> wf_host t \<and> length (tdata t) < 2 ^ 64
   | Dispatch call \<Rightarrow>
       (\<forall>r \<in> set (inputs call). \<forall>t. S (rid r) = Some t \<longrightarrow> length (tdata t) < 2 ^ 32) \<and>
       (computable call S \<or> kernel_name call = ''rope'' \<and> sized (operand call 0 S) \<or>
        kernel_name call = ''kv-write'' \<and> (case (inputs call, outputs call) of
          (kv # _, out # _) \<Rightarrow> rid out = rid kv \<and> history (S (rid kv)) | _ \<Rightarrow> False))
   | _ \<Rightarrow> True)"

fun fits_all :: "device_float \<Rightarrow> runtime \<Rightarrow> step list \<Rightarrow> tensor_map \<Rightarrow> bool" where
  "fits_all F R [] S = True"
| "fits_all F R (s # ss) S \<longleftrightarrow> fits s S \<and>
     (case meant F R s S of None \<Rightarrow> True | Some (ts, T) \<Rightarrow> fits_all F R ss T)"

text \<open>What a failed step leaves: the tensors, or those without the output of the dispatch it was.\<close>

definition given_up :: "step \<Rightarrow> tensor_map \<Rightarrow> tensor_map \<Rightarrow> bool" where
  "given_up s S T \<longleftrightarrow> T = S \<or>
     (\<exists>call out rest. s = Dispatch call \<and> outputs call = out # rest \<and> T = S(rid out := None))"

text \<open>
  Where the program stopped: the steps before succeeded, mean what was read and the tensors they left,
  and the next step is the one that failed.
\<close>

definition stopped ::
  "'d external \<Rightarrow> 'd view \<Rightarrow> device_float \<Rightarrow> runtime \<Rightarrow> step list \<Rightarrow> 'd executor \<Rightarrow> host_tensor list \<Rightarrow> 'd executor \<Rightarrow> bool" where
  "stopped D V F R ss x ts y \<longleftrightarrow> (\<exists>n z. n < length ss \<and>
     run_steps D R (take n ss) x = ((ts, True), z) \<and> run_step D R (ss ! n) z = (([], False), y) \<and>
     meant_all F R (take n ss) (tensors V x) = Some (ts, tensors V z) \<and>
     given_up (ss ! n) (tensors V z) (tensors V y))"

section \<open>Each step\<close>

definition resting :: "'d view \<Rightarrow> ('d \<Rightarrow> bool) \<Rightarrow> 'd executor \<Rightarrow> bool" where
  "resting V X x \<longleftrightarrow> steady V X x \<and> wf_store x \<and> capture (kernels x) = None"

lemma restingD: "resting V X x \<Longrightarrow> steady V X x" "resting V X x \<Longrightarrow> wf_store x" "resting V X x \<Longrightarrow> capture (kernels x) = None"
  by (simp_all add: resting_def)

text \<open>An operation that makes a buffer for the tensor \<open>t\<close>, in an allocation of its own.\<close>

definition stores :: "'d view \<Rightarrow> ('d \<Rightarrow> bool) \<Rightarrow> ('d, device_buffer) kernel_op \<Rightarrow> host_tensor \<Rightarrow> 'd kernels \<Rightarrow> bool" where
  "stores V X m t k = pre m (\<lambda>b k'. X (device k') \<and> intact V (device k) (device k') \<and> holds V (device k') b t \<and>
     (bf16 b = None \<longrightarrow> f32_at V (device k) (ptr (buf_slice b)) = None))
     (\<lambda>_ k'. X (device k') \<and> intact V (device k) (device k')) k"

lemma computes_stores:
  assumes "computes V X m (Some t) k" "offered_output k = None" "keeps (frame_le P) m"
  shows "stores V X m t k"
proof -
  have "offers k = {}" using assms(2) by (simp add: offers_def)
  then show ?thesis using assms(1) unfolding computes_def stores_def
    by (elim pre_mono) (auto simp: gives_def gave_up_def new_place_def spared_none)
qed

lemma returns_compact: "compact_eligible t \<Longrightarrow> returns (upload_weight D t) (\<lambda>b. bf16 b \<noteq> None)"
  by (auto simp: upload_weight_def returns_def andthen_def ret_def split: prod.splits sum.splits)

lemma stores_weight:
  assumes M: "device_memory D V" and C: "device_computes D V X F" and k: "X (device k)"
    and t: "length (tdata t) < 2 ^ 64" and o: "offered_output k = None"
  shows "stores V X (upload_weight D t) t k"
proof (cases "compact_eligible t")
  case False
  then show ?thesis using computes_stores [OF computes_upload [OF M C k t] o keeps_upload]
    by (simp add: upload_weight_def)
next
  case True
  obtain r k' where m: "upload_weight D t k = (r, k')" by fastforce
  have "X (device k')" using keepsD [OF running_transfers(4) [OF C] m] k by (simp add: keeps_running_def)
  then show ?thesis
    using yields_upload_weight [OF M t, of k] m returnsD [OF returns_compact [OF True], of D k _ k']
    by (cases r) (auto simp: yields_def stores_def pre_def)
qed

lemma put_step:
  assumes x: "resting V X x" and st: "stores V X m t (kernels x)" and fr: "\<And>P. keeps (frame_le P) m"
    and wf: "returns m wf_buffer"
    and run: "andthen (kern m) (\<lambda>b. modify (set_storage name b)) x = (r, y)"
  shows "resting V X y \<and> tensors V y = (if isl r then tensors V x else (tensors V x)(name \<mapsto> t))"
proof -
  note s = restingD(1) [OF x]
  obtain q k where u: "m (kernels x) = (q, k)" by fastforce
  have fr: "offered_output k = None" "capture k = None"
    using keepsD [OF fr [of "\<lambda>_. True"] u] steadyD(4) [OF s] restingD(3) [OF x]
    by (simp_all add: frame_le_def offer_le_def capture_le_def)
  show ?thesis
  proof (cases q)
    case (Inl e)
    then have y: "isl r" "y = x\<lparr>kernels := k\<rparr>"
      using run u by (auto simp: andthen_def kern_def inside_def)
    have "X (device k)" "intact V (device (kernels x)) (device k)" using st u Inl by (simp_all add: stores_def pre_def)
    then show ?thesis using steady_intact [OF s, of y] y fr restingD(2) [OF x]
      by (simp add: resting_def wf_store_def)
  next
    case (Inr b)
    then have y: "\<not> isl r" "y = set_storage name b (x\<lparr>kernels := k\<rparr>)"
      using run u by (auto simp: andthen_def kern_def inside_def modify_def)
    have g: "X (device k)" "intact V (device (kernels x)) (device k)" "holds V (device k) b t"
      "bf16 b = None \<Longrightarrow> f32_at V (device (kernels x)) (ptr (buf_slice b)) = None"
      using st u Inr by (simp_all add: stores_def pre_def)
    then have "replaces V {} name x y" using y(2) by (simp add: replaces_def spared_none)
    note put = replaced_put [OF steadyD(1,2) [OF s] this, of b t]
    have "steady V X y" "tensors V y = (tensors V x)(name \<mapsto> t)"
      using put g fr y(2) by (simp_all add: steady_def)
    moreover have "wf_buffer b" using returnsD [OF wf u [unfolded Inr]] .
    then have "wf_store y" using restingD(2) [OF x] y(2) by (auto simp: wf_store_def)
    ultimately show ?thesis using y fr by (simp add: resting_def)
  qed
qed

lemma drop_step:
  assumes "resting V X x"
  shows "resting V X (snd (release_tensor name x)) \<and>
    tensors V (snd (release_tensor name x)) = (tensors V x)(name := None)"
proof -
  note s = restingD(1) [OF assms]
  let ?y = "drop_storage name x"
  have y: "snd (release_tensor name x) = ?y" by (simp add: release_tensor_def)
  have "replaces V {} name x ?y" by (simp add: replaces_def spared_none)
  note drop = replaced_drop [OF steadyD(1,2) [OF s] this]
  show ?thesis unfolding y using drop s restingD(2,3) [OF assms]
    by (auto simp: resting_def steady_def wf_store_def)
qed

lemma zeroed_put:
  assumes "write_zeroed_tensor D name sh x = (r, y)"
  shows "\<exists>q. isl q = isl r \<and> andthen (kern (zeros D sh)) (\<lambda>b. modify (set_storage name b)) x = (q, y)"
  using assms by (auto simp: write_zeroed_tensor_def andthen_def materializing_def map_err_def modify_def
      split: prod.splits sum.splits)

lemma read_step:
  assumes M: "device_memory D V" and H: "host_checked D" and C: "device_computes D V X F"
    and x: "resting V X x" and run: "read_tensor D name x = (got, y)"
  shows "resting V X y \<and> tensors V y = tensors V x \<and> (got = None \<or> got = tensors V x name)"
proof (cases "storage x name")
  case None
  then show ?thesis using x run by (simp add: read_tensor_def)
next
  case (Some b)
  note s = restingD(1) [OF x]
  obtain q k where d: "download D b (kernels x) = (q, k)" by fastforce
  then have y: "y = x\<lparr>kernels := k\<rparr>" using run Some
    by (auto simp: read_tensor_def kern_def inside_def split: sum.splits)
  obtain t where t: "holds V (device (kernels x)) b t" using residentD [OF steadyD(1) [OF s] Some] by blast
  have "intact V (device (kernels x)) (device k)"
    using fetches_download [OF M H t] d by (cases q) (auto simp: fetches_def pre_def)
  moreover have "X (device k)"
    using keepsD [OF running_transfers(1) [OF C] d] steadyD(3) [OF s] by (simp add: keeps_running_def)
  moreover have "offered_output k = None" "capture k = None"
    using keepsD [OF keeps_download [of "\<lambda>_. True"] d] steadyD(4) [OF s] restingD(3) [OF x]
    by (simp_all add: frame_le_def offer_le_def capture_le_def)
  ultimately have "resting V X y" "tensors V y = tensors V x"
    using steady_intact [OF s, of y] y restingD(2) [OF x] by (simp_all add: resting_def wf_store_def)
  then show ?thesis using read_tensor_cases [OF M H steadyD(1) [OF s], of name] run by simp
qed

lemma dispatch_capture:
  assumes "execute_invocation D R call x = (r, y)" "capture (kernels x) = None"
  shows "capture (kernels y) = None"
proof -
  have "dispatch_frame (\<lambda>_. True) x (snd (execute_invocation D R call x))"
    by (rule execute_invocation_frame [OF recorded_any])
  then show ?thesis using assms
    by (auto simp: dispatch_frame_def exec_frame_def frame_le_def capture_le_def)
qed

lemma succeeded_outcome: "(case result_outcome r of Succeeded _ \<Rightarrow> False | Failed _ \<Rightarrow> True) = (\<not> succeeded r)"
  by (simp add: succeeded_def split: outcome.split)

lemma dispatch_step:
  assumes M: "device_memory D V" and H: "host_checked D" and C: "device_computes D V X F"
    and x: "resting V X x" and fit: "fits (Dispatch call) (tensors V x)"
    and run: "execute_invocation D R call x = (r, y)"
  shows "resting V X y \<and> (if succeeded r then meant F R (Dispatch call) (tensors V x) = Some ([], tensors V y)
    else given_up (Dispatch call) (tensors V x) (tensors V y))"
proof -
  have y: "wf_store y" "capture (kernels y) = None"
    using wf_execute_invocation [OF H restingD(2) [OF x], of R call] dispatch_capture [OF run restingD(3) [OF x]] run
    by simp_all
  have small: "small_inputs V call x" using fit by (simp add: fits_def small_inputs_def)
  show ?thesis
  proof (cases "kernel_name call = ''kv-write''")
    case False
    show ?thesis
    proof (cases "kernel_name call = ''rope''")
      case True
      then have "sized (operand call 0 (tensors V x))"
        using fit by (auto simp: fits_def computable_def elementwise_def plain_matmul_def products_def)
      from means_dispatched [OF M H C restingD(1,2) [OF x] small False rope_means [OF M restingD(3) [OF x] True this] run]
      show ?thesis using y False True
        by (auto simp: dispatched_def succeeded_outcome resting_def meant_def dispatch_result_def given_up_def)
    next
      case no: False
      then have "computable call (tensors V x)" using fit False by (simp add: fits_def)
      from operator_dispatched [OF M H C restingD(1,2) [OF x] small this run] show ?thesis
        using y False no by (auto simp: dispatched_def succeeded_outcome resting_def meant_def dispatch_result_def given_up_def)
    qed
  next
    case True
    then obtain kv ins out rest where call: "inputs call = kv # ins" "outputs call = out # rest"
      "rid out = rid kv" "history (tensors V x (rid kv))"
      using fit by (auto simp: fits_def computable_def elementwise_def plain_matmul_def products_def split: list.splits)
    from kv_dispatched [OF M H C restingD [OF x] small True call run] show ?thesis
      using y True call by (auto simp: kv_dispatched_def succeeded_outcome resting_def meant_def dispatch_result_def given_up_def)
  qed
qed

section \<open>Whole programs\<close>

lemma step_refines:
  assumes M: "device_memory D V" and H: "host_checked D" and C: "device_computes D V X F"
    and x: "resting V X x" and fit: "fits s (tensors V x)" and run: "run_step D R s x = ((ts, ok), y)"
  shows "resting V X y \<and> (if ok then meant F R s (tensors V x) = Some (ts, tensors V y)
    else ts = [] \<and> given_up s (tensors V x) (tensors V y))"
proof -
  note X = steadyD(3) [OF restingD(1) [OF x]] and o = steadyD(4) [OF restingD(1) [OF x]]
  show ?thesis
  proof (cases s)
    case (Write name t)
    then have t: "wf_host t" "length (tdata t) < 2 ^ 64" using fit by (simp_all add: fits_def)
    note st = computes_stores [OF computes_upload [OF M C X t(2)] o keeps_upload]
    show ?thesis using run put_step [OF x st keeps_upload returns_upload [OF t(1)]] Write
      by (auto simp: run_step_def meant_def write_tensor_def given_up_def split: prod.splits)
  next
    case (Weight name t)
    then have t: "wf_host t" "length (tdata t) < 2 ^ 64" using fit by (simp_all add: fits_def)
    note st = stores_weight [OF M C X t(2) o]
    show ?thesis using run put_step [OF x st keeps_upload_weight returns_upload_weight [OF t(1)]] Weight
      by (auto simp: run_step_def meant_def write_weight_tensor_def given_up_def split: prod.splits)
  next
    case (Zeros name sh)
    note st = computes_stores [OF computes_zeros [OF M C X] o keeps_zeros, of sh]
    obtain r where w: "write_zeroed_tensor D name sh x = (r, y)" "ts = []" "ok = (\<not> isl r)"
      using run Zeros by (auto simp: run_step_def split: prod.splits)
    obtain q where "isl q = isl r" "andthen (kern (zeros D sh)) (\<lambda>b. modify (set_storage name b)) x = (q, y)"
      using zeroed_put [OF w(1)] by blast
    then show ?thesis using put_step [OF x st keeps_zeros returns_zeros] w Zeros
      by (auto simp: meant_def zero_tensor_def given_up_def)
  next
    case (Read name)
    obtain got where r: "read_tensor D name x = (got, y)" "ok = (got \<noteq> None)" "ts = list_option got"
      using run Read by (auto simp: run_step_def list_option_def split: prod.splits option.splits)
    have "meant F R s (tensors V x) = Some (ts, tensors V x)" if "ok"
      using that r(2,3) read_step [OF M H C x r(1)] Read by (cases got) (auto simp: meant_def list_option_def)
    then show ?thesis using r(2,3) read_step [OF M H C x r(1)] by (auto simp: list_option_def given_up_def)
  next
    case (Drop name)
    then show ?thesis using run drop_step [OF x, of name] by (auto simp: run_step_def meant_def)
  next
    case (Dispatch call)
    then show ?thesis using run dispatch_step [OF M H C x, of call] fit
      by (auto simp: run_step_def split: prod.splits)
  qed
qed

text \<open>C1. Programs on the device mean what they mean on host tensors. Any sequence of tensor
  writes (also of weights kept compact, and of zeros), reads, releases and dispatches of the elementwise
  Operators, transposed products, rotations and KV writes, on a device that keeps its memory's contract and runs each launch
  thread by thread in some order, reads exactly the tensors the same sequence reads on a map
  from names to host tensors, and leaves that map in the store. When the run fails, one of its steps
  failed and the steps before it succeeded: what was read and the tensors they left are what they
  mean on the map, and the failed step left those tensors, or, when it was a dispatch, those
  without its first output. In both cases the next program can start.\<close>
theorem program_refines:
  assumes M: "device_memory D V" and H: "host_checked D" and C: "device_computes D V X F"
    and "resting V X x" "fits_all F R ss (tensors V x)" "run_steps D R ss x = ((ts, ok), y)"
  shows "resting V X y \<and> (if ok then meant_all F R ss (tensors V x) = Some (ts, tensors V y)
    else stopped D V F R ss x ts y)"
  using assms(4-6)
proof (induction ss arbitrary: x ts)
  case Nil
  then show ?case by simp
next
  case (Cons s ss)
  obtain us b z where s: "run_step D R s x = ((us, b), z)" by (metis prod.exhaust)
  have fit: "fits s (tensors V x)" using Cons.prems(2) by simp
  note step = step_refines [OF M H C Cons.prems(1) fit s]
  show ?case
  proof (cases b)
    case False
    then have f: "ts = []" "\<not> ok" "y = z" using Cons.prems(3) s step by auto
    have "stopped D V F R (s # ss) x [] z"
      unfolding stopped_def using step s False by (intro exI [of _ 0] exI [of _ x]) auto
    then show ?thesis using step f by simp
  next
    case True
    then have z: "resting V X z" "meant F R s (tensors V x) = Some (us, tensors V z)" using step by simp_all
    obtain vs where rest: "run_steps D R ss z = ((vs, ok), y)" "ts = us @ vs"
      using Cons.prems(3) s True by (auto split: prod.splits)
    have "fits_all F R ss (tensors V z)" using Cons.prems(2) z(2) by simp
    note IH = Cons.IH [OF z(1) this rest(1)]
    moreover have "stopped D V F R (s # ss) x ts y" if st: "stopped D V F R ss z vs y"
    proof -
      obtain n w where n: "n < length ss" "run_steps D R (take n ss) z = ((vs, True), w)"
        "run_step D R (ss ! n) w = (([], False), y)" "meant_all F R (take n ss) (tensors V z) = Some (vs, tensors V w)"
        "given_up (ss ! n) (tensors V w) (tensors V y)"
        using st unfolding stopped_def by blast
      then show ?thesis unfolding stopped_def using s True z(2) rest(2)
        by (intro exI [of _ "Suc n"] exI [of _ w]) auto
    qed
    ultimately show ?thesis using z(2) rest(2) by auto
  qed
qed

section \<open>A program\<close>

definition demo_program :: "step list" where
  "demo_program =
     [Write ''a'' \<lparr>tshape = [2, 2], tdata = [1, 2, 3, 4]\<rparr>, Write ''b'' \<lparr>tshape = [1, 2], tdata = [10, 20]\<rparr>,
      Dispatch demo_kv_write, Dispatch (demo_call ''add'' ''c''), Read ''c'', Drop ''a'']"

lemma demo_program_runs:
  "snd (fst (run_steps (compute_device demo_float) demo_runtime demo_program empty_store)) = True"
  by code_simp

lemma demo_program_means:
  "map_option fst (meant_all demo_float demo_runtime demo_program (\<lambda>_. None)) = Some [\<lparr>tshape = [2, 2], tdata = [11, 22, 20, 40]\<rparr>]"
  by code_simp

lemma demo_program_fits: "fits_all demo_float demo_runtime demo_program (\<lambda>_. None)"
proof -
  have rows: "write_rows \<lparr>tshape = [2, 2], tdata = [1, 2, 3, 4]\<rparr> 1 \<lparr>tshape = [1, 2], tdata = [10, 20]\<rparr> =
      Some \<lparr>tshape = [2, 2], tdata = [1, 2, 10, 20]\<rparr>" by code_simp
  have add: "tensor_add demo_float \<lparr>tshape = [2, 2], tdata = [1, 2, 10, 20]\<rparr> \<lparr>tshape = [1, 2], tdata = [10, 20]\<rparr> =
      Some \<lparr>tshape = [2, 2], tdata = [11, 22, 20, 40]\<rparr>" by code_simp
  show ?thesis
    by (simp add: demo_program_def fits_def meant_def dispatch_result_def demo_kv_write_def demo_call_def demo_resource_def wf_host_def
        shape_len_def computable_def elementwise_def history_def rectangular_def kv_result_def operand_def nth_opt_def
        attribute_integer_def operator_tensor_def binary_operator_def rows add)
qed

theorem program_refines_witness:
  "fst (run_steps (compute_device demo_float) demo_runtime demo_program empty_store) =
    ([\<lparr>tshape = [2, 2], tdata = [11, 22, 20, 40]\<rparr>], True)"
proof -
  obtain ts ok y where run: "run_steps (compute_device demo_float) demo_runtime demo_program empty_store = ((ts, ok), y)"
    by (metis prod.exhaust)
  have none: "tensors heap_view empty_store = (\<lambda>_. None)"
    by (simp add: tensors_def empty_store_def new_executor_def fun_eq_iff)
  have "resting heap_view (\<lambda>_. True) empty_store"
    by (simp add: resting_def steady_def resident_def separate_def wf_store_def empty_store_def new_executor_def new_kernels_def)
  from program_refines [OF compute_device_memory compute_host_checked compute_device_computes this _ run, unfolded none,
      OF demo_program_fits]
  show ?thesis using demo_program_runs demo_program_means run by (auto split: if_splits)
qed

end
