(* ===== verification/Spec2Isabelle.thy ===== *)
theory Spec2Isabelle
  imports Half_Rounding Device_Greedy Provider Program_Results
begin

text \<open>
  A verification development for the CUDA Provider, the Rust crate under \<open>src/src\<close>: a Provider of
  the Magnetar Runtime that runs tensor Operators on an NVIDIA Device. Its parts, from the outside
  in: \<open>CudaProvider\<close> finds a Device, compiles the Kernels and hands out a \<open>CudaExecutor\<close>; the
  executor keeps named device buffers, admits them with the Runtime's Memory Manager, dispatches
  Kernel invocations on them and captures whole steps for replay; \<open>CudaKernels\<close> checks the shapes of
  one Kernel call, allocates its output and launches device code, which is in \<open>kernels.cu\<close>.
  What is proved ends with \<open>program_refines\<close> of \<open>Program_Results\<close>: a program of tensor writes, reads
  and dispatches run through all of these parts gives the tensors that the Operators mean.

  \<^bold>\<open>Interfaces.\<close> What the crate calls and does not contain is a parameter. \<open>Driver\<close> holds the CUDA
  driver (through cudarc), the compiled device code it runs and \<open>HostTensor::new\<close>, as a record
  \<open>'d external\<close> over an abstract device state \<open>'d\<close>; every call may fail. The Runtime's
  validation and its Memory Manager are the records \<open>runtime\<close> and \<open>'m memory\<close>. What a theorem needs
  of them is a named hypothesis: \<open>host_checked\<close> (the checked constructor), \<open>device_memory\<close> (allocations
  are fresh and copies copy), \<open>device_computes\<close> (an accepted launch runs its threads in some order),
  \<open>recorded_keeps\<close> (recording runs nothing), and the Memory Manager's ledger. \<open>Simulated_Device\<close>,
  \<open>Simulated_Memory\<close>, \<open>Simulated_Compute\<close> and \<open>Simulated_Executor\<close> are instances that satisfy them, on
  which the concrete case of each property runs.

  \<^bold>\<open>Code and theories.\<close>
  \<^item> \<open>Prelude\<close>: machine types, checked arithmetic, decimal text, and operations \<open>('s, 'e, 'a) exec\<close> from a
    state to a result or an error and a new state, with their rules: \<open>pre\<close> (both outcomes),
    \<open>returns\<close>, and the locale \<open>frame\<close> for what every state of a run keeps.
  \<^item> \<open>half_precision.rs\<close>: \<open>Half_Precision\<close> has the conversions on bit patterns, \<open>Float_Bits\<close> values and
    rounding, \<open>Half_Rounding\<close> that decoding is exact, encoding rounds to nearest even, and both
    round trips hold.
  \<^item> \<open>error.rs\<close>: \<open>Cuda_Error\<close>, the errors and their conversion to the Runtime's.
  \<^item> \<open>kernels.rs\<close>: \<open>Buffers\<close> (\<open>CudaDeviceBuffer\<close>, compact weights), \<open>Launch_Plan\<close> (grids and Kernel
    choice), \<open>Kernel_Core\<close> (the state of \<open>CudaKernels\<close>, capture, offered output, transfers, compact
    uploads), \<open>Kernel_Ops\<close>, \<open>Kernel_Matmul\<close> and \<open>Kernel_Attention\<close> (every Kernel, branch by branch).
    \<open>Kernel_Frame\<close>, \<open>Kernel_Contract\<close> and \<open>Kernel_In_Place\<close> prove of every Kernel what the executor
    relies on: it keeps a capture open, only records while capturing, consumes only the
    offered buffer, returns a well-formed buffer, and writes a captured result in place.
  \<^item> \<open>kernels.cu\<close>: \<open>Device_Kernels\<close> has the index arithmetic of split attention and
    replayed KV writes, proved against the launches of \<open>kernels.rs\<close>. \<open>Device_Greedy\<close> has the greedy Kernel with
    its strided loops (a \<open>partial_function\<close>, proved to return), warp shuffles and atomic maxima, and proves
    that the launch selects the best eligible column whatever order the warps run in. \<open>Device_Threads\<close> has whole threads
    (add, mul, silu, silu-mul, bias add, matmul, RoPE, KV write) and the launch of all of them in any order;
    \<open>Device_Rope\<close> proves which elements the threads of a rotation cover.
  \<^item> \<open>executor.rs\<close>: \<open>Executor_State\<close> (fields, attributes, observation log), \<open>Executor_Dispatch\<close>
    (\<open>run_invocation\<close> and below, the offered output guard), \<open>Executor_Capture\<close> (begin, end, abort,
    replay), \<open>Executor_Memory\<close> (tensors and their admission), \<open>Executor_Api\<close> (the trait), and
    \<open>Executor_System\<close>, all calls in any order with the reachable states.
  \<^item> \<open>device.rs\<close>, \<open>peer.rs\<close>: \<open>Provider_Device\<close>; \<open>advertisements.rs\<close>: \<open>Advertisements\<close>; \<open>provider.rs\<close>: \<open>Provider\<close>.

  \<^bold>\<open>What the groups of lemmas show of the executor.\<close>
  \<^item> \<open>Storage_Wf\<close>, \<open>Dispatch_Frame\<close> and \<open>Executor_System\<close>: in every reachable state each buffer has the
    elements its shape says, and executor and Kernels agree on whether a capture is open.
  \<^item> \<open>Dispatch_Storage\<close>: a dispatch changes its first output only, apart from expanding compact inputs,
    and a KV store survives failed writes. \<open>Dispatch_Errors\<close>: which errors a dispatch reports, and
    that the advertised Kernels are the dispatched ones.
  \<^item> \<open>Capture_Session\<close>: successful dispatches in a capture note no failure, record what they use and keep it
    in place; the end then succeeds exactly when the driver completes the capture, and a replay of recorded
    inputs within the bound exactly when the driver takes it. \<open>Executor_Capture\<close>: a
    replay runs only on the storage, within the offsets and with the inputs that were captured.
  \<^item> \<open>Memory_Ledger\<close>: no call takes an allocation of somebody else, and none loses one, but for a submission
    of a Kernel with several outputs, which can leave one allocation per output beyond the first untracked.
  \<^item> \<open>Device_Memory\<close> and \<open>Tensor_Store\<close>: through the device memory the storage is a map from names to
    host tensors (\<open>tensors\<close>), and the tensor operations are updates of that map.
  \<^item> \<open>Kernel_Results\<close>, \<open>Matmul_Results\<close> and \<open>Rope_Results\<close>: with threads that run in any order each Kernel
    call leaves the Operator's tensor (\<open>computes\<close>); \<open>Operator_Results\<close>, \<open>Rope_Dispatch\<close> and \<open>Kv_Results\<close> carry this
    through the dispatch (offers, reuse of the overwritten buffer, compact inputs, failures);
    \<open>Program_Results\<close> composes them.

  \<^bold>\<open>Bounds.\<close> Integers keep their width and wrap as in a release build; sizes are \<open>u64\<close>. No fuel is
  used: the chunks of a compact upload end because the list gets shorter, and the renormalisation of
  a subnormal half, a \<open>partial_function\<close>, is proved to return for every pattern. Greedy selection is
  about rows of fewer than \<open>2 ^ 32\<close> columns, which \<open>greedy_select\<close> checks, and fewer than \<open>2 ^ 31\<close> excluded
  ranges, whose device index is a \<open>u32\<close>. The Operator theorems ask for fewer than
  \<open>2 ^ 32\<close> elements, since \<open>kernels.rs\<close> sizes these launches in \<open>u32\<close>, and for states outside a
  capture with nothing offered, as between dispatches. The matmul theorem is about the route every Device takes
  for a transposed right matrix; the others (split-K, Tensor Cores) run device code that is not modelled.

  \<^bold>\<open>Not modelled.\<close> The freeing of device memory when cudarc drops a buffer, and the outgrown scratch
  buffers kept for replays beyond their being kept; lock poisoning and the interleaving of
  concurrent callers (each trait method runs as one step); arithmetic overflow panics of debug builds;
  the interpolated values in error texts; errors of asynchronous launches that surface in a later
  call, beyond every call being allowed to fail; of \<open>kernels.cu\<close> the reductions in shared memory, tiled and
  split-K products, attention, softmax, RMSNorm and half arithmetic, and all of \<open>tensor_kernels.cu\<close>:
  their results are floating-point reductions in shared memory and inline PTX. \<open>register\<close>,
  \<open>initialize\<close> and \<open>shutdown\<close> of \<open>provider.rs\<close> do nothing, \<open>lib.rs\<close> only declares modules, and the test
  files need a GPU.
\<close>

end
